(* ===== verification/Mainline_Prelude.thy ===== *)
theory Mainline_Prelude
  imports Complex_Main "HOL-Library.Word" "HOL-Library.List_Lexorder" "HOL-Library.Code_Target_Nat"
begin

unbundle bit_operations_syntax

text \<open>
  Shared vocabulary of the development: the names of Rust's machine types, big-endian byte
  strings, the clock, the source of randomness, and the generic facts on lists, options, words and
  XOR that the component theories use. Nothing here is specific to one source file.
\<close>

section \<open>Types\<close>

type_synonym u8 = "8 word"
type_synonym u16 = "16 word"
type_synonym u32 = "32 word"

text \<open>
  \<open>i64\<close> and \<open>i32\<close> values (sequence numbers and error codes) are only compared and printed by the
  code, never added, so they are integers; \<open>usize\<close> values are natural numbers.
\<close>

type_synonym i64 = int
type_synonym i32 = int
type_synonym bytes = "u8 list"

text \<open>
  \<open>Instant\<close> is a clock reading in nanoseconds. \<open>Instant::elapsed\<close> and
  \<open>Instant::duration_since\<close> saturate at zero, as subtraction on the natural numbers does.
\<close>

type_synonym instant = nat
type_synonym duration = nat

definition from_secs :: "nat \<Rightarrow> duration" where
  "from_secs n = n * 1000000000"

definition from_millis :: "nat \<Rightarrow> duration" where
  "from_millis n = n * 1000000"

definition elapsed :: "instant \<Rightarrow> instant \<Rightarrow> duration" where
  "elapsed now since = now - since"

text \<open>
  Functions of third-party crates that the code calls are arguments of the definitions. The
  Castagnoli CRC (crate \<open>crc\<close>) is a function of the byte string fed to the digest.
\<close>

type_synonym crc32c = "bytes \<Rightarrow> u32"

text \<open>
  The operating system's randomness (crate \<open>getrandom\<close>) is an infinite supply of bytes; filling a
  buffer takes a prefix of it and leaves the rest.
\<close>

type_synonym rng = "nat \<Rightarrow> u8"

definition rng_take :: "nat \<Rightarrow> rng \<Rightarrow> bytes" where
  "rng_take n r = map r [0..<n]"

definition rng_drop :: "nat \<Rightarrow> rng \<Rightarrow> rng" where
  "rng_drop n r = (\<lambda>i. r (n + i))"

lemma length_rng_take [simp]: "length (rng_take n r) = n"
  by (simp add: rng_take_def)

section \<open>Fact collections\<close>

named_theorems xor_facts \<open>XOR on words and byte strings\<close>
named_theorems byte_facts \<open>conversions between words and byte strings\<close>
named_theorems const_facts \<open>the program's numeric constants\<close>

declare from_secs_def [const_facts] from_millis_def [const_facts]

section \<open>Lists\<close>

lemma zip_map2_same_length:
  "length xs = length ys \<Longrightarrow> length (map2 f xs ys) = length xs"
  by simp

lemma sorted_wrt_insert_at:
  assumes "sorted_wrt P xs" "i \<le> length xs"
    and "\<And>y. y \<in> set (take i xs) \<Longrightarrow> P y x"
    and "\<And>y. y \<in> set (drop i xs) \<Longrightarrow> P x y"
  shows "sorted_wrt P (take i xs @ x # drop i xs)"
proof -
  have "sorted_wrt P (take i xs @ drop i xs)" using assms(1) by simp
  then show ?thesis
    using assms(3,4) unfolding sorted_wrt_append sorted_wrt.simps by auto
qed

lemma set_insert_at: "set (take i xs @ x # drop i xs) = insert x (set xs)"
proof -
  have "set (take i xs @ drop i xs) = set xs" by simp
  then show ?thesis by (simp del: append_take_drop_id)
qed

lemma sorted_wrt_filter_keep: "sorted_wrt P xs \<Longrightarrow> sorted_wrt P (filter Q xs)"
  by (induction xs) auto

lemma sorted_wrt_take_keep: "sorted_wrt P xs \<Longrightarrow> sorted_wrt P (take n xs)"
  by (metis append_take_drop_id sorted_wrt_append)

lemma sorted_wrt_remove_at:
  "sorted_wrt P xs \<Longrightarrow> sorted_wrt P (take i xs @ drop (Suc i) xs)"
proof -
  assume "sorted_wrt P xs"
  then have "sorted_wrt P (take i xs @ drop i xs)" by simp
  moreover have "set (drop (Suc i) xs) \<subseteq> set (drop i xs)"
    by (rule set_drop_subset_set_drop) simp
  moreover have "sorted_wrt P (drop i xs) \<Longrightarrow> sorted_wrt P (drop (Suc i) xs)"
    by (cases "drop i xs") (auto simp: drop_Suc tl_drop[symmetric])
  ultimately show ?thesis
    unfolding sorted_wrt_append by blast
qed

lemma distinct_map_sorted_wrt_neq:
  "distinct (map f xs) \<longleftrightarrow> sorted_wrt (\<lambda>x y. f x \<noteq> f y) xs"
  by (induction xs) auto

section \<open>Big-endian byte strings\<close>

definition u16_to_be_bytes :: "u16 \<Rightarrow> bytes" where
  "u16_to_be_bytes w = [ucast (drop_bit 8 w), ucast w]"

definition u16_from_be_bytes :: "u8 \<Rightarrow> u8 \<Rightarrow> u16" where
  "u16_from_be_bytes a b = push_bit 8 (ucast a) OR ucast b"

definition u32_to_be_bytes :: "u32 \<Rightarrow> bytes" where
  "u32_to_be_bytes w =
     [ucast (drop_bit 24 w), ucast (drop_bit 16 w), ucast (drop_bit 8 w), ucast w]"

definition u32_from_be_bytes :: "u8 \<Rightarrow> u8 \<Rightarrow> u8 \<Rightarrow> u8 \<Rightarrow> u32" where
  "u32_from_be_bytes a b c d =
     push_bit 24 (ucast a) OR push_bit 16 (ucast b) OR push_bit 8 (ucast c) OR ucast d"

text \<open>The number a big-endian byte string denotes.\<close>

fun be_nat :: "bytes \<Rightarrow> nat" where
  "be_nat [] = 0"
| "be_nat (b # bs) = unat b * 256 ^ length bs + be_nat bs"

lemma length_u16_to_be_bytes [simp]: "length (u16_to_be_bytes w) = 2"
  by (simp add: u16_to_be_bytes_def)

lemma length_u32_to_be_bytes [simp]: "length (u32_to_be_bytes w) = 4"
  by (simp add: u32_to_be_bytes_def)

lemma bit_u8_high [simp]: "8 \<le> n \<Longrightarrow> \<not> bit (b :: u8) n"
  by (auto dest: bit_imp_le_length)

lemma u16_be_roundtrip [byte_facts]:
  "u16_from_be_bytes (ucast (drop_bit 8 w)) (ucast w) = w"
  unfolding u16_from_be_bytes_def
  by (rule bit_word_eqI) (auto simp: bit_simps)

lemma u32_be_roundtrip [byte_facts]:
  "u32_from_be_bytes (ucast (drop_bit 24 w)) (ucast (drop_bit 16 w)) (ucast (drop_bit 8 w)) (ucast w)
     = w"
proof (rule bit_word_eqI)
  fix n :: nat
  assume "n < LENGTH(32)"
  then consider "n < 8" | "8 \<le> n" "n < 16" | "16 \<le> n" "n < 24" | "24 \<le> n" "n < 32" by fastforce
  then show "bit (u32_from_be_bytes (ucast (drop_bit 24 w)) (ucast (drop_bit 16 w))
      (ucast (drop_bit 8 w)) (ucast w)) n = bit w n"
    by cases (auto simp: u32_from_be_bytes_def bit_simps dest: bit_imp_le_length)
qed

lemma u16_to_from_be_bytes [byte_facts]:
  "u16_to_be_bytes (u16_from_be_bytes a b) = [a, b]"
  unfolding u16_to_be_bytes_def u16_from_be_bytes_def
  by (auto intro!: bit_word_eqI simp: bit_simps dest: bit_imp_le_length)

lemma u32_to_from_be_bytes [byte_facts]:
  "u32_to_be_bytes (u32_from_be_bytes a b c d) = [a, b, c, d]"
  unfolding u32_to_be_bytes_def u32_from_be_bytes_def
  by (auto intro!: bit_word_eqI simp: bit_simps dest: bit_imp_le_length)

lemma unat_u8_less [simp]: "unat (b :: u8) < 256"
proof -
  have "unat b < 2 ^ LENGTH(8)" by (rule unsigned_less)
  then show ?thesis by simp
qed

lemma be_nat_less: "be_nat bs < 256 ^ length bs"
proof (induction bs)
  case Nil
  then show ?case by simp
next
  case (Cons b bs)
  have "be_nat (b # bs) < unat b * 256 ^ length bs + 256 ^ length bs"
    using Cons.IH by simp
  also have "\<dots> = Suc (unat b) * 256 ^ length bs" by simp
  also have "\<dots> \<le> 256 * 256 ^ length bs"
    using unat_u8_less [of b] by (intro mult_right_mono) (simp_all add: Suc_le_eq)
  finally show ?case by simp
qed

text \<open>
  The lexicographic order on equally long byte strings (the derived \<open>Ord\<close> of byte arrays) is the
  numeric order.
\<close>

lemma be_nat_less_iff: "length xs = length ys \<Longrightarrow> xs < ys \<longleftrightarrow> be_nat xs < be_nat ys"
proof (induction xs ys rule: list_induct2)
  case Nil
  then show ?case by simp
next
  case (Cons x xs y ys)
  let ?B = "256 ^ length ys :: nat"
  have bx: "be_nat xs < ?B" using be_nat_less [of xs] Cons.hyps by simp
  have by': "be_nat ys < ?B" by (rule be_nat_less)
  consider (lt) "x < y" | (eq) "x = y" | (gt) "y < x" by (rule linorder_cases)
  then show ?case
  proof cases
    case lt
    then have "Suc (unat x) * ?B \<le> unat y * ?B"
      by (intro mult_right_mono) (simp_all add: word_less_nat_alt Suc_le_eq)
    then have "unat x * ?B + be_nat xs < unat y * ?B + be_nat ys" using bx by simp
    with lt Cons.hyps show ?thesis by simp
  next
    case eq
    with Cons show ?thesis by simp
  next
    case gt
    then have "Suc (unat y) * ?B \<le> unat x * ?B"
      by (intro mult_right_mono) (simp_all add: word_less_nat_alt Suc_le_eq)
    then have "\<not> unat x * ?B + be_nat xs < unat y * ?B + be_nat ys" using by' by simp
    with gt Cons.hyps show ?thesis by auto
  qed
qed

lemma be_nat_inject: "length xs = length ys \<Longrightarrow> be_nat xs = be_nat ys \<longleftrightarrow> xs = ys"
  using be_nat_less_iff [of xs ys] be_nat_less_iff [of ys xs] by (metis linorder_cases nat_neq_iff)

section \<open>XOR of byte strings\<close>

definition xor_bytes :: "bytes \<Rightarrow> bytes \<Rightarrow> bytes" where
  "xor_bytes xs ys = map2 (\<lambda>a b. a XOR b) xs ys"

lemma length_xor_bytes [simp]: "length (xor_bytes xs ys) = min (length xs) (length ys)"
  by (simp add: xor_bytes_def)

lemma xor_bytes_Nil [simp]: "xor_bytes [] ys = []"
  by (simp add: xor_bytes_def)

lemma xor_bytes_Cons [simp]: "xor_bytes (x # xs) (y # ys) = (x XOR y) # xor_bytes xs ys"
  by (simp add: xor_bytes_def)

lemma xor_bytes_commute [xor_facts]: "xor_bytes xs ys = xor_bytes ys xs"
  by (induction xs arbitrary: ys; case_tac ys) (auto simp: xor_bytes_def xor.commute)

lemma xor_bytes_assoc [xor_facts]: "xor_bytes (xor_bytes xs ys) zs = xor_bytes xs (xor_bytes ys zs)"
proof (induction xs arbitrary: ys zs)
  case (Cons x xs)
  then show ?case by (cases ys; cases zs) (auto simp: xor_bytes_def xor.assoc)
qed simp

lemma xor_bytes_self: "xor_bytes xs xs = replicate (length xs) 0"
  by (induction xs) auto

lemma xor_bytes_zero: "length ys = n \<Longrightarrow> xor_bytes ys (replicate n 0) = ys"
  by (induction ys arbitrary: n) (auto simp: Suc_length_conv [symmetric])

lemma xor_bytes_cancel: "length xs = length ys \<Longrightarrow> xor_bytes (xor_bytes xs ys) ys = xs"
  by (simp add: xor_bytes_assoc xor_bytes_self xor_bytes_zero)

section \<open>Decimal text\<close>

text \<open>Rust's \<open>Display\<close> of unsigned and signed integers, as the UTF-8 bytes of the text, and the bytes of
  an ASCII literal.\<close>

definition ascii :: "string \<Rightarrow> bytes" where
  "ascii s = map (\<lambda>c. of_nat (of_char c)) s"

fun show_nat :: "nat \<Rightarrow> bytes" where
  "show_nat n = (if n < 10 then [of_nat (48 + n)] else show_nat (n div 10) @ [of_nat (48 + n mod 10)])"

declare show_nat.simps [simp del]

definition show_int :: "int \<Rightarrow> bytes" where
  "show_int i = (if i < 0 then 45 # show_nat (nat (- i)) else show_nat (nat i))"

definition is_digit :: "u8 \<Rightarrow> bool" where
  "is_digit b \<longleftrightarrow> 48 \<le> b \<and> b \<le> 57"

lemma unat_digit: "d < 10 \<Longrightarrow> unat (of_nat (48 + d) :: u8) = 48 + d"
  by (simp only: unat_of_nat) simp

lemma digit_of_nat: "d < 10 \<Longrightarrow> is_digit (of_nat (48 + d))"
  by (simp only: is_digit_def word_le_nat_alt unat_digit) simp

lemma show_nat_digits: "list_all is_digit (show_nat n)" and show_nat_nonempty [simp]: "show_nat n \<noteq> []"
proof -
  show "list_all is_digit (show_nat n)"
    by (induction n rule: show_nat.induct) (subst show_nat.simps, auto simp del: of_nat_add simp: digit_of_nat)
  show "show_nat n \<noteq> []" by (subst show_nat.simps) simp
qed

definition digits_value :: "bytes \<Rightarrow> nat" where
  "digits_value bs = foldl (\<lambda>acc b. acc * 10 + (unat b - 48)) 0 bs"

lemma digits_value_show_nat [simp]: "digits_value (show_nat n) = n"
proof (induction n rule: show_nat.induct)
  case (1 n)
  then show ?case
    by (subst show_nat.simps) (simp add: digits_value_def unat_digit del: of_nat_add)
qed

lemma show_nat_inject [simp]: "show_nat m = show_nat n \<longleftrightarrow> m = n"
  by (metis digits_value_show_nat)

text \<open>A run of elements with a property, ended by one without it, is found again in a concatenation.\<close>

lemma split_at_first:
  assumes "list_all P xs" "list_all P ys" "\<not> P c" "\<not> P d" "xs @ c # us = ys @ d # vs"
  shows "xs = ys \<and> c = d \<and> us = vs"
  using assms
proof (induction xs arbitrary: ys)
  case Nil
  then show ?case by (cases ys) auto
next
  case (Cons x xs)
  then show ?case by (cases ys) auto
qed

section \<open>Results\<close>

text \<open>\<open>Result<T, E>\<close> is \<open>'e + 't\<close>; \<open>bindE\<close> is the question mark operator, and \<open>traverse\<close> collects an iterator
  of results, stopping at the first error.\<close>

definition bindE :: "'e + 'a \<Rightarrow> ('a \<Rightarrow> 'e + 'b) \<Rightarrow> 'e + 'b" where
  "bindE r f = (case r of Inl e \<Rightarrow> Inl e | Inr x \<Rightarrow> f x)"

lemma bindE_simps [simp]: "bindE (Inl e) f = Inl e" "bindE (Inr x) f = f x"
  by (simp_all add: bindE_def)

definition map_err :: "('e \<Rightarrow> 'f) \<Rightarrow> 'e + 'a \<Rightarrow> 'f + 'a" where
  "map_err f r = (case r of Inl e \<Rightarrow> Inl (f e) | Inr x \<Rightarrow> Inr x)"

lemma map_err_simps [simp]: "map_err f (Inl e) = Inl (f e)" "map_err f (Inr x) = Inr x"
  by (simp_all add: map_err_def)

definition ok_or :: "'a option \<Rightarrow> 'e \<Rightarrow> 'e + 'a" where
  "ok_or x e = (case x of Some y \<Rightarrow> Inr y | None \<Rightarrow> Inl e)"

lemma ok_or_simps [simp]: "ok_or (Some y) e = Inr y" "ok_or None e = Inl e"
  by (simp_all add: ok_or_def)

fun traverse :: "('a \<Rightarrow> 'e + 'b) \<Rightarrow> 'a list \<Rightarrow> 'e + 'b list" where
  "traverse f [] = Inr []"
| "traverse f (x # xs) = bindE (f x) (\<lambda>y. bindE (traverse f xs) (\<lambda>ys. Inr (y # ys)))"

lemma traverse_Inr: "(\<And>x. x \<in> set xs \<Longrightarrow> f x = Inr (g x)) \<Longrightarrow> traverse f xs = Inr (map g xs)"
  by (induction xs) auto

end
