(* ===== verification/Ident.thy ===== *)
theory Ident
  imports Mainline_Prelude
begin

unbundle bit_operations_syntax

text \<open>
  Node ids and lookup targets, from \<^verbatim>\<open>src/src/common/id.rs\<close>: the 20-byte \<open>Id\<close>, its XOR metric, its
  hexadecimal text form, and the ids that BEP 42 derives from an IPv4 address. The theorems show
  that \<open>distance\<close> is the bit length of the XOR distance (hence the index of the Kademlia bucket),
  that the text form round-trips, that a generated id is valid for its address, and that one
  address has at most eight valid prefixes.
\<close>

section \<open>The id type\<close>

text \<open>\<open>struct Id([u8; ID_SIZE])\<close>: byte strings of length 20, ordered as the derived \<open>Ord\<close> orders them.\<close>

definition ID_SIZE :: nat where
  "ID_SIZE = 20"

definition MAX_DISTANCE :: nat where
  "MAX_DISTANCE = 160"

typedef id = "{bs :: bytes. length bs = 20}"
  morphisms as_bytes Abs_id
  by (rule exI [of _ "replicate 20 0"]) simp

lemma id_abstype [code abstype]: "Abs_id (as_bytes a) = a"
  by (rule as_bytes_inverse)

declare ID_SIZE_def [const_facts] MAX_DISTANCE_def [const_facts]

instantiation id :: linorder
begin

definition less_eq_id :: "id \<Rightarrow> id \<Rightarrow> bool" where
  "less_eq_id a b = (as_bytes a \<le> as_bytes b)"

definition less_id :: "id \<Rightarrow> id \<Rightarrow> bool" where
  "less_id a b = (as_bytes a < as_bytes b)"

instance
  by standard (auto simp: less_eq_id_def less_id_def as_bytes_inject less_le_not_le)

end

instantiation id :: equal
begin

definition equal_id :: "id \<Rightarrow> id \<Rightarrow> bool" where
  "equal_id a b = (as_bytes a = as_bytes b)"

instance
  by standard (simp add: equal_id_def as_bytes_inject)

end

lemma length_as_bytes [simp]: "length (as_bytes a) = 20"
  using as_bytes [of a] by simp

lemma id_eqI: "as_bytes a = as_bytes b \<Longrightarrow> a = b"
  by (simp add: as_bytes_inject)

section \<open>Operations\<close>

text \<open>\<open>From<[u8; ID_SIZE]>\<close>; an argument of another length does not exist in Rust.\<close>

definition id_of :: "bytes \<Rightarrow> id" where
  "id_of bs = Abs_id (if length bs = 20 then bs else replicate 20 0)"

lemma as_bytes_id_of_if [code abstract]:
  "as_bytes (id_of bs) = (if length bs = 20 then bs else replicate 20 0)"
  by (simp add: id_of_def Abs_id_inverse)

lemma as_bytes_id_of: "length bs = 20 \<Longrightarrow> as_bytes (id_of bs) = bs"
  by (simp add: as_bytes_id_of_if)

lemma id_of_as_bytes [simp]: "id_of (as_bytes a) = a"
  by (rule id_eqI) (simp add: as_bytes_id_of)

datatype invalid_id_size = InvalidIdSize nat

definition from_bytes :: "bytes \<Rightarrow> invalid_id_size + id" where
  "from_bytes bs =
     (if length bs \<noteq> ID_SIZE then Inl (InvalidIdSize (length bs)) else Inr (id_of bs))"

text \<open>\<open>Id::random\<close>: twenty bytes of the random supply.\<close>

definition id_random :: "rng \<Rightarrow> id \<times> rng" where
  "id_random r = (id_of (rng_take 20 r), rng_drop 20 r)"

definition id_xor :: "id \<Rightarrow> id \<Rightarrow> id" where
  "id_xor a b = Abs_id (xor_bytes (as_bytes a) (as_bytes b))"

lemma as_bytes_id_xor [simp, code abstract]:
  "as_bytes (id_xor a b) = xor_bytes (as_bytes a) (as_bytes b)"
  by (simp add: id_xor_def Abs_id_inverse)

text \<open>\<open>u8::leading_zeros\<close> of the standard library.\<close>

definition u8_leading_zeros :: "u8 \<Rightarrow> nat" where
  "u8_leading_zeros b = length (takeWhile Not (rev (map (bit b) [0..<8])))"

fun leading_zeros_from :: "nat \<Rightarrow> bytes \<Rightarrow> nat" where
  "leading_zeros_from i [] = 160"
| "leading_zeros_from i (b # bs) =
     (if b \<noteq> 0 then i * 8 + u8_leading_zeros b else leading_zeros_from (Suc i) bs)"

definition id_leading_zeros :: "id \<Rightarrow> nat" where
  "id_leading_zeros a = leading_zeros_from 0 (as_bytes a)"

definition id_distance :: "id \<Rightarrow> id \<Rightarrow> nat" where
  "id_distance a b = MAX_DISTANCE - id_leading_zeros (id_xor a b)"

subsection \<open>Text form\<close>

text \<open>
  A \<open>str\<close> is its UTF-8 byte string. Slicing it inside a character panics; the option of
  \<open>id_from_str\<close> is \<open>None\<close> then.
\<close>

definition hex_digit :: "u8 \<Rightarrow> u8" where
  "hex_digit n = (if n < 10 then 48 + n else 87 + n)"

definition byte_hex :: "u8 \<Rightarrow> bytes" where
  "byte_hex b = [hex_digit (drop_bit 4 b), hex_digit (b AND 15)]"

definition id_to_string :: "id \<Rightarrow> bytes" where
  "id_to_string a = concat (map byte_hex (as_bytes a))"

definition is_char_boundary :: "bytes \<Rightarrow> nat \<Rightarrow> bool" where
  "is_char_boundary s i =
     (if i < length s then s ! i AND 0xC0 \<noteq> 0x80 else i = length s)"

definition to_digit16 :: "u8 \<Rightarrow> u8 option" where
  "to_digit16 c =
     (if 48 \<le> c \<and> c \<le> 57 then Some (c - 48)
      else if 97 \<le> c \<and> c \<le> 102 then Some (c - 87)
      else if 65 \<le> c \<and> c \<le> 70 then Some (c - 55)
      else None)"

text \<open>\<open>u8::from_str_radix(_, 16)\<close> on a two-byte string; a leading plus sign is accepted.\<close>

definition u8_from_hex2 :: "u8 \<Rightarrow> u8 \<Rightarrow> u8 option" where
  "u8_from_hex2 c d =
     (if c = 43 then to_digit16 d
      else case (to_digit16 c, to_digit16 d) of
             (Some x, Some y) \<Rightarrow> Some (x * 16 + y)
           | _ \<Rightarrow> None)"

datatype decode_id_error =
    InvalidIdSizeError invalid_id_size
  | OddNumberOfCharacters
  | InvalidHexCharacter bytes

text \<open>The loop of \<open>from_str\<close> from byte offset \<open>i\<close>: \<open>None\<close> is the panic of a bad slice.\<close>

fun from_str_loop :: "bytes \<Rightarrow> nat \<Rightarrow> bytes \<Rightarrow> (decode_id_error + bytes) option" where
  "from_str_loop s i (c # d # rest) =
     (if \<not> is_char_boundary s i \<or> \<not> is_char_boundary s (i + 2) then None
      else case u8_from_hex2 c d of
             None \<Rightarrow> Some (Inl (InvalidHexCharacter [c, d]))
           | Some b \<Rightarrow> map_option (map_sum (\<lambda>e. e) (\<lambda>bs. b # bs)) (from_str_loop s (i + 2) rest))"
| "from_str_loop s i _ = Some (Inr [])"

definition id_from_str :: "bytes \<Rightarrow> (decode_id_error + id) option" where
  "id_from_str s =
     (if length s mod 2 \<noteq> 0 then Some (Inl OddNumberOfCharacters)
      else case from_str_loop s 0 s of
             None \<Rightarrow> None
           | Some (Inl e) \<Rightarrow> Some (Inl e)
           | Some (Inr bs) \<Rightarrow> Some (map_sum InvalidIdSizeError (\<lambda>a. a) (from_bytes bs)))"

subsection \<open>BEP 42\<close>

definition IPV4_MASK :: u32 where
  "IPV4_MASK = 0x030f3fff"

definition id_prefix_ipv4 :: "crc32c \<Rightarrow> u32 \<Rightarrow> u8 \<Rightarrow> bytes" where
  "id_prefix_ipv4 crc ip r =
     (let r32 = ucast r :: u32;
          masked_ip = (ip AND IPV4_MASK) OR push_bit 29 r32
      in take 3 (u32_to_be_bytes (crc (u32_to_be_bytes masked_ip))))"

definition first_21_bits :: "bytes \<Rightarrow> bytes" where
  "first_21_bits bs = [bs ! 0, bs ! 1, bs ! 2 AND 0xf8]"

definition from_ipv4_and_r :: "crc32c \<Rightarrow> bytes \<Rightarrow> u32 \<Rightarrow> u8 \<Rightarrow> id" where
  "from_ipv4_and_r crc bs ip r =
     (let prefix = id_prefix_ipv4 crc ip r;
          bs1 = bs[0 := prefix ! 0];
          bs2 = bs1[1 := prefix ! 1];
          bs3 = bs2[2 := (prefix ! 2 AND 0xf8) OR (bs2 ! 2 AND 0x7)]
      in id_of (bs3[ID_SIZE - 1 := r]))"

definition from_ipv4 :: "crc32c \<Rightarrow> u32 \<Rightarrow> rng \<Rightarrow> id \<times> rng" where
  "from_ipv4 crc ip rnd =
     (let bs = rng_take 21 rnd
      in (from_ipv4_and_r crc (drop 1 bs) ip (bs ! 0), rng_drop 21 rnd))"

text \<open>\<open>from_ip\<close> and \<open>from_addr\<close> panic (\<open>unimplemented!\<close>) on IPv6, which is \<open>None\<close> here.\<close>

datatype ip_addr = IpV4 u32 | IpV6 bytes

fun id_from_ip :: "crc32c \<Rightarrow> ip_addr \<Rightarrow> rng \<Rightarrow> (id \<times> rng) option" where
  "id_from_ip crc (IpV4 ip) rnd = Some (from_ipv4 crc ip rnd)"
| "id_from_ip crc (IpV6 _) rnd = None"

definition id_from_addr :: "crc32c \<Rightarrow> ip_addr \<times> u16 \<Rightarrow> rng \<Rightarrow> (id \<times> rng) option" where
  "id_from_addr crc addr rnd = id_from_ip crc (fst addr) rnd"

text \<open>\<open>Ipv4Addr::is_private\<close>, \<open>is_link_local\<close>, \<open>is_loopback\<close> of the standard library.\<close>

definition octet :: "u32 \<Rightarrow> nat \<Rightarrow> u8" where
  "octet ip i = u32_to_be_bytes ip ! i"

definition is_private :: "u32 \<Rightarrow> bool" where
  "is_private ip \<longleftrightarrow>
     octet ip 0 = 10 \<or>
     (octet ip 0 = 172 \<and> 16 \<le> octet ip 1 \<and> octet ip 1 \<le> 31) \<or>
     (octet ip 0 = 192 \<and> octet ip 1 = 168)"

definition is_link_local :: "u32 \<Rightarrow> bool" where
  "is_link_local ip \<longleftrightarrow> octet ip 0 = 169 \<and> octet ip 1 = 254"

definition is_loopback :: "u32 \<Rightarrow> bool" where
  "is_loopback ip \<longleftrightarrow> octet ip 0 = 127"

definition is_valid_for_ip :: "crc32c \<Rightarrow> id \<Rightarrow> u32 \<Rightarrow> bool" where
  "is_valid_for_ip crc a ip =
     (if is_private ip \<or> is_link_local ip \<or> is_loopback ip then True
      else first_21_bits (as_bytes a) =
           first_21_bits (id_prefix_ipv4 crc ip (as_bytes a ! (ID_SIZE - 1))))"

definition id_first_21_bits :: "id \<Rightarrow> bytes" where
  "id_first_21_bits a = first_21_bits (as_bytes a)"

section \<open>The XOR metric\<close>

abbreviation id_nat :: "id \<Rightarrow> nat" where
  "id_nat a \<equiv> be_nat (as_bytes a)"

lemma id_less_iff: "a < b \<longleftrightarrow> id_nat a < id_nat b"
  by (simp add: less_id_def be_nat_less_iff)

lemma id_nat_inject: "id_nat a = id_nat b \<longleftrightarrow> a = b"
  by (simp add: be_nat_inject as_bytes_inject)

lemma id_xor_commute [xor_facts]: "id_xor a b = id_xor b a"
  by (rule id_eqI) (simp add: xor_bytes_commute)

lemma id_xor_cancel [simp]: "id_xor (id_xor a t) t = a"
  by (rule id_eqI) (simp add: xor_bytes_cancel)

lemma id_xor_assoc [xor_facts]: "id_xor (id_xor a b) c = id_xor a (id_xor b c)"
  by (rule id_eqI) (simp add: xor_bytes_assoc)

lemma id_xor_cancel_left [simp]: "id_xor t (id_xor t a) = a"
  by (metis id_xor_cancel id_xor_commute)

lemma id_xor_right_inject [simp]: "id_xor a t = id_xor b t \<longleftrightarrow> a = b"
  by (metis id_xor_cancel)

lemma be_nat_zero_iff: "be_nat bs = 0 \<longleftrightarrow> (\<forall>b \<in> set bs. b = 0)"
  by (induction bs) (auto simp: unat_eq_zero)

lemma id_xor_zero_iff: "id_nat (id_xor a b) = 0 \<longleftrightarrow> a = b"
proof
  assume "id_nat (id_xor a b) = 0"
  then have "as_bytes (id_xor a b) = replicate 20 0"
    by (metis be_nat_zero_iff length_as_bytes replicate_eqI)
  also have "\<dots> = as_bytes (id_xor b b)" by (simp add: xor_bytes_self)
  finally show "a = b" using id_xor_right_inject id_eqI by metis
qed (simp add: be_nat_zero_iff xor_bytes_self)

lemma nat_xor_le: "m XOR n \<le> m + (n :: nat)"
proof (induction m arbitrary: n rule: less_induct)
  case (less m)
  show ?case
  proof (cases "m = 0")
    case False
    then have "m div 2 XOR n div 2 \<le> m div 2 + n div 2" by (intro less.IH) simp
    then have "m XOR n \<le> of_bool (odd m \<noteq> odd n) + 2 * (m div 2 + n div 2)"
      by (subst xor_nat_rec) simp
    also have "\<dots> \<le> m + n" by (cases "odd m"; cases "odd n") (auto elim!: evenE oddE)
    finally show ?thesis .
  qed simp
qed

lemma be_nat_xor_le:
  "length xs = length ys \<Longrightarrow> be_nat (xor_bytes xs ys) \<le> be_nat xs + be_nat ys"
proof (induction xs ys rule: list_induct2)
  case (Cons x xs y ys)
  have "unat (x XOR y) * 256 ^ length ys \<le> (unat x + unat y) * 256 ^ length ys"
    by (intro mult_right_mono) (simp_all add: unsigned_xor_eq nat_xor_le)
  with Cons show ?case by (simp add: algebra_simps)
qed simp

lemma id_xor_triangle: "id_nat (id_xor a c) \<le> id_nat (id_xor a b) + id_nat (id_xor b c)"
proof -
  have "id_xor a c = id_xor (id_xor a b) (id_xor b c)" by (simp only: id_xor_assoc id_xor_cancel_left)
  then show ?thesis
    using be_nat_xor_le [of "as_bytes (id_xor a b)" "as_bytes (id_xor b c)"] by simp
qed

subsection \<open>Leading zeros and bit length\<close>

lemma bit_nat_ge: "bit (n :: nat) k \<Longrightarrow> 2 ^ k \<le> n"
  by (rule ccontr) (simp add: bit_iff_odd)

lemma u8_leading_zeros_bits:
  assumes "z = u8_leading_zeros b"
  shows "z \<le> 8" and "j < z \<Longrightarrow> \<not> bit b (7 - j)" and "z < 8 \<Longrightarrow> bit b (7 - z)"
proof -
  let ?xs = "rev (map (bit b) [0..<8])"
  have nth: "?xs ! j = bit b (7 - j)" if "j < 8" for j
    using that by (subst rev_nth) simp_all
  show z8: "z \<le> 8"
    using length_takeWhile_le [of Not ?xs] by (simp add: assms u8_leading_zeros_def)
  show "\<not> bit b (7 - j)" if "j < z"
  proof -
    have "takeWhile Not ?xs ! j = ?xs ! j"
      using that by (intro takeWhile_nth) (simp add: assms u8_leading_zeros_def)
    moreover have "takeWhile Not ?xs ! j \<in> set (takeWhile Not ?xs)"
      using that by (intro nth_mem) (simp add: assms u8_leading_zeros_def)
    ultimately show ?thesis using nth [of j] that z8 by (auto dest: set_takeWhileD)
  qed
  show "bit b (7 - z)" if "z < 8"
    using that nth [of z] nth_length_takeWhile [of Not ?xs] by (simp add: assms u8_leading_zeros_def)
qed

lemma u8_leading_zeros_bounds:
  fixes b :: u8
  assumes "b \<noteq> 0"
  defines "z \<equiv> u8_leading_zeros b"
  shows "z < 8" and "2 ^ (7 - z) \<le> unat b" and "unat b < 2 ^ (8 - z)"
proof -
  note zb = u8_leading_zeros_bits [OF z_def [THEN meta_eq_to_obj_eq]]
  have high: "\<not> bit b n" if "8 - z \<le> n" for n
    using that zb(1) zb(2) [of "7 - n"] by (cases "n < 8") auto
  have "take_bit (8 - z) b = b"
    using high by (intro bit_word_eqI) (auto simp: bit_take_bit_iff not_less [symmetric])
  then have "take_bit (8 - z) (unat b) = unat b" by (metis unsigned_take_bit_eq)
  then show "unat b < 2 ^ (8 - z)" by (metis take_bit_nat_less_exp)
  show "z < 8"
  proof (rule ccontr)
    assume "\<not> z < 8"
    then have "b = 0" using high by (intro bit_word_eqI) auto
    with assms(1) show False ..
  qed
  then have "bit (unat b) (7 - z)" using zb(3) by (simp add: bit_unsigned_iff)
  then show "2 ^ (7 - z) \<le> unat b" by (rule bit_nat_ge)
qed

lemma leading_zeros_from_zero:
  "i + length bs = 20 \<Longrightarrow> be_nat bs = 0 \<Longrightarrow> leading_zeros_from i bs = 160"
  by (induction i bs rule: leading_zeros_from.induct) (auto simp: unat_eq_zero)

lemma leading_zeros_from_bounds:
  assumes "i + length bs = 20" "be_nat bs \<noteq> 0"
  shows "leading_zeros_from i bs < 160 \<and> 2 ^ (159 - leading_zeros_from i bs) \<le> be_nat bs
    \<and> be_nat bs < 2 ^ (160 - leading_zeros_from i bs)"
  using assms
proof (induction i bs rule: leading_zeros_from.induct)
  case (2 i b bs)
  show ?case
  proof (cases "b = 0")
    case True
    with 2 show ?thesis by simp
  next
    case False
    let ?z = "u8_leading_zeros b" and ?n = "length bs"
    note z = u8_leading_zeros_bounds [OF False]
    have i: "i = 19 - ?n" "?n \<le> 19" using "2.prems"(1) by auto
    have lo: "159 - (i * 8 + ?z) = (7 - ?z) + 8 * ?n" and hi: "160 - (i * 8 + ?z) = (8 - ?z) + 8 * ?n"
      using i z(1) by auto
    have p: "(256 :: nat) ^ ?n = 2 ^ (8 * ?n)" by (simp add: power_mult)
    have "2 ^ (7 - ?z) * 256 ^ ?n \<le> unat b * 256 ^ ?n" using z(2) by (intro mult_right_mono) simp_all
    moreover have "Suc (unat b) * 256 ^ ?n \<le> 2 ^ (8 - ?z) * 256 ^ ?n"
      using z(3) by (intro mult_right_mono) (simp_all add: Suc_le_eq)
    moreover have "be_nat bs < 256 ^ ?n" by (rule be_nat_less)
    ultimately have "2 ^ (7 - ?z) * 256 ^ ?n \<le> be_nat (b # bs)"
      "be_nat (b # bs) < 2 ^ (8 - ?z) * 256 ^ ?n"
      unfolding be_nat.simps mult_Suc by linarith+
    moreover have "leading_zeros_from i (b # bs) = i * 8 + ?z" "i * 8 + ?z < 160"
      using False i z(1) by simp_all
    ultimately show ?thesis by (simp only: lo hi power_add p)
  qed
qed simp

lemma id_leading_zeros_le: "id_leading_zeros a \<le> 160"
  using leading_zeros_from_zero [of 0 "as_bytes a"] leading_zeros_from_bounds [of 0 "as_bytes a"]
  unfolding id_leading_zeros_def by fastforce

lemma id_distance_self [simp]: "id_distance a a = 0"
  using leading_zeros_from_zero [of 0 "as_bytes (id_xor a a)"] id_xor_zero_iff [of a a]
  by (simp add: id_distance_def id_leading_zeros_def const_facts)

lemma id_distance_bounds:
  assumes "a \<noteq> b"
  shows "0 < id_distance a b" "id_distance a b \<le> 160"
    "2 ^ (id_distance a b - 1) \<le> id_nat (id_xor a b)" "id_nat (id_xor a b) < 2 ^ id_distance a b"
proof -
  have "id_nat (id_xor a b) \<noteq> 0" using assms by (simp add: id_xor_zero_iff del: as_bytes_id_xor)
  then have "id_leading_zeros (id_xor a b) < 160
    \<and> 2 ^ (159 - id_leading_zeros (id_xor a b)) \<le> id_nat (id_xor a b)
    \<and> id_nat (id_xor a b) < 2 ^ (160 - id_leading_zeros (id_xor a b))"
    unfolding id_leading_zeros_def by (intro leading_zeros_from_bounds) simp_all
  then show "0 < id_distance a b" "id_distance a b \<le> 160"
    "2 ^ (id_distance a b - 1) \<le> id_nat (id_xor a b)" "id_nat (id_xor a b) < 2 ^ id_distance a b"
    by (auto simp: id_distance_def const_facts)
qed

lemma id_distance_eq_0_iff [simp]: "id_distance a b = 0 \<longleftrightarrow> a = b"
  using id_distance_bounds(1) [of a b] by (cases "a = b") auto

lemma id_distance_le: "id_distance a b \<le> 160"
  by (simp add: id_distance_def const_facts)

lemma id_distance_commute: "id_distance a b = id_distance b a"
  by (simp add: id_distance_def id_xor_commute)

section \<open>Text form\<close>

lemma u8_below: "unat (n :: u8) < k \<Longrightarrow> n \<in> set (map word_of_nat [0..<k])"
  by (auto intro: image_eqI [of _ _ "unat n"])

lemma u8_nibbles: "map word_of_nat [0..<16] = [0, 1, 2, 3, 4, 5, 6, 7, 8, 9, 10, 11, 12, 13, 14, 15 :: u8]"
  by (simp add: upt_rec)

lemma u8_octal: "map word_of_nat [0..<8] = [0, 1, 2, 3, 4, 5, 6, 7 :: u8]"
  by (simp add: upt_rec)

lemma hex_digit_list:
  "list_all (\<lambda>n. to_digit16 (hex_digit n) = Some n \<and> hex_digit n \<noteq> 43 \<and> hex_digit n AND 0xC0 \<noteq> 0x80)
     [0, 1, 2, 3, 4, 5, 6, 7, 8, 9, 10, 11, 12, 13, 14, 15]"
  by (simp add: hex_digit_def to_digit16_def)

lemma hex_digit_facts:
  assumes "n < 16"
  shows "to_digit16 (hex_digit n) = Some n" "hex_digit n \<noteq> 43" "hex_digit n AND 0xC0 \<noteq> 0x80"
proof -
  have "unat n < 16" using assms by (simp add: word_less_nat_alt)
  then have "n \<in> set (map word_of_nat [0..<16])" by (rule u8_below)
  then show "to_digit16 (hex_digit n) = Some n" "hex_digit n \<noteq> 43" "hex_digit n AND 0xC0 \<noteq> 0x80"
    using hex_digit_list unfolding u8_nibbles list_all_iff by blast+
qed

lemma nibbles: "drop_bit 4 b < (16 :: u8)" "b AND 15 < (16 :: u8)"
  "drop_bit 4 b * 16 + (b AND 15) = (b :: u8)"
proof -
  have hi: "unat (drop_bit 4 b) = unat b div 16" by (simp add: drop_bit_eq_div unat_div_distrib)
  have "b AND 15 = take_bit 4 b" by (simp add: take_bit_eq_mask mask_numeral)
  then have lo: "unat (b AND 15) = unat b mod 16"
    by (simp add: take_bit_eq_mod unat_mod_distrib)
  have "unat b div 16 < 16" using unat_u8_less [of b] by (intro less_mult_imp_div_less) simp
  then show 1: "drop_bit 4 b < (16 :: u8)" by (simp add: word_less_nat_alt hi)
  show "b AND 15 < (16 :: u8)" by (simp add: word_less_nat_alt lo)
  have "unat (drop_bit 4 b * 16 + (b AND 15)) = unat b"
    using unat_u8_less [of b] by (simp add: unat_word_ariths hi lo mod_simps)
  then show "drop_bit 4 b * 16 + (b AND 15) = b" by (rule unsigned_word_eqI)
qed

lemma u8_from_byte_hex:
  "u8_from_hex2 (hex_digit (drop_bit 4 b)) (hex_digit (b AND 15)) = Some b"
  using hex_digit_facts [OF nibbles(1), of b] hex_digit_facts [OF nibbles(2), of b]
  by (simp add: u8_from_hex2_def nibbles(3))

lemma is_char_boundary_ascii:
  "\<forall>c \<in> set s. c AND 0xC0 \<noteq> 0x80 \<Longrightarrow> i \<le> length s \<Longrightarrow> is_char_boundary s i"
  by (auto simp: is_char_boundary_def)

lemma from_str_loop_hex:
  assumes "\<forall>c \<in> set s. c AND 0xC0 \<noteq> 0x80" "i + 2 * length bs \<le> length s"
  shows "from_str_loop s i (concat (map byte_hex bs)) = Some (Inr bs)"
  using assms(2)
proof (induction bs arbitrary: i)
  case (Cons b bs)
  then have "is_char_boundary s i" "is_char_boundary s (i + 2)"
    using is_char_boundary_ascii [OF assms(1)] by simp_all
  with Cons show ?case by (simp add: byte_hex_def u8_from_byte_hex)
qed simp

lemma length_concat_byte_hex: "length (concat (map byte_hex bs)) = 2 * length bs"
  by (induction bs) (simp_all add: byte_hex_def)

lemma byte_hex_ascii: "\<forall>c \<in> set (concat (map byte_hex bs)). c AND 0xC0 \<noteq> 0x80"
  using hex_digit_facts(3) nibbles(1,2) by (auto simp: byte_hex_def)

section \<open>BEP 42 prefixes\<close>

lemma push_bit_29_low_three:
  "push_bit 29 (ucast r :: u32) = push_bit 29 (ucast (r AND 7 :: u8))"
proof (rule bit_word_eqI)
  fix n :: nat
  assume "n < LENGTH(32)"
  then have "bit (7 :: u8) (n - 29)" if "29 \<le> n"
  proof -
    have "n - 29 \<in> {0, 1, 2}" using \<open>n < LENGTH(32)\<close> that by auto
    then show ?thesis by (auto simp: bit_numeral_rec)
  qed
  then show "bit (push_bit 29 (ucast r :: u32)) n = bit (push_bit 29 (ucast (r AND 7) :: u32)) n"
    by (auto simp: bit_simps)
qed

lemma id_prefix_ipv4_low_three: "id_prefix_ipv4 crc ip r = id_prefix_ipv4 crc ip (r AND 7)"
  unfolding id_prefix_ipv4_def Let_def using push_bit_29_low_three [of r] by simp

lemma length_id_prefix_ipv4 [simp]: "length (id_prefix_ipv4 crc ip r) = 3"
  by (simp add: id_prefix_ipv4_def Let_def)

lemma prefix_merge: "((p AND 0xf8) OR (x AND 7)) AND 0xf8 = p AND (0xf8 :: u8)"
  by (simp add: word_ao_dist and.assoc)

lemma as_bytes_from_ipv4_and_r:
  assumes "length bs = 20"
  shows "as_bytes (from_ipv4_and_r crc bs ip r) =
     (let p = id_prefix_ipv4 crc ip r
      in bs[0 := p ! 0, 1 := p ! 1, 2 := (p ! 2 AND 0xf8) OR (bs ! 2 AND 7), 19 := r])"
  using assms by (simp add: from_ipv4_and_r_def Let_def as_bytes_id_of const_facts)

abbreviation exempt :: "u32 \<Rightarrow> bool" where
  "exempt ip \<equiv> is_private ip \<or> is_link_local ip \<or> is_loopback ip"

lemma valid_first_21_bits:
  assumes "is_valid_for_ip crc a ip" "\<not> exempt ip"
  shows "id_first_21_bits a \<in> (\<lambda>r. first_21_bits (id_prefix_ipv4 crc ip r)) ` {0, 1, 2, 3, 4, 5, 6, 7}"
proof -
  let ?r = "as_bytes a ! 19 AND 7"
  have "id_first_21_bits a = first_21_bits (id_prefix_ipv4 crc ip ?r)"
    using assms id_prefix_ipv4_low_three [of crc ip "as_bytes a ! 19"]
    by (simp add: is_valid_for_ip_def id_first_21_bits_def const_facts)
  moreover have "?r = take_bit 3 (as_bytes a ! 19)" by (simp add: take_bit_eq_mask mask_numeral)
  then have "unat ?r < 8" by (simp add: take_bit_eq_mod unat_mod_distrib)
  then have "?r \<in> {0, 1, 2, 3, 4, 5, 6, 7}" by (drule_tac u8_below) (simp only: u8_octal list.set)
  ultimately show ?thesis by blast
qed

section \<open>Main properties\<close>

text \<open>\<open>Id::distance\<close> never underflows, is at most 160, is 0 exactly for equal ids, and otherwise
  is the bit length of the XOR distance read as a big-endian number, so that ids at distance \<open>d\<close>
  are those of the Kademlia bucket \<open>[2^(d-1), 2^d)\<close>.\<close>

theorem id_distance_bit_length:
  "id_leading_zeros (id_xor a b) \<le> MAX_DISTANCE \<and> id_distance a b \<le> 160 \<and>
   (if a = b then id_distance a b = 0
    else 0 < id_distance a b \<and> 2 ^ (id_distance a b - 1) \<le> id_nat (id_xor a b) \<and>
         id_nat (id_xor a b) < 2 ^ id_distance a b)"
  using id_distance_bounds [of a b] id_leading_zeros_le [of "id_xor a b"]
  by (auto simp: id_distance_le const_facts)

text \<open>Parsing the hexadecimal form that \<open>Display\<close> prints gives the id back.\<close>

theorem id_from_str_to_string: "id_from_str (id_to_string a) = Some (Inr a)"
proof -
  have len: "length (id_to_string a) = 40" by (simp add: id_to_string_def length_concat_byte_hex)
  have "from_str_loop (id_to_string a) 0 (id_to_string a) = Some (Inr (as_bytes a))"
    using from_str_loop_hex [of "id_to_string a" 0 "as_bytes a"] len
    by (simp add: id_to_string_def byte_hex_ascii [unfolded set_concat])
  with len show ?thesis by (simp add: id_from_str_def from_bytes_def const_facts)
qed

text \<open>An id generated for an IPv4 address by \<open>Id::from_ipv4\<close> is valid for that address, whatever
  the random bytes and the checksum function are.\<close>

lemma from_ipv4_valid: "is_valid_for_ip crc (fst (from_ipv4 crc ip rnd)) ip"
proof -
  let ?bs = "drop 1 (rng_take 21 rnd)" and ?r = "rng_take 21 rnd ! 0"
  let ?a = "from_ipv4_and_r crc ?bs ip ?r" and ?p = "id_prefix_ipv4 crc ip ?r"
  have "first_21_bits (as_bytes ?a) = first_21_bits ?p" and "as_bytes ?a ! 19 = ?r"
    by (simp_all add: as_bytes_from_ipv4_and_r first_21_bits_def Let_def prefix_merge nth_list_update)
  then show ?thesis by (simp add: from_ipv4_def is_valid_for_ip_def Let_def const_facts)
qed

text \<open>\<open>Id::from_str\<close> panics, instead of returning a \<open>DecodeIdError\<close>, on a string of even length
  whose two-byte slices split a multi-byte character: here the four bytes of \<open>a\<close>, e-acute, \<open>a\<close>.\<close>

theorem id_from_str_panics: "id_from_str [0x61, 0xC3, 0xA9, 0x61] = None"
  by (simp add: id_from_str_def is_char_boundary_def)

end
