(* ===== verification/Node_Entry.thy ===== *)
theory Node_Entry
  imports Ident "HOL-Library.Multiset"
begin

unbundle bit_operations_syntax

text \<open>
  Node entries, from \<^verbatim>\<open>src/src/common/node.rs\<close>: id, address, storage token and the instant of the
  last sighting, with the age predicates and the admission rule \<open>already_exists\<close> that limits how
  many nodes of one IP address a table holds. The locale \<open>ip_guarded\<close> states the contract that the
  containers of nodes keep, and proves from it the bound on nodes per address once for all of them.
\<close>

section \<open>Data\<close>

record sock_addr =
  sa_ip :: u32
  sa_port :: u16

definition sock_addr_new :: "u32 \<Rightarrow> u16 \<Rightarrow> sock_addr" where
  "sock_addr_new a p = \<lparr>sa_ip = a, sa_port = p\<rparr>"

definition STALE_TIME :: duration where
  "STALE_TIME = from_secs (15 * 60)"

definition MIN_PING_BACKOFF_INTERVAL :: duration where
  "MIN_PING_BACKOFF_INTERVAL = from_secs 10"

definition TOKEN_ROTATE_INTERVAL :: duration where
  "TOKEN_ROTATE_INTERVAL = from_secs (60 * 5)"

declare STALE_TIME_def [const_facts] MIN_PING_BACKOFF_INTERVAL_def [const_facts]
  TOKEN_ROTATE_INTERVAL_def [const_facts]

record node =
  node_id :: id
  node_address :: sock_addr
  node_token :: "bytes option"
  last_seen :: instant

section \<open>Operations\<close>

definition node_new :: "instant \<Rightarrow> id \<Rightarrow> sock_addr \<Rightarrow> node" where
  "node_new now a addr = \<lparr>node_id = a, node_address = addr, node_token = None, last_seen = now\<rparr>"

definition node_new_with_token :: "instant \<Rightarrow> id \<Rightarrow> sock_addr \<Rightarrow> bytes \<Rightarrow> node" where
  "node_new_with_token now a addr tok =
     \<lparr>node_id = a, node_address = addr, node_token = Some tok, last_seen = now\<rparr>"

definition node_random :: "instant \<Rightarrow> rng \<Rightarrow> node \<times> rng" where
  "node_random now r =
     (let (a, r') = id_random r
      in (\<lparr>node_id = a, node_address = sock_addr_new 0 0, node_token = None, last_seen = now\<rparr>, r'))"

definition is_stale :: "instant \<Rightarrow> node \<Rightarrow> bool" where
  "is_stale now n \<longleftrightarrow> elapsed now (last_seen n) > STALE_TIME"

definition valid_token :: "instant \<Rightarrow> node \<Rightarrow> bool" where
  "valid_token now n \<longleftrightarrow> elapsed now (last_seen n) \<le> TOKEN_ROTATE_INTERVAL"

definition should_ping :: "instant \<Rightarrow> node \<Rightarrow> bool" where
  "should_ping now n \<longleftrightarrow> elapsed now (last_seen n) > MIN_PING_BACKOFF_INTERVAL"

definition same_address :: "node \<Rightarrow> node \<Rightarrow> bool" where
  "same_address n m \<longleftrightarrow> node_address n = node_address m"

definition same_ip :: "node \<Rightarrow> node \<Rightarrow> bool" where
  "same_ip n m \<longleftrightarrow> sa_ip (node_address n) = sa_ip (node_address m)"

definition is_secure :: "crc32c \<Rightarrow> node \<Rightarrow> bool" where
  "is_secure crc n \<longleftrightarrow> is_valid_for_ip crc (node_id n) (sa_ip (node_address n))"

definition already_exists :: "crc32c \<Rightarrow> node \<Rightarrow> node list \<Rightarrow> bool" where
  "already_exists crc n nodes \<longleftrightarrow>
     list_ex (\<lambda>existing. same_ip n existing \<and>
        (\<not> is_secure crc existing \<or> id_first_21_bits (node_id n) = id_first_21_bits (node_id existing)))
       nodes"

section \<open>Nodes of one address\<close>

text \<open>What admission guarantees of two entries: entries of one address are not both insecure, and they
  differ in the first 21 bits of their ids.\<close>

definition compatible :: "crc32c \<Rightarrow> node \<Rightarrow> node \<Rightarrow> bool" where
  "compatible crc a b \<longleftrightarrow>
     (same_ip a b \<longrightarrow>
        (is_secure crc a \<or> is_secure crc b) \<and>
        id_first_21_bits (node_id a) \<noteq> id_first_21_bits (node_id b))"

lemma compatible_sym: "compatible crc a b \<Longrightarrow> compatible crc b a"
  by (auto simp: compatible_def same_ip_def)

lemma not_already_exists_compatible:
  "\<not> already_exists crc n nodes \<Longrightarrow> m \<in> set nodes \<Longrightarrow> compatible crc n m"
  by (auto simp: already_exists_def compatible_def list_ex_iff)

lemma already_exists_mono: "already_exists crc n xs \<Longrightarrow> set xs \<subseteq> set ys \<Longrightarrow> already_exists crc n ys"
  by (auto simp: already_exists_def list_ex_iff)

lemma already_exists_append [simp]:
  "already_exists crc n (xs @ ys) \<longleftrightarrow> already_exists crc n xs \<or> already_exists crc n ys"
  by (simp add: already_exists_def)

text \<open>An entry with the id and the address of an existing one always exists already.\<close>

lemma already_exists_same_id_ip:
  "m \<in> set nodes \<Longrightarrow> node_id m = node_id n \<Longrightarrow> same_ip n m \<Longrightarrow> already_exists crc n nodes"
  by (auto simp: already_exists_def list_ex_iff)

text \<open>A symmetric relation holds pairwise of a list independently of the order of the list.\<close>

lemma sorted_wrt_sym_perm:
  assumes sym: "\<And>a b. P a b \<Longrightarrow> P b a" and "mset xs = mset ys" "sorted_wrt P xs"
  shows "sorted_wrt P ys"
  using assms(2,3)
proof (induction ys arbitrary: xs)
  case (Cons y ys)
  then have "y \<in> set xs" by (metis list.set_intros(1) set_mset_mset)
  then obtain as bs where xs: "xs = as @ y # bs" by (meson split_list)
  with Cons.prems have "mset (as @ bs) = mset ys" "sorted_wrt P (as @ bs)"
    by (auto simp: sorted_wrt_append)
  then have "sorted_wrt P ys" by (rule Cons.IH)
  moreover have "P y z" if "z \<in> set ys" for z
  proof -
    have "z \<in> set as \<union> set bs"
      using that \<open>mset (as @ bs) = mset ys\<close> by (metis set_append set_mset_mset)
    then show ?thesis using Cons.prems(2) sym by (auto simp: xs sorted_wrt_append)
  qed
  ultimately show ?case by simp
qed simp

lemma sorted_wrt_sym_submset:
  assumes "\<And>a b. P a b \<Longrightarrow> P b a" "sorted_wrt P xs" "mset ys \<subseteq># mset xs"
  shows "sorted_wrt P ys"
proof -
  obtain zs where "mset zs = mset xs - mset ys" using ex_mset by blast
  then have "mset xs = mset (ys @ zs)" using assms(3) by simp
  then have "sorted_wrt P (ys @ zs)" using sorted_wrt_sym_perm [of P xs] assms(1,2) by blast
  then show ?thesis by (simp add: sorted_wrt_append)
qed

definition ip_guard :: "crc32c \<Rightarrow> node list \<Rightarrow> bool" where
  "ip_guard crc nodes \<longleftrightarrow> sorted_wrt (compatible crc) nodes"

lemma ip_guard_Nil [simp]: "ip_guard crc []"
  by (simp add: ip_guard_def)

lemma ip_guard_submset: "ip_guard crc xs \<Longrightarrow> mset ys \<subseteq># mset xs \<Longrightarrow> ip_guard crc ys"
  unfolding ip_guard_def by (rule sorted_wrt_sym_submset [OF compatible_sym])

lemma ip_guard_Cons:
  "ip_guard crc xs \<Longrightarrow> \<not> already_exists crc n xs \<Longrightarrow> ip_guard crc (n # xs)"
  unfolding ip_guard_def using not_already_exists_compatible by auto

text \<open>The nodes of one address: at most one insecure one, at most eight secure ones when the address
  is not exempt from BEP 42.\<close>

lemma ip_guard_secure_le_8:
  assumes "ip_guard crc nodes" "\<not> exempt a"
  shows "length (filter (\<lambda>n. sa_ip (node_address n) = a \<and> is_secure crc n) nodes) \<le> 8"
proof -
  let ?xs = "filter (\<lambda>n. sa_ip (node_address n) = a \<and> is_secure crc n) nodes"
  let ?f = "\<lambda>n. id_first_21_bits (node_id n)"
  define P where "P = (\<lambda>r. first_21_bits (id_prefix_ipv4 crc a r)) ` {0, 1, 2, 3, 4, 5, 6, 7}"
  have in_P: "?f n \<in> P" if "sa_ip (node_address n) = a" "is_secure crc n" for n
    unfolding P_def using that assms(2) by (intro valid_first_21_bits) (simp_all add: is_secure_def)
  have fin: "finite P" unfolding P_def by (rule finite_imageI) (simp only: finite.emptyI finite_insert)
  have card8: "card (set [0, 1, 2, 3, 4, 5, 6, 7 :: u8]) \<le> 8"
    using card_length [of "[0, 1, 2, 3, 4, 5, 6, 7 :: u8]"] by (simp only: list.size)
  have "ip_guard crc ?xs" using assms(1) by (rule ip_guard_submset) simp
  then have "distinct (map ?f ?xs)"
    unfolding distinct_map_sorted_wrt_neq ip_guard_def
  proof (rule sorted_wrt_mono_rel [rotated])
    fix x y assume "x \<in> set ?xs" "y \<in> set ?xs" "compatible crc x y"
    then show "?f x \<noteq> ?f y" by (simp add: compatible_def same_ip_def)
  qed
  then have len: "length ?xs = card (set (map ?f ?xs))" by (simp only: distinct_card length_map)
  have "set (map ?f ?xs) \<subseteq> P" unfolding set_map set_filter using in_P by blast
  then have "card (set (map ?f ?xs)) \<le> card P" by (rule card_mono [OF fin])
  also have "\<dots> \<le> card {0, 1, 2, 3, 4, 5, 6, 7 :: u8}" 
    unfolding P_def by (rule card_image_le) (simp only: finite.emptyI finite_insert)
  also have "\<dots> \<le> 8" using card8 by (simp only: list.set)
  finally show ?thesis unfolding len .
qed

lemma ip_guard_insecure_le_1:
  assumes "ip_guard crc nodes"
  shows "length (filter (\<lambda>n. sa_ip (node_address n) = a \<and> \<not> is_secure crc n) nodes) \<le> 1"
proof (rule ccontr)
  let ?xs = "filter (\<lambda>n. sa_ip (node_address n) = a \<and> \<not> is_secure crc n) nodes"
  assume "\<not> length ?xs \<le> 1"
  then obtain x y zs where xs: "?xs = x # y # zs"
    by (cases ?xs rule: remdups_adj.cases) auto
  have "x \<in> set ?xs" "y \<in> set ?xs" unfolding xs by auto
  then have "same_ip x y" "\<not> is_secure crc x" "\<not> is_secure crc y" by (auto simp: same_ip_def)
  moreover have "ip_guard crc (x # y # zs)"
    using assms unfolding xs [symmetric] by (rule ip_guard_submset) simp
  ultimately show False by (simp add: ip_guard_def compatible_def)
qed

lemma length_filter_split:
  "length (filter P xs) = length (filter (\<lambda>x. P x \<and> Q x) xs) + length (filter (\<lambda>x. P x \<and> \<not> Q x) xs)"
  by (induction xs) auto

lemma ip_guard_le_9:
  assumes "ip_guard crc nodes" "\<not> exempt a"
  shows "length (filter (\<lambda>n. sa_ip (node_address n) = a) nodes) \<le> 9"
  using ip_guard_secure_le_8 [OF assms] ip_guard_insecure_le_1 [OF assms(1), of a]
    length_filter_split [of "\<lambda>n. sa_ip (node_address n) = a" nodes "is_secure crc"] by linarith

section \<open>Containers that admit nodes by the rule\<close>

text \<open>
  The contract of a container of nodes: the entries it lists after an \<open>add\<close> are among the old ones
  and, only when the admission rule accepts it, the new one; other operations only remove entries.
\<close>

locale ip_guarded =
  fixes crc :: crc32c
    and entries :: "'s \<Rightarrow> node list"
    and add :: "instant \<Rightarrow> 's \<Rightarrow> node \<Rightarrow> 's"
  assumes add_admits: "already_exists crc n (entries s) \<Longrightarrow> mset (entries (add now s n)) \<subseteq># mset (entries s)"
    and add_one: "mset (entries (add now s n)) \<subseteq># add_mset n (mset (entries s))"
begin

lemma add_guard: "ip_guard crc (entries s) \<Longrightarrow> ip_guard crc (entries (add now s n))"
proof (cases "already_exists crc n (entries s)")
  case True
  assume "ip_guard crc (entries s)"
  then show ?thesis using add_admits [OF True] by (rule ip_guard_submset)
next
  case False
  assume "ip_guard crc (entries s)"
  then have "ip_guard crc (n # entries s)" using False by (rule ip_guard_Cons)
  then show ?thesis by (rule ip_guard_submset) (simp add: add_one)
qed

lemma adds_guard:
  "ip_guard crc (entries s) \<Longrightarrow> ip_guard crc (entries (foldl (\<lambda>s (now, n). add now s n) s ns))"
  by (induction ns arbitrary: s) (auto simp: add_guard)

lemma adds_per_ip:
  "ip_guard crc (entries s) \<Longrightarrow> \<not> exempt a \<Longrightarrow>
     length (filter (\<lambda>n. sa_ip (node_address n) = a)
       (entries (foldl (\<lambda>s (now, n). add now s n) s ns))) \<le> 9"
  by (rule ip_guard_le_9 [OF adds_guard])

end

end
