(* ===== verification/Items.thy ===== *)
theory Items
  imports Ident "HOL-Library.Product_Lexorder"
begin

text \<open>
  Immutable and mutable items, from \<^verbatim>\<open>src/src/common/immutable.rs\<close> and \<^verbatim>\<open>src/src/common/mutable.rs\<close>. The hash function (crate
  \<open>sha1_smol\<close>) and the signature scheme (crate \<open>ed25519_dalek\<close>) are a record of functions that the
  operations take as an argument. The theorems show that the signed text determines the sequence
  number, the value and the salt, that an accepted item is verified and belongs to its target, that an
  item signed by its owner is accepted, and that folding \<open>most_recent_mutable_item\<close> finds the greatest item.
\<close>

section \<open>Third-party functions\<close>

text \<open>
  \<open>Sha1::digest().bytes()\<close> is an array of 20 bytes, that is an \<^typ>\<open>id\<close>. \<open>VerifyingKey::try_from\<close> accepts the
  encodings that \<open>valid_key\<close> describes, all of 32 bytes; \<open>Signature::from_slice\<close> accepts exactly the slices of 64 bytes; both keep the
  bytes they were made of. A \<open>SigningKey\<close> is its 32 bytes seed.
\<close>

record crypto =
  sha1 :: "bytes \<Rightarrow> id"
  valid_key :: "bytes \<Rightarrow> bool"
  verify :: "bytes \<Rightarrow> bytes \<Rightarrow> bytes \<Rightarrow> bool"
  verifying_key :: "bytes \<Rightarrow> bytes"
  sign :: "bytes \<Rightarrow> bytes \<Rightarrow> bytes"

text \<open>What the signature scheme documents: the key of a signer is valid, a signature has 64 bytes, and
  the signer's key verifies what the signer signed.\<close>

definition signs_correctly :: "crypto \<Rightarrow> bytes \<Rightarrow> bool" where
  "signs_correctly cr sk \<longleftrightarrow>
     valid_key cr (verifying_key cr sk) \<and>
     (\<forall>msg. length (sign cr sk msg) = 64 \<and> verify cr (verifying_key cr sk) msg (sign cr sk msg))"

section \<open>Immutable items\<close>

definition hash_immutable :: "crypto \<Rightarrow> bytes \<Rightarrow> id" where
  "hash_immutable cr v = sha1 cr (show_nat (length v) @ ascii '':'' @ v)"

definition validate_immutable :: "crypto \<Rightarrow> bytes \<Rightarrow> id \<Rightarrow> bool" where
  "validate_immutable cr v target \<longleftrightarrow> as_bytes (hash_immutable cr v) = as_bytes target"

section \<open>Mutable items\<close>

record mutable_item =
  mi_target :: id
  mi_key :: bytes
  mi_seq :: i64
  mi_value :: bytes
  mi_signature :: bytes
  mi_salt :: "bytes option"

datatype mutable_error = InvalidMutableSignature | InvalidMutablePublicKey | InvalidMutableTarget

definition encode_signable :: "i64 \<Rightarrow> bytes \<Rightarrow> bytes option \<Rightarrow> bytes" where
  "encode_signable seq val salt =
     (case salt of Some s \<Rightarrow> ascii ''4:salt'' @ show_nat (length s) @ ascii '':'' @ s | None \<Rightarrow> []) @
     ascii ''3:seqi'' @ show_int seq @ ascii ''e1:v'' @ show_nat (length val) @ ascii '':'' @ val"

definition target_from_key :: "crypto \<Rightarrow> bytes \<Rightarrow> bytes option \<Rightarrow> id" where
  "target_from_key cr key salt =
     sha1 cr (key @ (case salt of Some s \<Rightarrow> s | None \<Rightarrow> []))"

definition new_signed_unchecked :: "crypto \<Rightarrow> bytes \<Rightarrow> bytes \<Rightarrow> bytes \<Rightarrow> i64 \<Rightarrow> bytes option \<Rightarrow> mutable_item" where
  "new_signed_unchecked cr key sig val seq salt =
     \<lparr>mi_target = target_from_key cr key salt, mi_key = key, mi_seq = seq, mi_value = val,
      mi_signature = sig, mi_salt = salt\<rparr>"

definition mutable_item_new :: "crypto \<Rightarrow> bytes \<Rightarrow> bytes \<Rightarrow> i64 \<Rightarrow> bytes option \<Rightarrow> mutable_item" where
  "mutable_item_new cr signer val seq salt =
     (let signable = encode_signable seq val salt; signature = sign cr signer signable
      in new_signed_unchecked cr (verifying_key cr signer) signature val seq salt)"

definition from_dht_message ::
  "crypto \<Rightarrow> id \<Rightarrow> bytes \<Rightarrow> bytes \<Rightarrow> i64 \<Rightarrow> bytes \<Rightarrow> bytes option \<Rightarrow> mutable_error + mutable_item" where
  "from_dht_message cr target key v seq signature salt =
     (if \<not> (length key = 32 \<and> valid_key cr key) then Inl InvalidMutablePublicKey
      else if length signature \<noteq> 64 then Inl InvalidMutableSignature
      else if \<not> verify cr key (encode_signable seq v salt) signature then Inl InvalidMutableSignature
      else if target_from_key cr key salt \<noteq> target then Inl InvalidMutableTarget
      else Inr \<lparr>mi_target = target, mi_key = key, mi_seq = seq, mi_value = v, mi_signature = signature, mi_salt = salt\<rparr>)"

definition most_recent_mutable_item :: "mutable_item option \<Rightarrow> mutable_item \<Rightarrow> mutable_item option" where
  "most_recent_mutable_item most_recent item =
     (case most_recent of
        Some mr \<Rightarrow>
          if mi_seq mr > mi_seq item \<or> (mi_seq mr = mi_seq item \<and> mi_value mr \<ge> mi_value item)
          then Some mr else Some item
      | None \<Rightarrow> Some item)"

record put_mutable_args =
  pm_target :: id
  pm_v :: bytes
  pm_k :: bytes
  pm_seq :: i64
  pm_sig :: bytes
  pm_salt :: "bytes option"
  pm_cas :: "i64 option"

definition put_mutable_args_from :: "mutable_item \<Rightarrow> i64 option \<Rightarrow> put_mutable_args" where
  "put_mutable_args_from item cas =
     \<lparr>pm_target = mi_target item, pm_v = mi_value item, pm_k = mi_key item, pm_seq = mi_seq item,
      pm_sig = mi_signature item, pm_salt = mi_salt item, pm_cas = cas\<rparr>"

section \<open>The signed text\<close>

lemma ascii_simps [simp]: "ascii [] = []" "ascii (c # s) = of_nat (of_char c) # ascii s"
  by (simp_all add: ascii_def)

lemma show_nat_colon:
  assumes "show_nat (length xs) @ ascii '':'' @ xs @ us = show_nat (length ys) @ ascii '':'' @ ys @ vs"
  shows "xs = ys \<and> us = vs"
proof -
  have "show_nat (length xs) = show_nat (length ys) \<and> (58 :: u8) = 58 \<and> xs @ us = ys @ vs"
    using assms by (intro split_at_first [OF show_nat_digits show_nat_digits]) (simp_all add: is_digit_def)
  then show ?thesis by (metis append_eq_append_conv show_nat_inject)
qed

definition is_int_char :: "u8 \<Rightarrow> bool" where
  "is_int_char b \<longleftrightarrow> is_digit b \<or> b = 45"

lemma show_int_chars: "list_all is_int_char (show_int i)"
  using show_nat_digits by (auto simp: show_int_def is_int_char_def list_all_iff)

lemma show_nat_no_minus: "show_nat n \<noteq> 45 # bs"
  using show_nat_digits [of n] by (auto simp: is_digit_def)

lemma show_int_inject [simp]: "show_int i = show_int j \<longleftrightarrow> i = j"
  using show_nat_no_minus show_nat_no_minus [THEN not_sym] by (auto simp: show_int_def)

lemma show_int_e:
  assumes "show_int i @ ascii ''e'' @ us = show_int j @ ascii ''e'' @ vs"
  shows "i = j \<and> us = vs"
proof -
  have "show_int i = show_int j \<and> (101 :: u8) = 101 \<and> us = vs"
    using assms by (intro split_at_first [OF show_int_chars show_int_chars]) (simp_all add: is_int_char_def is_digit_def)
  then show ?thesis by simp
qed

lemma encode_signable_tail:
  assumes "ascii ''3:seqi'' @ show_int seq @ ascii ''e1:v'' @ show_nat (length val) @ ascii '':'' @ val =
    ascii ''3:seqi'' @ show_int seq' @ ascii ''e1:v'' @ show_nat (length val') @ ascii '':'' @ val'"
  shows "seq = seq' \<and> val = val'"
proof -
  have "seq = seq' \<and> ascii ''1:v'' @ show_nat (length val) @ ascii '':'' @ val =
      ascii ''1:v'' @ show_nat (length val') @ ascii '':'' @ val'"
    using assms by (intro show_int_e) simp
  then show ?thesis using show_nat_colon [of val "[]" val' "[]"] by simp
qed

lemma encode_signable_parts:
  assumes "encode_signable seq val salt = encode_signable seq' val' salt'"
  shows "seq = seq' \<and> val = val' \<and> salt = salt'"
proof (cases salt)
  case None
  then show ?thesis
    using assms encode_signable_tail [of seq val seq' val'] by (cases salt') (simp_all add: encode_signable_def)
next
  case (Some s)
  then obtain s' where s': "salt' = Some s'" using assms by (cases salt') (simp_all add: encode_signable_def)
  let ?tail = "\<lambda>seq val. ascii ''3:seqi'' @ show_int seq @ ascii ''e1:v'' @ show_nat (length val) @ ascii '':'' @ val"
  have "s = s' \<and> ?tail seq val = ?tail seq' val'"
    using assms by (intro show_nat_colon) (simp add: encode_signable_def Some s')
  then show ?thesis using encode_signable_tail Some s' by blast
qed

section \<open>Folding the most recent item\<close>

definition recency :: "mutable_item \<Rightarrow> i64 \<times> bytes" where
  "recency item = (mi_seq item, mi_value item)"

lemma most_recent_recency:
  "most_recent_mutable_item (Some mr) item = (if recency item \<le> recency mr then Some mr else Some item)"
  by (auto simp: most_recent_mutable_item_def recency_def)

lemma most_recent_fold:
  "\<exists>r. foldl most_recent_mutable_item (Some mr) items = Some r \<and> r \<in> insert mr (set items) \<and>
     (\<forall>i \<in> insert mr (set items). recency i \<le> recency r)"
proof (induction items arbitrary: mr)
  case (Cons item items)
  show ?case
  proof (cases "recency item \<le> recency mr")
    case True
    then show ?thesis using Cons.IH [of mr] by (fastforce simp: most_recent_recency)
  next
    case False
    then show ?thesis using Cons.IH [of item] by (fastforce simp: most_recent_recency)
  qed
qed simp

section \<open>Main properties\<close>

text \<open>The text that a mutable item's signature covers determines the sequence number, the value
  and the salt, so no signature can be reused for another item of the same key.\<close>

theorem encode_signable_injective:
  "encode_signable seq val salt = encode_signable seq' val' salt' \<longleftrightarrow> seq = seq' \<and> val = val' \<and> salt = salt'"
  using encode_signable_parts by blast

text \<open>A mutable item accepted from the network is one whose key is valid, whose signature of 64
  bytes verifies for its sequence number, value and salt, and whose target is the hash of its key and
  salt; every other message is rejected with the error of the first check that fails.\<close>

theorem from_dht_message_accepts:
  "from_dht_message cr target key v seq signature salt = Inr item \<longleftrightarrow>
     length key = 32 \<and> valid_key cr key \<and> length signature = 64 \<and>
     verify cr key (encode_signable seq v salt) signature \<and> target = target_from_key cr key salt \<and>
     item = new_signed_unchecked cr key signature v seq salt"
  by (auto simp: from_dht_message_def new_signed_unchecked_def)

lemma mutable_item_accepted:
  "signs_correctly cr sk \<Longrightarrow> length (verifying_key cr sk) = 32 \<Longrightarrow>
     (let item = mutable_item_new cr sk val seq salt; args = put_mutable_args_from item cas
      in from_dht_message cr (pm_target args) (pm_k args) (pm_v args) (pm_seq args) (pm_sig args) (pm_salt args) = Inr item)"
  by (simp add: from_dht_message_def mutable_item_new_def new_signed_unchecked_def put_mutable_args_from_def signs_correctly_def)

text \<open>An item made by \<open>MutableItem::new\<close> and sent as the arguments of a put request is accepted
  by a node that receives these arguments, and gives the item back.\<close>

theorem mutable_item_roundtrip:
  assumes "signs_correctly cr sk" "length (verifying_key cr sk) = 32"
  shows "let item = mutable_item_new cr sk val seq salt; args = put_mutable_args_from item cas
    in from_dht_message cr (pm_target args) (pm_k args) (pm_v args) (pm_seq args) (pm_sig args) (pm_salt args) = Inr item"
  using assms by (rule mutable_item_accepted)

definition wit_crypto :: crypto where
  "wit_crypto = \<lparr>sha1 = (\<lambda>bs. id_of (take 20 (bs @ replicate 20 0))), valid_key = (\<lambda>k. length k = 32),
     verify = (\<lambda>k msg sig. sig = replicate 64 (of_nat (length msg))), verifying_key = (\<lambda>sk. replicate 32 (hd sk)),
     sign = (\<lambda>sk msg. replicate 64 (of_nat (length msg)))\<rparr>"

lemma wit_crypto_ok: "signs_correctly wit_crypto sk" "length (verifying_key wit_crypto sk) = 32"
  by (simp_all add: signs_correctly_def wit_crypto_def)

theorem mutable_item_roundtrip_witness:
  "let item = mutable_item_new wit_crypto [7] [1, 2] 3 None; args = put_mutable_args_from item (Some 2)
   in from_dht_message wit_crypto (pm_target args) (pm_k args) (pm_v args) (pm_seq args) (pm_sig args) (pm_salt args) = Inr item"
  by (rule mutable_item_roundtrip [OF wit_crypto_ok])

text \<open>Folding \<open>most_recent_mutable_item\<close> over the items of a query, as they arrive, finds one
  that is greatest by sequence number and then by value, whenever there is an item at all.\<close>

theorem most_recent_is_greatest:
  assumes "items \<noteq> []"
  shows "\<exists>r \<in> set items. foldl most_recent_mutable_item None items = Some r \<and>
    (\<forall>i \<in> set items. mi_seq i < mi_seq r \<or> mi_seq i = mi_seq r \<and> mi_value i \<le> mi_value r)"
proof -
  obtain i js where items: "items = i # js" using assms by (cases items) auto
  have "most_recent_mutable_item None i = Some i" by (simp add: most_recent_mutable_item_def)
  then obtain r where r: "foldl most_recent_mutable_item None items = Some r" "r \<in> set items"
      "\<forall>i \<in> set items. recency i \<le> recency r"
    using most_recent_fold [of i js] by (auto simp: items)
  have "mi_seq i < mi_seq r \<or> mi_seq i = mi_seq r \<and> mi_value i \<le> mi_value r" if "i \<in> set items" for i
    using r(3) that by (auto simp: recency_def dest!: bspec [of _ _ i])
  then show ?thesis using r(1,2) by blast
qed

theorem most_recent_is_greatest_witness:
  "\<exists>r \<in> set [mutable_item_new wit_crypto [7] [1] 3 None, mutable_item_new wit_crypto [7] [2] 4 None].
     foldl most_recent_mutable_item None
       [mutable_item_new wit_crypto [7] [1] 3 None, mutable_item_new wit_crypto [7] [2] 4 None] = Some r"
  using most_recent_is_greatest
    [of "[mutable_item_new wit_crypto [7] [1] 3 None, mutable_item_new wit_crypto [7] [2] 4 None]"] by blast

end

