(* ===== verification/Messages.thy ===== *)
theory Messages
  imports Node_Entry Items
begin

text \<open>
  The messages of the protocol, from \<^verbatim>\<open>src/src/common/messages.rs\<close>, and their serialised form, from
  \<^verbatim>\<open>src/src/common/messages/internal.rs\<close>: every struct is a record and every enum a datatype. Arrays of a fixed length are byte
  strings; a \<open>String\<close> is its UTF-8 bytes. The conversions are in theory \<open>Message_Codec\<close>.
\<close>

section \<open>Messages\<close>

record error_specific =
  err_code :: i32
  err_description :: bytes

record ping_response_args =
  png_responder_id :: id

record find_node_request_args =
  fnq_target :: id

record find_node_response_args =
  fnr_responder_id :: id
  fnr_nodes :: "node list"

record get_value_request_args =
  gvq_target :: id
  gvq_seq :: "i64 option"
  gvq_salt :: "bytes option"

record no_values_response_args =
  nvr_responder_id :: id
  nvr_token :: bytes
  nvr_nodes :: "node list option"

record get_peers_request_args =
  gpq_info_hash :: id

record get_peers_response_args =
  gpr_responder_id :: id
  gpr_token :: bytes
  gpr_values :: "sock_addr list"
  gpr_nodes :: "node list option"

record announce_peer_args =
  ap_info_hash :: id
  ap_port :: u16
  ap_implied_port :: "bool option"

record get_immutable_response_args =
  gir_responder_id :: id
  gir_token :: bytes
  gir_nodes :: "node list option"
  gir_v :: bytes

record get_mutable_response_args =
  gmr_responder_id :: id
  gmr_token :: bytes
  gmr_nodes :: "node list option"
  gmr_v :: bytes
  gmr_k :: bytes
  gmr_seq :: i64
  gmr_sig :: bytes

record no_more_recent_args =
  nmr_responder_id :: id
  nmr_token :: bytes
  nmr_nodes :: "node list option"
  nmr_seq :: i64

record put_immutable_args =
  pi_target :: id
  pi_v :: bytes

datatype put_request_specific =
    AnnouncePeer announce_peer_args
  | PutImmutable put_immutable_args
  | PutMutable put_mutable_args

record put_request =
  put_token :: bytes
  put_request_type :: put_request_specific

datatype request_type_specific =
    PingRequest
  | FindNodeRequest find_node_request_args
  | GetPeersRequest get_peers_request_args
  | GetValueRequest get_value_request_args
  | PutRequestOf put_request

record request_specific =
  requester_id :: id
  request_type :: request_type_specific

datatype response_specific =
    PingResponse ping_response_args
  | FindNodeResponse find_node_response_args
  | GetPeersResponse get_peers_response_args
  | GetImmutableResponse get_immutable_response_args
  | GetMutableResponse get_mutable_response_args
  | NoValuesResponse no_values_response_args
  | NoMoreRecentResponse no_more_recent_args

datatype message_type =
    Request request_specific
  | Response response_specific
  | ErrorMessage error_specific

record message =
  transaction_id :: u32
  version :: "bytes option"
  requester_ip :: "sock_addr option"
  message_type :: message_type
  read_only :: bool

fun put_target :: "put_request_specific \<Rightarrow> id" where
  "put_target (AnnouncePeer a) = ap_info_hash a"
| "put_target (PutMutable a) = pm_target a"
| "put_target (PutImmutable a) = pi_target a"

section \<open>Serialised messages\<close>

record d_ping_request = dpq_id :: bytes

record d_ping_response = dpr_id :: bytes

record d_find_node_request =
  dfq_id :: bytes
  dfq_target :: bytes

record d_find_node_response =
  dfr_id :: bytes
  dfr_nodes :: bytes

record d_no_values_response =
  dnv_id :: bytes
  dnv_token :: bytes
  dnv_nodes :: "bytes option"

record d_get_peers_request =
  dgq_id :: bytes
  dgq_info_hash :: bytes

record d_get_peers_response =
  dgr_id :: bytes
  dgr_token :: bytes
  dgr_nodes :: "bytes option"
  dgr_values :: "bytes list"

record d_announce_peer_request =
  dap_id :: bytes
  dap_info_hash :: bytes
  dap_port :: u16
  dap_token :: bytes
  dap_implied_port :: "u8 option"

record d_get_value_request =
  dvq_id :: bytes
  dvq_target :: bytes
  dvq_seq :: "i64 option"

record d_get_immutable_response =
  dgi_id :: bytes
  dgi_token :: bytes
  dgi_nodes :: "bytes option"
  dgi_v :: bytes

record d_no_more_recent_response =
  dnm_id :: bytes
  dnm_token :: bytes
  dnm_nodes :: "bytes option"
  dnm_seq :: i64

record d_get_mutable_response =
  dgm_id :: bytes
  dgm_token :: bytes
  dgm_nodes :: "bytes option"
  dgm_v :: bytes
  dgm_k :: bytes
  dgm_sig :: bytes
  dgm_seq :: i64

record d_put_value_request =
  dpv_id :: bytes
  dpv_target :: bytes
  dpv_token :: bytes
  dpv_v :: bytes
  dpv_k :: "bytes option"
  dpv_sig :: "bytes option"
  dpv_seq :: "i64 option"
  dpv_cas :: "i64 option"
  dpv_salt :: "bytes option"

record d_error_specific = error_info :: "i32 \<times> bytes"

datatype d_request_specific =
    DPingRequest d_ping_request
  | DFindNodeRequest d_find_node_request
  | DGetPeersRequest d_get_peers_request
  | DAnnouncePeerRequest d_announce_peer_request
  | DGetValueRequest d_get_value_request
  | DPutValueRequest d_put_value_request

datatype d_response_specific =
    DGetMutable d_get_mutable_response
  | DNoMoreRecent d_no_more_recent_response
  | DGetImmutable d_get_immutable_response
  | DGetPeers d_get_peers_response
  | DNoValues d_no_values_response
  | DFindNode d_find_node_response
  | DPing d_ping_response

datatype d_message_variant =
    DRequest d_request_specific
  | DResponse d_response_specific
  | DError d_error_specific

record dht_message =
  d_transaction_id :: bytes
  d_version :: "bytes option"
  d_variant :: d_message_variant
  d_ip :: "bytes option"
  d_read_only :: "i32 option"

end
