(* ===== verification/Message_Codec.thy ===== *)
theory Message_Codec
  imports Messages
begin

text \<open>
  The conversions between messages and their serialised form, from \<^verbatim>\<open>src/src/common/messages.rs\<close>, branch by branch, with
  compact addresses, nodes and peers. The bencode codec (crate \<open>serde_bencode\<close>) is a pair of functions
  that \<open>to_bytes\<close> and \<open>from_bytes\<close> take as an argument. The theorems show what a message looks like after
  a round trip, which messages come back unchanged, and the round trips of addresses and nodes.
\<close>

section \<open>Compact addresses, nodes and peers\<close>

datatype 'be decode_message_error =
    TooShort
  | NotBencodeDictionary
  | InvalidNodes4
  | InvalidPortEncoding
  | Ipv6Unsupported
  | InvalidSocketAddrEncodingLength
  | MissingMutableSequence
  | MissingMutableSignature
  | UnexpectedMutableFieldsInImmutablePut
  | BencodeError 'be
  | DecodeInvalidIdSize invalid_id_size

definition bytes_to_sockaddr :: "bytes \<Rightarrow> 'be decode_message_error + sock_addr" where
  "bytes_to_sockaddr bs =
     (if length bs = 6
      then Inr (sock_addr_new (u32_from_be_bytes (bs ! 0) (bs ! 1) (bs ! 2) (bs ! 3)) (u16_from_be_bytes (bs ! 4) (bs ! 5)))
      else if length bs = 18 then Inl Ipv6Unsupported
      else Inl InvalidSocketAddrEncodingLength)"

definition sockaddr_to_bytes :: "sock_addr \<Rightarrow> bytes" where
  "sockaddr_to_bytes a = u32_to_be_bytes (sa_ip a) @ u16_to_be_bytes (sa_port a)"

definition NODE_BYTE_SIZE :: nat where
  "NODE_BYTE_SIZE = ID_SIZE + 6"

definition nodes4_to_bytes :: "node list \<Rightarrow> bytes" where
  "nodes4_to_bytes nodes = concat (map (\<lambda>n. as_bytes (node_id n) @ sockaddr_to_bytes (node_address n)) nodes)"

definition id_from_bytes :: "bytes \<Rightarrow> 'be decode_message_error + id" where
  "id_from_bytes bs = map_err DecodeInvalidIdSize (from_bytes bs)"

definition bytes_to_nodes4 :: "instant \<Rightarrow> bytes \<Rightarrow> 'be decode_message_error + node list" where
  "bytes_to_nodes4 now bs =
     (if length bs mod NODE_BYTE_SIZE \<noteq> 0 then Inl InvalidNodes4
      else traverse (\<lambda>k. let i = k * NODE_BYTE_SIZE
               in bindE (id_from_bytes (take ID_SIZE (drop i bs)))
                    (\<lambda>a. bindE (bytes_to_sockaddr (take (NODE_BYTE_SIZE - ID_SIZE) (drop (i + ID_SIZE) bs)))
                      (\<lambda>sockaddr. Inr (node_new now a sockaddr))))
             [0..<length bs div NODE_BYTE_SIZE])"

definition peers_to_bytes :: "sock_addr list \<Rightarrow> bytes list" where
  "peers_to_bytes peers = map sockaddr_to_bytes peers"

definition bytes_to_peers :: "bytes list \<Rightarrow> 'be decode_message_error + sock_addr list" where
  "bytes_to_peers bs = traverse bytes_to_sockaddr bs"

section \<open>Into the serialised form\<close>

fun request_into_serde :: "id \<Rightarrow> request_type_specific \<Rightarrow> d_request_specific" where
  "request_into_serde rid PingRequest = DPingRequest \<lparr>dpq_id = as_bytes rid\<rparr>"
| "request_into_serde rid (FindNodeRequest a) =
     DFindNodeRequest \<lparr>dfq_id = as_bytes rid, dfq_target = as_bytes (fnq_target a)\<rparr>"
| "request_into_serde rid (GetPeersRequest a) =
     DGetPeersRequest \<lparr>dgq_id = as_bytes rid, dgq_info_hash = as_bytes (gpq_info_hash a)\<rparr>"
| "request_into_serde rid (GetValueRequest a) =
     DGetValueRequest \<lparr>dvq_id = as_bytes rid, dvq_target = as_bytes (gvq_target a), dvq_seq = gvq_seq a\<rparr>"
| "request_into_serde rid (PutRequestOf p) =
     (case put_request_type p of
        AnnouncePeer a \<Rightarrow>
          DAnnouncePeerRequest
            \<lparr>dap_id = as_bytes rid, dap_info_hash = as_bytes (ap_info_hash a), dap_port = ap_port a,
             dap_token = put_token p,
             dap_implied_port = (if ap_implied_port a \<noteq> None then Some 1 else Some 0)\<rparr>
      | PutImmutable a \<Rightarrow>
          DPutValueRequest
            \<lparr>dpv_id = as_bytes rid, dpv_target = as_bytes (pi_target a), dpv_token = put_token p, dpv_v = pi_v a,
             dpv_k = None, dpv_sig = None, dpv_seq = None, dpv_cas = None, dpv_salt = None\<rparr>
      | PutMutable a \<Rightarrow>
          DPutValueRequest
            \<lparr>dpv_id = as_bytes rid, dpv_target = as_bytes (pm_target a), dpv_token = put_token p, dpv_v = pm_v a,
             dpv_k = Some (pm_k a), dpv_sig = Some (pm_sig a), dpv_seq = Some (pm_seq a), dpv_cas = pm_cas a,
             dpv_salt = pm_salt a\<rparr>)"

fun response_into_serde :: "response_specific \<Rightarrow> d_response_specific" where
  "response_into_serde (PingResponse a) = DPing \<lparr>dpr_id = as_bytes (png_responder_id a)\<rparr>"
| "response_into_serde (FindNodeResponse a) =
     DFindNode \<lparr>dfr_id = as_bytes (fnr_responder_id a), dfr_nodes = nodes4_to_bytes (fnr_nodes a)\<rparr>"
| "response_into_serde (GetPeersResponse a) =
     DGetPeers \<lparr>dgr_id = as_bytes (gpr_responder_id a), dgr_token = gpr_token a,
       dgr_nodes = map_option nodes4_to_bytes (gpr_nodes a), dgr_values = peers_to_bytes (gpr_values a)\<rparr>"
| "response_into_serde (NoValuesResponse a) =
     DNoValues \<lparr>dnv_id = as_bytes (nvr_responder_id a), dnv_token = nvr_token a,
       dnv_nodes = map_option nodes4_to_bytes (nvr_nodes a)\<rparr>"
| "response_into_serde (GetImmutableResponse a) =
     DGetImmutable \<lparr>dgi_id = as_bytes (gir_responder_id a), dgi_token = gir_token a,
       dgi_nodes = map_option nodes4_to_bytes (gir_nodes a), dgi_v = gir_v a\<rparr>"
| "response_into_serde (GetMutableResponse a) =
     DGetMutable \<lparr>dgm_id = as_bytes (gmr_responder_id a), dgm_token = gmr_token a,
       dgm_nodes = map_option nodes4_to_bytes (gmr_nodes a), dgm_v = gmr_v a, dgm_k = gmr_k a,
       dgm_sig = gmr_sig a, dgm_seq = gmr_seq a\<rparr>"
| "response_into_serde (NoMoreRecentResponse a) =
     DNoMoreRecent \<lparr>dnm_id = as_bytes (nmr_responder_id a), dnm_token = nmr_token a,
       dnm_nodes = map_option nodes4_to_bytes (nmr_nodes a), dnm_seq = nmr_seq a\<rparr>"

definition into_serde_message :: "message \<Rightarrow> dht_message" where
  "into_serde_message m =
     \<lparr>d_transaction_id = u32_to_be_bytes (transaction_id m),
      d_version = version m,
      d_variant = (case message_type m of
          Request r \<Rightarrow> DRequest (request_into_serde (requester_id r) (request_type r))
        | Response r \<Rightarrow> DResponse (response_into_serde r)
        | ErrorMessage e \<Rightarrow> DError \<lparr>error_info = (err_code e, err_description e)\<rparr>),
      d_ip = map_option sockaddr_to_bytes (requester_ip m),
      d_read_only = (if read_only m then Some 1 else Some 0)\<rparr>"

section \<open>From the serialised form\<close>

definition request_of :: "id \<Rightarrow> request_type_specific \<Rightarrow> request_specific" where
  "request_of a t = \<lparr>requester_id = a, request_type = t\<rparr>"

definition put_of :: "bytes \<Rightarrow> put_request_specific \<Rightarrow> request_type_specific" where
  "put_of tok t = PutRequestOf \<lparr>put_token = tok, put_request_type = t\<rparr>"

definition put_value_from_serde :: "d_put_value_request \<Rightarrow> 'be decode_message_error + request_specific" where
  "put_value_from_serde a =
     (case dpv_k a of
        Some k \<Rightarrow>
          bindE (id_from_bytes (dpv_id a)) (\<lambda>rid.
          bindE (id_from_bytes (dpv_target a)) (\<lambda>target.
          bindE (ok_or (dpv_seq a) MissingMutableSequence) (\<lambda>seq.
          bindE (ok_or (dpv_sig a) MissingMutableSignature) (\<lambda>sig.
            Inr (request_of rid (put_of (dpv_token a) (PutMutable
              \<lparr>pm_target = target, pm_v = dpv_v a, pm_k = k, pm_seq = seq, pm_sig = sig, pm_salt = dpv_salt a,
               pm_cas = dpv_cas a\<rparr>)))))))
      | None \<Rightarrow>
          if dpv_seq a \<noteq> None \<or> dpv_sig a \<noteq> None \<or> dpv_salt a \<noteq> None \<or> dpv_cas a \<noteq> None
          then Inl UnexpectedMutableFieldsInImmutablePut
          else bindE (id_from_bytes (dpv_id a)) (\<lambda>rid.
               bindE (id_from_bytes (dpv_target a)) (\<lambda>target.
                 Inr (request_of rid (put_of (dpv_token a) (PutImmutable \<lparr>pi_target = target, pi_v = dpv_v a\<rparr>))))))"

fun request_from_serde :: "d_request_specific \<Rightarrow> 'be decode_message_error + request_specific" where
  "request_from_serde (DPingRequest a) =
     bindE (id_from_bytes (dpq_id a)) (\<lambda>rid. Inr (request_of rid PingRequest))"
| "request_from_serde (DFindNodeRequest a) =
     bindE (id_from_bytes (dfq_id a)) (\<lambda>rid.
     bindE (id_from_bytes (dfq_target a)) (\<lambda>t. Inr (request_of rid (FindNodeRequest \<lparr>fnq_target = t\<rparr>))))"
| "request_from_serde (DGetPeersRequest a) =
     bindE (id_from_bytes (dgq_id a)) (\<lambda>rid.
     bindE (id_from_bytes (dgq_info_hash a)) (\<lambda>t. Inr (request_of rid (GetPeersRequest \<lparr>gpq_info_hash = t\<rparr>))))"
| "request_from_serde (DGetValueRequest a) =
     bindE (id_from_bytes (dvq_id a)) (\<lambda>rid.
     bindE (id_from_bytes (dvq_target a)) (\<lambda>t.
       Inr (request_of rid (GetValueRequest \<lparr>gvq_target = t, gvq_seq = dvq_seq a, gvq_salt = None\<rparr>))))"
| "request_from_serde (DAnnouncePeerRequest a) =
     bindE (id_from_bytes (dap_id a)) (\<lambda>rid.
       Inr (request_of rid (put_of (dap_token a) (AnnouncePeer
         \<lparr>ap_info_hash = id_of (dap_info_hash a), ap_port = dap_port a,
          ap_implied_port = map_option (\<lambda>p. p \<noteq> 0) (dap_implied_port a)\<rparr>))))"
| "request_from_serde (DPutValueRequest a) = put_value_from_serde a"

definition nodes_from_serde :: "instant \<Rightarrow> bytes option \<Rightarrow> 'be decode_message_error + node list option" where
  "nodes_from_serde now nodes =
     (case nodes of Some bs \<Rightarrow> bindE (bytes_to_nodes4 now bs) (\<lambda>ns. Inr (Some ns)) | None \<Rightarrow> Inr None)"

fun response_from_serde :: "instant \<Rightarrow> d_response_specific \<Rightarrow> 'be decode_message_error + response_specific" where
  "response_from_serde now (DPing a) =
     bindE (id_from_bytes (dpr_id a)) (\<lambda>rid. Inr (PingResponse \<lparr>png_responder_id = rid\<rparr>))"
| "response_from_serde now (DFindNode a) =
     bindE (id_from_bytes (dfr_id a)) (\<lambda>rid.
     bindE (bytes_to_nodes4 now (dfr_nodes a)) (\<lambda>ns.
       Inr (FindNodeResponse \<lparr>fnr_responder_id = rid, fnr_nodes = ns\<rparr>)))"
| "response_from_serde now (DGetPeers a) =
     bindE (id_from_bytes (dgr_id a)) (\<lambda>rid.
     bindE (nodes_from_serde now (dgr_nodes a)) (\<lambda>ns.
     bindE (bytes_to_peers (dgr_values a)) (\<lambda>vs.
       Inr (GetPeersResponse \<lparr>gpr_responder_id = rid, gpr_token = dgr_token a, gpr_values = vs, gpr_nodes = ns\<rparr>))))"
| "response_from_serde now (DNoValues a) =
     bindE (id_from_bytes (dnv_id a)) (\<lambda>rid.
     bindE (nodes_from_serde now (dnv_nodes a)) (\<lambda>ns.
       Inr (NoValuesResponse \<lparr>nvr_responder_id = rid, nvr_token = dnv_token a, nvr_nodes = ns\<rparr>)))"
| "response_from_serde now (DGetImmutable a) =
     bindE (id_from_bytes (dgi_id a)) (\<lambda>rid.
     bindE (nodes_from_serde now (dgi_nodes a)) (\<lambda>ns.
       Inr (GetImmutableResponse \<lparr>gir_responder_id = rid, gir_token = dgi_token a, gir_nodes = ns, gir_v = dgi_v a\<rparr>)))"
| "response_from_serde now (DGetMutable a) =
     bindE (id_from_bytes (dgm_id a)) (\<lambda>rid.
     bindE (nodes_from_serde now (dgm_nodes a)) (\<lambda>ns.
       Inr (GetMutableResponse \<lparr>gmr_responder_id = rid, gmr_token = dgm_token a, gmr_nodes = ns, gmr_v = dgm_v a,
         gmr_k = dgm_k a, gmr_seq = dgm_seq a, gmr_sig = dgm_sig a\<rparr>)))"
| "response_from_serde now (DNoMoreRecent a) =
     bindE (id_from_bytes (dnm_id a)) (\<lambda>rid.
     bindE (nodes_from_serde now (dnm_nodes a)) (\<lambda>ns.
       Inr (NoMoreRecentResponse \<lparr>nmr_responder_id = rid, nmr_token = dnm_token a, nmr_nodes = ns, nmr_seq = dnm_seq a\<rparr>)))"

fun variant_from_serde :: "instant \<Rightarrow> d_message_variant \<Rightarrow> 'be decode_message_error + message_type" where
  "variant_from_serde now (DRequest r) = bindE (request_from_serde r) (\<lambda>q. Inr (Request q))"
| "variant_from_serde now (DResponse r) = bindE (response_from_serde now r) (\<lambda>q. Inr (Response q))"
| "variant_from_serde now (DError e) =
     Inr (ErrorMessage \<lparr>err_code = fst (error_info e), err_description = snd (error_info e)\<rparr>)"

definition from_serde_message :: "instant \<Rightarrow> dht_message \<Rightarrow> 'be decode_message_error + message" where
  "from_serde_message now msg =
     bindE (case d_ip msg of Some ip \<Rightarrow> bindE (bytes_to_sockaddr ip) (\<lambda>a. Inr (Some a)) | None \<Rightarrow> Inr None) (\<lambda>ip.
     bindE (variant_from_serde now (d_variant msg)) (\<lambda>t.
       Inr \<lparr>transaction_id = (let t = d_transaction_id msg in u32_from_be_bytes (t ! 0) (t ! 1) (t ! 2) (t ! 3)),
            version = d_version msg, requester_ip = ip,
            message_type = t,
            read_only = (case d_read_only msg of Some ro \<Rightarrow> 0 < ro | None \<Rightarrow> False)\<rparr>))"

section \<open>Bytes\<close>

record 'be bencode =
  bencode_to_bytes :: "dht_message \<Rightarrow> 'be + bytes"
  bencode_from_bytes :: "bytes \<Rightarrow> 'be + dht_message"

definition message_to_bytes :: "'be bencode \<Rightarrow> message \<Rightarrow> 'be + bytes" where
  "message_to_bytes be m = bencode_to_bytes be (into_serde_message m)"

definition message_from_bytes :: "'be bencode \<Rightarrow> instant \<Rightarrow> bytes \<Rightarrow> 'be decode_message_error + message" where
  "message_from_bytes be now bs =
     (if length bs < 15 then Inl TooShort
      else if bs ! 0 \<noteq> 100 then Inl NotBencodeDictionary
      else bindE (map_err BencodeError (bencode_from_bytes be bs)) (from_serde_message now))"

section \<open>Parts of a message\<close>

fun responder_id :: "response_specific \<Rightarrow> id" where
  "responder_id (PingResponse a) = png_responder_id a"
| "responder_id (FindNodeResponse a) = fnr_responder_id a"
| "responder_id (GetPeersResponse a) = gpr_responder_id a"
| "responder_id (GetImmutableResponse a) = gir_responder_id a"
| "responder_id (GetMutableResponse a) = gmr_responder_id a"
| "responder_id (NoValuesResponse a) = nvr_responder_id a"
| "responder_id (NoMoreRecentResponse a) = nmr_responder_id a"

definition get_author_id :: "message \<Rightarrow> id option" where
  "get_author_id m =
     (case message_type m of
        Request r \<Rightarrow> Some (requester_id r)
      | Response r \<Rightarrow> Some (responder_id r)
      | ErrorMessage _ \<Rightarrow> None)"

fun response_nodes :: "response_specific \<Rightarrow> node list option" where
  "response_nodes (PingResponse a) = None"
| "response_nodes (FindNodeResponse a) = Some (fnr_nodes a)"
| "response_nodes (GetPeersResponse a) = gpr_nodes a"
| "response_nodes (GetMutableResponse a) = gmr_nodes a"
| "response_nodes (GetImmutableResponse a) = gir_nodes a"
| "response_nodes (NoValuesResponse a) = nvr_nodes a"
| "response_nodes (NoMoreRecentResponse a) = nmr_nodes a"

definition get_closer_nodes :: "message \<Rightarrow> node list option" where
  "get_closer_nodes m = (case message_type m of Response r \<Rightarrow> response_nodes r | _ \<Rightarrow> None)"

fun response_token :: "response_specific \<Rightarrow> (id \<times> bytes) option" where
  "response_token (PingResponse a) = None"
| "response_token (FindNodeResponse a) = None"
| "response_token (GetPeersResponse a) = Some (gpr_responder_id a, gpr_token a)"
| "response_token (GetImmutableResponse a) = Some (gir_responder_id a, gir_token a)"
| "response_token (GetMutableResponse a) = Some (gmr_responder_id a, gmr_token a)"
| "response_token (NoValuesResponse a) = Some (nvr_responder_id a, nvr_token a)"
| "response_token (NoMoreRecentResponse a) = Some (nmr_responder_id a, nmr_token a)"

definition get_token :: "message \<Rightarrow> (id \<times> bytes) option" where
  "get_token m = (case message_type m of Response r \<Rightarrow> response_token r | _ \<Rightarrow> None)"

section \<open>Round trips of the parts\<close>

lemma length_sockaddr_to_bytes [simp]: "length (sockaddr_to_bytes a) = 6"
  by (simp add: sockaddr_to_bytes_def)

lemma sockaddr_roundtrip [simp]: "bytes_to_sockaddr (sockaddr_to_bytes a) = Inr a"
  by (simp add: bytes_to_sockaddr_def)
    (simp add: sockaddr_to_bytes_def u32_to_be_bytes_def u16_to_be_bytes_def byte_facts sock_addr_new_def nth_append)

lemma list_6: "length bs = 6 \<longleftrightarrow> (\<exists>a b c d e f. bs = [a, b, c, d, e, f])"
  by (auto simp: length_Suc_conv eval_nat_numeral)

lemma sockaddr_decoded: "bytes_to_sockaddr bs = Inr a \<longleftrightarrow> bs = sockaddr_to_bytes a"
proof
  assume "bytes_to_sockaddr bs = Inr a"
  then obtain b0 b1 b2 b3 b4 b5 where "bs = [b0, b1, b2, b3, b4, b5]"
      "a = sock_addr_new (u32_from_be_bytes b0 b1 b2 b3) (u16_from_be_bytes b4 b5)"
    by (auto simp: bytes_to_sockaddr_def list_6 split: if_splits)
  then show "bs = sockaddr_to_bytes a" by (simp add: sockaddr_to_bytes_def sock_addr_new_def byte_facts)
qed simp

lemma id_from_bytes_as_bytes [simp]: "id_from_bytes (as_bytes a) = Inr a"
  by (simp add: id_from_bytes_def from_bytes_def ID_SIZE_def)

lemma id_from_bytes_Inr: "id_from_bytes bs = Inr a \<longleftrightarrow> bs = as_bytes a"
  by (auto simp: id_from_bytes_def from_bytes_def ID_SIZE_def as_bytes_id_of split: if_splits)

lemma node_byte_size: "NODE_BYTE_SIZE = 26"
  by (simp add: NODE_BYTE_SIZE_def ID_SIZE_def)

abbreviation node_bytes :: "node \<Rightarrow> bytes" where
  "node_bytes n \<equiv> as_bytes (node_id n) @ sockaddr_to_bytes (node_address n)"

lemma drop_concat_blocks:
  assumes "\<And>x. x \<in> set xs \<Longrightarrow> length (f x) = w" "k \<le> length xs"
  shows "drop (k * w) (concat (map f xs)) = concat (map f (drop k xs))"
  using assms
proof (induction xs arbitrary: k)
  case (Cons x xs)
  then show ?case by (cases k) (simp_all add: algebra_simps)
qed simp

lemma length_concat_blocks: "(\<And>x. x \<in> set xs \<Longrightarrow> length (f x) = w) \<Longrightarrow> length (concat (map f xs)) = length xs * w"
  by (induction xs) auto

definition fresh :: "instant \<Rightarrow> node \<Rightarrow> node" where
  "fresh now n = node_new now (node_id n) (node_address n)"

lemma nodes4_length: "length (nodes4_to_bytes ns) = length ns * 26"
  unfolding nodes4_to_bytes_def by (rule length_concat_blocks) simp

lemma nodes4_roundtrip: "bytes_to_nodes4 now (nodes4_to_bytes ns) = Inr (map (fresh now) ns)"
proof -
  let ?f = "\<lambda>k. let i = k * NODE_BYTE_SIZE
               in bindE (id_from_bytes (take ID_SIZE (drop i (nodes4_to_bytes ns))))
                    (\<lambda>a. bindE (bytes_to_sockaddr (take (NODE_BYTE_SIZE - ID_SIZE) (drop (i + ID_SIZE) (nodes4_to_bytes ns))))
                      (\<lambda>sockaddr. Inr (node_new now a sockaddr)))"
  have step: "?f k = Inr (fresh now (ns ! k))" if "k \<in> set [0..<length ns]" for k
  proof -
    have k: "k < length ns" using that by simp
    have "drop (k * 26) (nodes4_to_bytes ns) = concat (map node_bytes (drop k ns))"
      unfolding nodes4_to_bytes_def using k by (intro drop_concat_blocks) auto
    also have "drop k ns = ns ! k # drop (Suc k) ns" using k by (simp add: Cons_nth_drop_Suc)
    finally have d: "drop (k * 26) (nodes4_to_bytes ns) = node_bytes (ns ! k) @ concat (map node_bytes (drop (Suc k) ns))"
      by simp
    have "drop (k * 26 + 20) (nodes4_to_bytes ns) = drop 20 (drop (k * 26) (nodes4_to_bytes ns))" by (simp add: add.commute)
    then show ?thesis unfolding Let_def node_byte_size ID_SIZE_def by (simp add: d fresh_def)
  qed
  have "traverse ?f [0..<length ns] = Inr (map (\<lambda>k. fresh now (ns ! k)) [0..<length ns])"
    using step by (rule traverse_Inr)
  also have "map (\<lambda>k. fresh now (ns ! k)) [0..<length ns] = map (fresh now) ns"
    by (rule nth_equalityI) auto
  finally show ?thesis unfolding bytes_to_nodes4_def by (simp add: nodes4_length node_byte_size)
qed

lemma nodes_from_serde_roundtrip [simp]:
  "nodes_from_serde now (map_option nodes4_to_bytes ns) = Inr (map_option (map (fresh now)) ns)"
  by (cases ns) (simp_all add: nodes_from_serde_def nodes4_roundtrip)

lemma peers_roundtrip [simp]: "bytes_to_peers (peers_to_bytes ps) = Inr ps"
  unfolding bytes_to_peers_def peers_to_bytes_def
  by (induction ps) auto

section \<open>What survives the wire\<close>

text \<open>
  The message a receiver decodes: nodes are fresh entries with the time of decoding and no token, the
  salt of a get request is not sent, and the implied port flag says whether the option was present.
\<close>

fun put_view :: "put_request_specific \<Rightarrow> put_request_specific" where
  "put_view (AnnouncePeer a) = AnnouncePeer (a\<lparr>ap_implied_port := Some (ap_implied_port a \<noteq> None)\<rparr>)"
| "put_view p = p"

fun request_view :: "request_type_specific \<Rightarrow> request_type_specific" where
  "request_view (GetValueRequest a) = GetValueRequest (a\<lparr>gvq_salt := None\<rparr>)"
| "request_view (PutRequestOf p) = PutRequestOf (p\<lparr>put_request_type := put_view (put_request_type p)\<rparr>)"
| "request_view r = r"

fun response_view :: "instant \<Rightarrow> response_specific \<Rightarrow> response_specific" where
  "response_view now (PingResponse a) = PingResponse a"
| "response_view now (FindNodeResponse a) = FindNodeResponse (a\<lparr>fnr_nodes := map (fresh now) (fnr_nodes a)\<rparr>)"
| "response_view now (GetPeersResponse a) =
     GetPeersResponse (a\<lparr>gpr_nodes := map_option (map (fresh now)) (gpr_nodes a)\<rparr>)"
| "response_view now (GetImmutableResponse a) =
     GetImmutableResponse (a\<lparr>gir_nodes := map_option (map (fresh now)) (gir_nodes a)\<rparr>)"
| "response_view now (GetMutableResponse a) =
     GetMutableResponse (a\<lparr>gmr_nodes := map_option (map (fresh now)) (gmr_nodes a)\<rparr>)"
| "response_view now (NoValuesResponse a) =
     NoValuesResponse (a\<lparr>nvr_nodes := map_option (map (fresh now)) (nvr_nodes a)\<rparr>)"
| "response_view now (NoMoreRecentResponse a) =
     NoMoreRecentResponse (a\<lparr>nmr_nodes := map_option (map (fresh now)) (nmr_nodes a)\<rparr>)"

fun type_view :: "instant \<Rightarrow> message_type \<Rightarrow> message_type" where
  "type_view now (Request r) = Request (r\<lparr>request_type := request_view (request_type r)\<rparr>)"
| "type_view now (Response r) = Response (response_view now r)"
| "type_view now (ErrorMessage e) = ErrorMessage e"

definition wire_view :: "instant \<Rightarrow> message \<Rightarrow> message" where
  "wire_view now m = m\<lparr>message_type := type_view now (message_type m)\<rparr>"

lemma request_roundtrip:
  "request_from_serde (request_into_serde rid t) = Inr (request_of rid (request_view t))"
proof (cases t)
  case (PutRequestOf p)
  then show ?thesis
    by (cases "put_request_type p") (auto simp: put_value_from_serde_def put_of_def request_of_def)
qed (auto simp: request_of_def)

lemma response_roundtrip: "response_from_serde now (response_into_serde r) = Inr (response_view now r)"
  by (cases r) (auto simp: nodes4_roundtrip)

lemma u32_nth_roundtrip: "(let t = u32_to_be_bytes w in u32_from_be_bytes (t ! 0) (t ! 1) (t ! 2) (t ! 3)) = w"
  by (simp add: u32_to_be_bytes_def byte_facts)

lemma type_roundtrip:
  "variant_from_serde now (case t of
          Request r \<Rightarrow> DRequest (request_into_serde (requester_id r) (request_type r))
        | Response r \<Rightarrow> DResponse (response_into_serde r)
        | ErrorMessage e \<Rightarrow> DError \<lparr>error_info = (err_code e, err_description e)\<rparr>) = Inr (type_view now t)"
  by (cases t) (simp_all add: request_roundtrip response_roundtrip request_of_def)

lemma message_view: "from_serde_message now (into_serde_message m) = Inr (wire_view now m)"
  unfolding from_serde_message_def into_serde_message_def
  by (cases m; cases "requester_ip m")
    (simp_all add: type_roundtrip u32_nth_roundtrip [simplified] wire_view_def)

lemma nodes4_surj:
  "length bs = k * 26 \<Longrightarrow> \<exists>ns. nodes4_to_bytes ns = bs \<and> length ns = k"
proof (induction k arbitrary: bs)
  case (Suc k)
  obtain ns where ns: "nodes4_to_bytes ns = drop 26 bs" "length ns = k"
    using Suc.IH [of "drop 26 bs"] Suc.prems by auto
  have "length (take 6 (drop 20 bs)) = 6" using Suc.prems by simp
  then have "\<exists>a. bytes_to_sockaddr (take 6 (drop 20 bs)) = Inr a" by (simp only: bytes_to_sockaddr_def if_True simp_thms sum.inject)
  then obtain a where a: "sockaddr_to_bytes a = take 6 (drop 20 bs)" unfolding sockaddr_decoded by metis
  let ?n = "node_new 0 (id_of (take 20 bs)) a"
  have "node_bytes ?n = take 26 bs"
    using Suc.prems a take_add [of 20 6 bs] by (simp add: node_new_def as_bytes_id_of)
  then have "nodes4_to_bytes (?n # ns) = bs" using ns(1) by (simp add: nodes4_to_bytes_def)
  then show ?case using ns(2) by (metis length_Cons)
qed (simp add: nodes4_to_bytes_def)

section \<open>Main properties\<close>

text \<open>The documented behaviour of the codec: what it encodes starts a dictionary, is at least fifteen
  bytes long, and is decoded to the same value.\<close>

definition bencode_inverts :: "'be bencode \<Rightarrow> bool" where
  "bencode_inverts be \<longleftrightarrow>
     (\<forall>d bs. bencode_to_bytes be d = Inr bs \<longrightarrow>
        bencode_from_bytes be bs = Inr d \<and> 15 \<le> length bs \<and> bs ! 0 = 100)"

text \<open>C30: a message that is encoded and decoded again comes back as the message with fresh node
  entries, without the salt of a get request, and with the implied port flag set to whether it was
  present: nothing else of any kind of message is lost or changed.\<close>

theorem message_bytes_roundtrip:
  assumes "bencode_inverts be" "message_to_bytes be m = Inr bs"
  shows "message_from_bytes be now bs = Inr (wire_view now m)"
proof -
  have "bencode_from_bytes be bs = Inr (into_serde_message m) \<and> 15 \<le> length bs \<and> bs ! 0 = 100"
    using assms unfolding bencode_inverts_def message_to_bytes_def by blast
  then show ?thesis by (simp add: message_from_bytes_def message_view)
qed

definition wit_message :: message where
  "wit_message = \<lparr>transaction_id = 258, version = None, requester_ip = Some (sock_addr_new 0x0A000001 6881),
     message_type = Request \<lparr>requester_id = id_of [], request_type = PingRequest\<rparr>, read_only = True\<rparr>"

definition wit_bencode :: "unit bencode" where
  "wit_bencode = \<lparr>bencode_to_bytes = (\<lambda>d. if d = into_serde_message wit_message then Inr (100 # replicate 14 0) else Inl ()),
     bencode_from_bytes = (\<lambda>bs. Inr (into_serde_message wit_message))\<rparr>"

theorem message_bytes_roundtrip_witness:
  "message_from_bytes wit_bencode 5 (100 # replicate 14 0) = Inr (wire_view 5 wit_message)"
  by (rule message_bytes_roundtrip)
    (simp_all add: bencode_inverts_def wit_bencode_def message_to_bytes_def)

text \<open>Of a message that crossed the wire, the receiver sees the transaction, the version, the
  address, the read-only flag, the author and the token that were sent, and the ids and addresses of
  the closer nodes.\<close>

theorem wire_view_keeps:
  "transaction_id (wire_view now m) = transaction_id m \<and> version (wire_view now m) = version m \<and>
   requester_ip (wire_view now m) = requester_ip m \<and> read_only (wire_view now m) = read_only m \<and>
   get_author_id (wire_view now m) = get_author_id m \<and> get_token (wire_view now m) = get_token m \<and>
   map_option (map (\<lambda>n. (node_id n, node_address n))) (get_closer_nodes (wire_view now m)) =
     map_option (map (\<lambda>n. (node_id n, node_address n))) (get_closer_nodes m)"
proof -
  have parts: "node_id (fresh now n) = node_id n" "node_address (fresh now n) = node_address n" for n
    by (simp_all add: fresh_def node_new_def)
  have resp: "responder_id (response_view now r) = responder_id r \<and> response_token (response_view now r) = response_token r \<and>
      map_option (map (\<lambda>n. (node_id n, node_address n))) (response_nodes (response_view now r)) =
        map_option (map (\<lambda>n. (node_id n, node_address n))) (response_nodes r)" for r
    by (cases r) (simp_all add: parts option.map_comp comp_def)
  then show ?thesis
    by (cases "message_type m") (simp_all add: wire_view_def get_author_id_def get_token_def get_closer_nodes_def)
qed

text \<open>The compact node list decodes exactly when its length is a multiple of 26, and then
  re-encodes to the same bytes; any other length is \<open>InvalidNodes4\<close>.\<close>

theorem nodes4_decode:
  "if length bs mod 26 = 0
   then \<exists>ns. (bytes_to_nodes4 now bs :: 'be decode_message_error + node list) = Inr ns \<and>
          nodes4_to_bytes ns = bs \<and> length ns = length bs div 26 \<and>
          list_all (\<lambda>n. node_token n = None \<and> last_seen n = now) ns
   else (bytes_to_nodes4 now bs :: 'be decode_message_error + node list) = Inl InvalidNodes4"
proof (cases "length bs mod 26 = 0")
  case True
  then obtain ns where ns: "nodes4_to_bytes ns = bs" "length ns = length bs div 26"
    using nodes4_surj [of bs "length bs div 26"] by auto
  have "nodes4_to_bytes (map (fresh now) ns) = nodes4_to_bytes ns"
    by (simp add: nodes4_to_bytes_def fresh_def node_new_def comp_def)
  moreover have "(bytes_to_nodes4 now bs :: 'be decode_message_error + node list) = Inr (map (fresh now) ns)"
    unfolding ns(1) [symmetric] by (rule nodes4_roundtrip)
  moreover have "list_all (\<lambda>n. node_token n = None \<and> last_seen n = now) (map (fresh now) ns)"
    by (auto simp: list_all_iff fresh_def node_new_def)
  ultimately show ?thesis using ns True by auto
qed (simp add: bytes_to_nodes4_def node_byte_size)

text \<open>The implied port flag does not survive: a request without the flag arrives with the flag
  false, and one with the flag false arrives with the flag true, so the announced port is ignored.\<close>

theorem announce_implied_port_changes:
  "let decoded = (\<lambda>flag. from_serde_message now (into_serde_message (m
         \<lparr>message_type := Request \<lparr>requester_id = rid, request_type = PutRequestOf \<lparr>put_token = tok,
            put_request_type = AnnouncePeer \<lparr>ap_info_hash = h, ap_port = p, ap_implied_port = flag\<rparr>\<rparr>\<rparr>\<rparr>)));
       arrives = (\<lambda>flag. Inr (m
         \<lparr>message_type := Request \<lparr>requester_id = rid, request_type = PutRequestOf \<lparr>put_token = tok,
            put_request_type = AnnouncePeer \<lparr>ap_info_hash = h, ap_port = p, ap_implied_port = flag\<rparr>\<rparr>\<rparr>\<rparr>))
   in decoded None = arrives (Some False) \<and> decoded (Some False) = arrives (Some True)"
  by (simp add: message_view wire_view_def del: not_None_eq)

end
