(* ===== verification/Binary_Search.thy ===== *)
theory Binary_Search
  imports Mainline_Prelude
begin

text \<open>
  The standard library's \<open>slice::binary_search_by\<close> (Rust 1.85), which \<open>ClosestNodes::add\<close> calls. The
  search halves a window, keeps its left end unless the probe is not greater than the sought
  element, and inspects one last element. On a list whose probes read Less, then Equal, then
  Greater it finds an equal element or the insertion point; it always terminates.
\<close>

datatype ordering = Less | Equal | Greater

definition cmp :: "'a :: linorder \<Rightarrow> 'a \<Rightarrow> ordering" where
  "cmp a b = (if a < b then Less else if a = b then Equal else Greater)"

function bs_loop :: "('a \<Rightarrow> ordering) \<Rightarrow> 'a list \<Rightarrow> nat \<Rightarrow> nat \<Rightarrow> nat" where
  "bs_loop f xs sz base =
     (if 1 < sz then
        let half = sz div 2; mid = base + half
        in bs_loop f xs (sz - half) (if f (xs ! mid) = Greater then base else mid)
      else base)"
  by pat_completeness auto
termination
  by (relation "measure (\<lambda>(f, xs, sz, base). sz)") auto

declare bs_loop.simps [simp del]

text \<open>\<open>Inr i\<close> is \<open>Ok(i)\<close>, an equal element at \<open>i\<close>; \<open>Inl i\<close> is \<open>Err(i)\<close>, the insertion point \<open>i\<close>.\<close>

definition binary_search_by :: "('a \<Rightarrow> ordering) \<Rightarrow> 'a list \<Rightarrow> nat + nat" where
  "binary_search_by f xs =
     (if xs = [] then Inl 0
      else let base = bs_loop f xs (length xs) 0
           in case f (xs ! base) of
                Equal \<Rightarrow> Inr base
              | Less \<Rightarrow> Inl (base + 1)
              | Greater \<Rightarrow> Inl base)"

fun rank :: "ordering \<Rightarrow> nat" where
  "rank Less = 0" | "rank Equal = 1" | "rank Greater = 2"

definition partitioned :: "('a \<Rightarrow> ordering) \<Rightarrow> 'a list \<Rightarrow> bool" where
  "partitioned f xs \<longleftrightarrow> sorted_wrt (\<lambda>x y. rank (f x) \<le> rank (f y)) xs"

lemma rank_le_nth:
  "partitioned f xs \<Longrightarrow> i \<le> j \<Longrightarrow> j < length xs \<Longrightarrow> rank (f (xs ! i)) \<le> rank (f (xs ! j))"
  by (cases "i = j") (auto simp: partitioned_def sorted_wrt_iff_nth_less)

lemma not_greater_below:
  assumes "partitioned f xs" "f (xs ! j) \<noteq> Greater" "i \<le> j" "j < length xs"
  shows "f (xs ! i) \<noteq> Greater"
  using rank_le_nth [OF assms(1,3,4)] assms(2) by (cases "f (xs ! i)"; cases "f (xs ! j)") auto

lemma greater_above:
  assumes "partitioned f xs" "f (xs ! i) = Greater" "i \<le> j" "j < length xs"
  shows "f (xs ! j) = Greater"
  using not_greater_below [OF assms(1) _ assms(3,4)] assms(2) by blast

lemma less_below:
  assumes "partitioned f xs" "f (xs ! j) = Less" "i \<le> j" "j < length xs"
  shows "f (xs ! i) = Less"
  using rank_le_nth [OF assms(1,3,4)] assms(2) by (cases "f (xs ! i)") auto

lemma bs_loop_invariant:
  assumes "partitioned f xs" "1 \<le> sz" "base + sz \<le> length xs"
    and "base = 0 \<or> f (xs ! base) \<noteq> Greater"
    and "\<And>j. base + sz \<le> j \<Longrightarrow> j < length xs \<Longrightarrow> f (xs ! j) = Greater"
  shows "bs_loop f xs sz base < length xs \<and>
    (bs_loop f xs sz base = 0 \<or> f (xs ! bs_loop f xs sz base) \<noteq> Greater) \<and>
    (\<forall>j. bs_loop f xs sz base < j \<longrightarrow> j < length xs \<longrightarrow> f (xs ! j) = Greater)"
  using assms
proof (induction f xs sz base rule: bs_loop.induct)
  case (1 f xs sz base)
  show ?case
  proof (cases "1 < sz")
    case True
    let ?mid = "base + sz div 2" and ?s = "sz - sz div 2"
    let ?base = "if f (xs ! ?mid) = Greater then base else ?mid"
    have step: "bs_loop f xs sz base = bs_loop f xs ?s ?base"
      using True by (subst bs_loop.simps) (simp add: Let_def)
    have above: "f (xs ! j) = Greater" if "?base + ?s \<le> j" "j < length xs" for j
    proof (cases "f (xs ! ?mid) = Greater")
      case g: True
      have "?mid \<le> j" using that(1) g by simp
      then show ?thesis by (rule greater_above [OF "1.prems"(1) g _ that(2)])
    next
      case False
      then show ?thesis using that "1.prems"(5) True by auto
    qed
    have bounds: "1 \<le> ?s" "?base + ?s \<le> length xs" "?base = 0 \<or> f (xs ! ?base) \<noteq> Greater"
      using True "1.prems"(3,4) by auto
    show ?thesis
      unfolding step by (rule "1.IH" [OF True refl refl "1.prems"(1) bounds above])
  next
    case False
    then have eq: "bs_loop f xs sz base = base" by (subst bs_loop.simps) simp
    have "sz = 1" using False "1.prems"(2) by simp
    then show ?thesis unfolding eq using "1.prems"(3-5) by auto
  qed
qed

theorem binary_search_by_partitioned:
  assumes "partitioned f xs"
  shows "case binary_search_by f xs of
      Inr i \<Rightarrow> i < length xs \<and> f (xs ! i) = Equal
    | Inl i \<Rightarrow> i \<le> length xs \<and> (\<forall>x \<in> set (take i xs). f x = Less) \<and> (\<forall>x \<in> set (drop i xs). f x = Greater)"
proof (cases "xs = []")
  case False
  let ?b = "bs_loop f xs (length xs) 0"
  have b: "?b < length xs" "?b = 0 \<or> f (xs ! ?b) \<noteq> Greater"
    "\<And>j. ?b < j \<Longrightarrow> j < length xs \<Longrightarrow> f (xs ! j) = Greater"
    using bs_loop_invariant [OF assms, of "length xs" 0] False by (auto simp: Suc_le_eq)
  show ?thesis
  proof (cases "f (xs ! ?b)")
    case Less
    have "f x = Less" if "x \<in> set (take (Suc ?b) xs)" for x
      using that b(1) less_below [OF assms Less _ b(1)] by (auto simp: in_set_conv_nth)
    moreover have "f x = Greater" if "x \<in> set (drop (Suc ?b) xs)" for x
      using that b(3) by (auto simp: in_set_conv_nth)
    ultimately show ?thesis using False Less b(1) by (auto simp: binary_search_by_def Let_def Suc_le_eq)
  next
    case Equal
    then show ?thesis using False b(1) by (simp add: binary_search_by_def Let_def)
  next
    case Greater
    then have "?b = 0" using b(2) by simp
    moreover have "f x = Greater" if "x \<in> set xs" for x
      using that greater_above [OF assms Greater] \<open>?b = 0\<close> by (auto simp: in_set_conv_nth)
    ultimately show ?thesis using False Greater by (auto simp: binary_search_by_def Let_def)
  qed
qed (simp add: binary_search_by_def)

end
