(* ===== verification/Float64.thy ===== *)
theory Float64
  imports Complex_Main
begin

text \<open>
  The part of IEEE 754 binary64 arithmetic that the program's size estimates use: \<open>+\<close>, \<open>-\<close>, \<open>*\<close>, \<open>/\<close>
  and the casts between \<open>f64\<close> and unsigned integers. A finite value is a rational; every operation
  rounds its exact result to nearest, ties to even, with 53 bits of precision, gradual underflow and
  overflow to infinity. Zero has no sign: no modelled operation divides by a negative zero.
  Casts to unsigned integers truncate and saturate, and send NaN to 0.
\<close>

datatype f64 = Fin rat | PInf | NInf | NaN

function log2_int :: "int \<Rightarrow> int" where
  "log2_int n = (if n \<le> 1 then 0 else 1 + log2_int (n div 2))"
  by pat_completeness auto
termination
  by (relation "measure nat") auto

declare log2_int.simps [simp del]

text \<open>\<open>a / b\<close> scaled by \<open>2^(-e)\<close>, as a fraction of integers.\<close>

definition scale :: "int \<Rightarrow> int \<Rightarrow> int \<Rightarrow> int \<times> int" where
  "scale a b e = (if 0 \<le> e then (a, b * 2 ^ nat e) else (a * 2 ^ nat (- e), b))"

text \<open>The exponent \<open>e\<close> with \<open>2^e \<le> a / b < 2^(e+1)\<close>, for positive \<open>a\<close> and \<open>b\<close>.\<close>

definition exponent_of :: "int \<Rightarrow> int \<Rightarrow> int" where
  "exponent_of a b =
     (let e = log2_int a - log2_int b; (n, d) = scale a b e
      in if d \<le> n then e else e - 1)"

definition round_half_even :: "int \<Rightarrow> int \<Rightarrow> int" where
  "round_half_even n d =
     (let q = n div d; r = n mod d
      in if 2 * r < d then q else if d < 2 * r then q + 1 else if even q then q else q + 1)"

text \<open>
  Rounding: with the exponent \<open>e\<close> of the unit in the last place, at least \<open>-1074\<close>, the mantissa is
  at most \<open>2^53\<close>, so the rounded value reaches \<open>2^1024\<close> exactly when \<open>e > 971\<close>, or \<open>e = 971\<close> and
  the mantissa was rounded up to \<open>2^53\<close>.
\<close>

definition f64_value :: "int \<Rightarrow> int \<Rightarrow> rat" where
  "f64_value m e = (if 0 \<le> e then of_int (m * 2 ^ nat e) else Fract m (2 ^ nat (- e)))"

definition round_float :: "int \<Rightarrow> int \<Rightarrow> int \<Rightarrow> rat \<Rightarrow> f64" where
  "round_float bits e_min e_max r =
     (let (a, b) = quotient_of r
      in if a = 0 then Fin 0
         else let e = max (exponent_of \<bar>a\<bar> b - bits) e_min;
                  (n, d) = scale \<bar>a\<bar> b e;
                  m = round_half_even n d
              in if e_max < e \<or> (e = e_max \<and> m = 2 ^ nat (bits + 1)) then (if 0 < a then PInf else NInf)
                 else Fin (f64_value (if 0 < a then m else - m) e))"

definition round_f64 :: "rat \<Rightarrow> f64" where
  "round_f64 r = round_float 52 (- 1074) 971 r"

text \<open>Single precision: 23 stored mantissa bits and a smaller range of exponents.\<close>

definition round_f32 :: "rat \<Rightarrow> f64" where
  "round_f32 r = round_float 23 (- 149) 104 r"

fun f64_neg :: "f64 \<Rightarrow> f64" where
  "f64_neg (Fin a) = Fin (- a)" | "f64_neg PInf = NInf" | "f64_neg NInf = PInf" | "f64_neg NaN = NaN"

fun f64_add :: "f64 \<Rightarrow> f64 \<Rightarrow> f64" where
  "f64_add (Fin a) (Fin b) = round_f64 (a + b)"
| "f64_add NaN _ = NaN"
| "f64_add _ NaN = NaN"
| "f64_add PInf NInf = NaN"
| "f64_add NInf PInf = NaN"
| "f64_add PInf _ = PInf"
| "f64_add _ PInf = PInf"
| "f64_add NInf _ = NInf"
| "f64_add _ NInf = NInf"

definition f64_sub :: "f64 \<Rightarrow> f64 \<Rightarrow> f64" where
  "f64_sub x y = f64_add x (f64_neg y)"

definition f64_inf :: "bool \<Rightarrow> f64" where
  "f64_inf positive = (if positive then PInf else NInf)"

fun f64_sign :: "f64 \<Rightarrow> int" where
  "f64_sign (Fin a) = (if 0 < a then 1 else if a < 0 then -1 else 0)"
| "f64_sign PInf = 1" | "f64_sign NInf = -1" | "f64_sign NaN = 0"

fun f64_mul :: "f64 \<Rightarrow> f64 \<Rightarrow> f64" where
  "f64_mul (Fin a) (Fin b) = round_f64 (a * b)"
| "f64_mul x y =
     (if x = NaN \<or> y = NaN \<or> f64_sign x = 0 \<or> f64_sign y = 0 then NaN
      else f64_inf (f64_sign x = f64_sign y))"

fun f64_div :: "f64 \<Rightarrow> f64 \<Rightarrow> f64" where
  "f64_div (Fin a) (Fin b) =
     (if b \<noteq> 0 then round_f64 (a / b) else if a = 0 then NaN else f64_inf (0 < a))"
| "f64_div NaN _ = NaN"
| "f64_div _ NaN = NaN"
| "f64_div (Fin a) _ = Fin 0"
| "f64_div x (Fin b) = f64_inf (f64_sign x = (if b < 0 then -1 else 1))"
| "f64_div _ _ = NaN"

definition f64_of_nat :: "nat \<Rightarrow> f64" where
  "f64_of_nat n = round_f64 (of_nat n)"

text \<open>\<open>x as uN\<close> for an unsigned type whose largest value is \<open>hi\<close>.\<close>

definition f64_to_uint :: "nat \<Rightarrow> f64 \<Rightarrow> nat" where
  "f64_to_uint hi x =
     (case x of Fin r \<Rightarrow> min hi (nat \<lfloor>r\<rfloor>) | PInf \<Rightarrow> hi | NInf \<Rightarrow> 0 | NaN \<Rightarrow> 0)"

lemma f64_to_uint_le: "f64_to_uint hi x \<le> hi"
  by (simp add: f64_to_uint_def split: f64.split)

lemma f64_to_uint_specials [simp]:
  "f64_to_uint hi PInf = hi" "f64_to_uint hi NaN = 0" "f64_to_uint hi NInf = 0"
  by (simp_all add: f64_to_uint_def)

definition U128_MAX :: nat where
  "U128_MAX = 2 ^ 128 - 1"

definition USIZE_MAX :: nat where
  "USIZE_MAX = 2 ^ 64 - 1"

end
