(* ===== verification/Closest_Nodes.thy ===== *)
theory Closest_Nodes
  imports Node_Entry Binary_Search Float64 "HOL-Library.Product_Lexorder"
begin

unbundle bit_operations_syntax

text \<open>
  The candidate list of a lookup, from \<^verbatim>\<open>src/src/rpc/closest_nodes.rs\<close>: nodes ordered secure first and
  then by XOR distance to the target, inserted by binary search behind the admission rule. The
  theorems show that every insertion keeps the list strictly sorted and agrees with a linear sorted
  insertion, that the list obeys the bound on nodes per address, and what the truncations
  \<open>take_until_secure\<close> and \<open>subnets_count\<close> return.
\<close>

section \<open>Data and operations\<close>

definition MAX_BUCKET_SIZE_K :: nat where
  "MAX_BUCKET_SIZE_K = 20"

declare MAX_BUCKET_SIZE_K_def [const_facts]

record closest_nodes =
  cn_target :: id
  cn_nodes :: "node list"

definition closest_new :: "id \<Rightarrow> closest_nodes" where
  "closest_new t = \<lparr>cn_target = t, cn_nodes = []\<rparr>"

definition closest_len :: "closest_nodes \<Rightarrow> nat" where
  "closest_len c = length (cn_nodes c)"

definition closest_is_empty :: "closest_nodes \<Rightarrow> bool" where
  "closest_is_empty c \<longleftrightarrow> cn_nodes c = []"

text \<open>The comparator closure of \<open>ClosestNodes::add\<close>, applied to a probed entry.\<close>

definition probe_cmp :: "crc32c \<Rightarrow> id \<Rightarrow> node \<Rightarrow> node \<Rightarrow> ordering" where
  "probe_cmp crc t n probe =
     (let seek = id_xor (node_id n) t
      in if is_secure crc probe \<and> \<not> is_secure crc n then Less
         else if \<not> is_secure crc probe \<and> is_secure crc n then Greater
         else if node_id probe = node_id n then Equal
         else cmp (id_xor (node_id probe) t) seek)"

definition closest_add :: "crc32c \<Rightarrow> closest_nodes \<Rightarrow> node \<Rightarrow> closest_nodes" where
  "closest_add crc c n =
     (if already_exists crc n (cn_nodes c) then c
      else case binary_search_by (probe_cmp crc (cn_target c) n) (cn_nodes c) of
             Inr _ \<Rightarrow> c
           | Inl pos \<Rightarrow> c\<lparr>cn_nodes := take pos (cn_nodes c) @ n # drop pos (cn_nodes c)\<rparr>)"

definition subnet :: "node \<Rightarrow> u8" where
  "subnet n = ucast (drop_bit 26 (sa_ip (node_address n)) AND 0x3f)"

text \<open>The free function \<open>distance\<close>: the first sixteen bytes of the XOR distance as a \<open>u128\<close>.\<close>

definition node_distance :: "id \<Rightarrow> node \<Rightarrow> nat" where
  "node_distance t n = be_nat (take 16 (as_bytes (id_xor (node_id n) t)))"

text \<open>The loop of \<open>take_until_secure\<close>: the number of nodes passed before the break.\<close>

fun until_secure :: "id \<Rightarrow> nat \<Rightarrow> nat \<Rightarrow> u8 list \<Rightarrow> node list \<Rightarrow> nat" where
  "until_secure t expected_dk average_subnets subnets [] = 0"
| "until_secure t expected_dk average_subnets subnets (n # ns) =
     (let subnets' = List.insert (subnet n) subnets
      in if expected_dk \<le> node_distance t n \<and> average_subnets \<le> length subnets' then 0
         else Suc (until_secure t expected_dk average_subnets subnets' ns))"

definition expected_dk :: "nat \<Rightarrow> nat" where
  "expected_dk previous_dht_size_estimate =
     f64_to_uint U128_MAX
       (f64_div (f64_mul (Fin 20) (f64_of_nat U128_MAX))
          (f64_add (f64_of_nat previous_dht_size_estimate) (Fin 1)))"

definition take_until_secure :: "closest_nodes \<Rightarrow> nat \<Rightarrow> nat \<Rightarrow> node list" where
  "take_until_secure c previous_dht_size_estimate average_subnets =
     (let until = until_secure (cn_target c) (expected_dk previous_dht_size_estimate)
            average_subnets [] (cn_nodes c)
      in take (min (max until MAX_BUCKET_SIZE_K) (length (cn_nodes c))) (cn_nodes c))"

definition subnets_count :: "closest_nodes \<Rightarrow> nat" where
  "subnets_count c =
     (if cn_nodes c = [] then 20
      else length (fold (\<lambda>n s. List.insert (subnet n) s) (take MAX_BUCKET_SIZE_K (cn_nodes c)) []))"

text \<open>The least-squares loop of \<open>dht_size_estimate\<close>: the weighted sum and the count so far.\<close>

fun estimate_loop :: "f64 \<Rightarrow> nat \<Rightarrow> nat list \<Rightarrow> f64 \<times> nat" where
  "estimate_loop acc cnt [] = (acc, cnt)"
| "estimate_loop acc cnt (d # ds) =
     (let cnt' = cnt + 1
      in estimate_loop (f64_add acc (f64_mul (f64_of_nat cnt') (f64_of_nat d))) cnt' ds)"

definition dht_size_estimate :: "nat list \<Rightarrow> f64" where
  "dht_size_estimate distances =
     (let (acc, cnt) = estimate_loop (Fin 0) 0 distances
      in if cnt = 0 then Fin 0
         else let lsq_constant = f64_of_nat (cnt * (cnt + 1) * (2 * cnt + 1) div 6)
              in f64_div (f64_mul lsq_constant (f64_of_nat U128_MAX)) acc)"

definition closest_dht_size_estimate :: "closest_nodes \<Rightarrow> f64" where
  "closest_dht_size_estimate c =
     dht_size_estimate (map (node_distance (cn_target c)) (take MAX_BUCKET_SIZE_K (cn_nodes c)))"

section \<open>Order\<close>

text \<open>The sort key: insecure nodes after secure ones, then the XOR distance.\<close>

definition closest_key :: "crc32c \<Rightarrow> id \<Rightarrow> node \<Rightarrow> bool \<times> id" where
  "closest_key crc t n = (\<not> is_secure crc n, id_xor (node_id n) t)"

definition closest_inv :: "crc32c \<Rightarrow> closest_nodes \<Rightarrow> bool" where
  "closest_inv crc c \<longleftrightarrow>
     sorted_wrt (<) (map (closest_key crc (cn_target c)) (cn_nodes c)) \<and> ip_guard crc (cn_nodes c)"

lemma probe_cmp_key:
  "probe_cmp crc t n probe = cmp (closest_key crc t probe) (closest_key crc t n)"
  by (auto simp: probe_cmp_def closest_key_def cmp_def Let_def)

lemma rank_cmp_mono: "a < b \<Longrightarrow> rank (cmp a k) \<le> rank (cmp b k)"
  by (auto simp: cmp_def)

lemma sorted_partitioned:
  "sorted_wrt (<) (map (closest_key crc t) xs) \<Longrightarrow> partitioned (probe_cmp crc t n) xs"
  unfolding partitioned_def sorted_wrt_map probe_cmp_key
  by (rule sorted_wrt_mono_rel [rotated], assumption) (rule rank_cmp_mono)

lemma cmp_simps [simp]: "cmp a b = Less \<longleftrightarrow> a < b" "cmp a b = Greater \<longleftrightarrow> b < a" "cmp a b = Equal \<longleftrightarrow> a = b"
  by (auto simp: cmp_def)

lemma closest_add_target [simp]: "cn_target (closest_add crc c n) = cn_target c"
  by (simp add: closest_add_def split: sum.split)

lemma closest_add_mset:
  "mset (cn_nodes (closest_add crc c n)) \<subseteq># add_mset n (mset (cn_nodes c))"
proof -
  have "mset (take i xs @ n # drop i xs) = add_mset n (mset xs)" for i and xs :: "node list"
  proof -
    have "mset (take i xs @ n # drop i xs) = add_mset n (mset (take i xs @ drop i xs))"
      by (simp del: append_take_drop_id)
    then show ?thesis by (simp only: append_take_drop_id)
  qed
  then show ?thesis by (auto simp: closest_add_def split: sum.split)
qed

lemma closest_add_exists: "already_exists crc n (cn_nodes c) \<Longrightarrow> closest_add crc c n = c"
  by (simp add: closest_add_def)

text \<open>The reference: linear insertion in front of the first larger key, unless the key is present.\<close>

definition insert_sorted :: "crc32c \<Rightarrow> id \<Rightarrow> node \<Rightarrow> node list \<Rightarrow> node list" where
  "insert_sorted crc t n xs =
     (if already_exists crc n xs \<or> closest_key crc t n \<in> set (map (closest_key crc t) xs) then xs
      else takeWhile (\<lambda>m. closest_key crc t m < closest_key crc t n) xs @ n #
           dropWhile (\<lambda>m. closest_key crc t m < closest_key crc t n) xs)"

lemma takeWhile_take_eq:
  assumes "i \<le> length xs" "\<forall>x \<in> set (take i xs). P x" "\<forall>x \<in> set (drop i xs). \<not> P x"
  shows "takeWhile P xs = take i xs" "dropWhile P xs = drop i xs"
proof -
  have "takeWhile P (take i xs @ drop i xs) = take i xs"
    using assms(2,3) by (cases "drop i xs") (auto simp: takeWhile_append2)
  then show tw: "takeWhile P xs = take i xs" by simp
  have "dropWhile P (take i xs @ drop i xs) = drop i xs"
    using assms(2,3) by (cases "drop i xs") (auto simp: dropWhile_append2)
  then show "dropWhile P xs = drop i xs" by simp
qed

lemma closest_add_insert_sorted:
  assumes "sorted_wrt (<) (map (closest_key crc (cn_target c)) (cn_nodes c))"
  shows "cn_nodes (closest_add crc c n) = insert_sorted crc (cn_target c) n (cn_nodes c)"
proof (cases "already_exists crc n (cn_nodes c)")
  case True
  then show ?thesis by (simp add: closest_add_def insert_sorted_def)
next
  case False
  let ?xs = "cn_nodes c" and ?k = "closest_key crc (cn_target c)"
  note found = binary_search_by_partitioned [OF sorted_partitioned [OF assms, of n]]
  show ?thesis
  proof (cases "binary_search_by (probe_cmp crc (cn_target c) n) ?xs")
    case (Inl i)
    have le: "i \<le> length ?xs" and lt: "\<forall>x \<in> set (take i ?xs). ?k x < ?k n"
      and gt: "\<forall>x \<in> set (drop i ?xs). ?k n < ?k x"
      using found by (auto simp: Inl probe_cmp_key)
    have "?k n \<notin> set (map ?k ?xs)"
    proof
      assume "?k n \<in> set (map ?k ?xs)"
      then obtain x where "x \<in> set (take i ?xs @ drop i ?xs)" "?k x = ?k n" by auto
      then show False using lt gt unfolding set_append by auto
    qed
    moreover have "\<forall>x \<in> set (drop i ?xs). \<not> ?k x < ?k n" using gt by (auto dest: order.asym)
    note tw = takeWhile_take_eq [OF le lt this]
    ultimately show ?thesis using False Inl by (simp add: closest_add_def insert_sorted_def tw)
  next
    case (Inr i)
    then have "?k (?xs ! i) = ?k n" "i < length ?xs" using found by (auto simp: probe_cmp_key)
    then have "?k n \<in> set (map ?k ?xs)" by (metis in_set_conv_nth length_map nth_map)
    then show ?thesis using False Inr by (simp add: closest_add_def insert_sorted_def)
  qed
qed

lemma insert_sorted_sorted:
  assumes "sorted_wrt (<) (map (closest_key crc t) xs)"
  shows "sorted_wrt (<) (map (closest_key crc t) (insert_sorted crc t n xs))"
proof -
  let ?k = "closest_key crc t" and ?P = "\<lambda>m. closest_key crc t m < closest_key crc t n"
  have "?k n < ?k m" if "m \<in> set (dropWhile ?P xs)" "?k n \<notin> set (map ?k xs)" for m
  proof -
    have "dropWhile ?P xs \<noteq> []" using that(1) by (metis length_pos_if_in_set list.size(3) less_irrefl)
    then obtain y ys where dw: "dropWhile ?P xs = y # ys" by (meson neq_Nil_conv)
    have "\<not> ?P y" using dw by (metis dropWhile_eq_Cons_conv)
    moreover have "y \<in> set xs" using dw by (metis list.set_intros(1) set_dropWhileD)
    ultimately have "?k n < ?k y" using that(2) by (metis image_eqI linorder_less_linear list.set_map)
    moreover have "sorted_wrt (\<lambda>a b. ?k a < ?k b) (takeWhile ?P xs @ y # ys)"
      using assms dw by (metis sorted_wrt_map takeWhile_dropWhile_id)
    ultimately show ?thesis using that(1) dw by (auto simp: sorted_wrt_append)
  qed
  moreover have "sorted_wrt (\<lambda>a b. ?k a < ?k b) (takeWhile ?P xs @ dropWhile ?P xs)"
    using assms by (simp add: sorted_wrt_map)
  ultimately show ?thesis
    using assms by (auto simp: insert_sorted_def sorted_wrt_map sorted_wrt_append dest: set_takeWhileD
        intro: less_trans)
qed

section \<open>The invariant\<close>

lemma closest_inv_new [simp]: "closest_inv crc (closest_new t)"
  by (simp add: closest_inv_def closest_new_def)

lemma closest_new_simps [simp]: "cn_target (closest_new t) = t" "cn_nodes (closest_new t) = []"
  by (simp_all add: closest_new_def)

interpretation closest: ip_guarded crc cn_nodes "\<lambda>_. closest_add crc" for crc
  by unfold_locales (simp_all add: closest_add_exists closest_add_mset)

lemma closest_inv_add: "closest_inv crc c \<Longrightarrow> closest_inv crc (closest_add crc c n)"
  using closest.add_guard [of crc c n]
  by (simp add: closest_inv_def closest_add_insert_sorted insert_sorted_sorted)

definition closest_add_all :: "crc32c \<Rightarrow> closest_nodes \<Rightarrow> node list \<Rightarrow> closest_nodes" where
  "closest_add_all crc = foldl (closest_add crc)"

lemma closest_add_all_simps [simp]:
  "closest_add_all crc c [] = c"
  "closest_add_all crc c (n # ns) = closest_add_all crc (closest_add crc c n) ns"
  by (simp_all add: closest_add_all_def)

lemma closest_add_all_target [simp]: "cn_target (closest_add_all crc c ns) = cn_target c"
  by (induction ns arbitrary: c) auto

lemma closest_inv_add_all: "closest_inv crc c \<Longrightarrow> closest_inv crc (closest_add_all crc c ns)"
  by (induction ns arbitrary: c) (auto simp: closest_inv_add)

lemma closest_add_all_mset:
  "mset (cn_nodes (closest_add_all crc c ns)) \<subseteq># mset (cn_nodes c) + mset ns"
proof (induction ns arbitrary: c)
  case (Cons n ns)
  have "mset (cn_nodes (closest_add_all crc (closest_add crc c n) ns))
      \<subseteq># mset (cn_nodes (closest_add crc c n)) + mset ns" by (rule Cons.IH)
  also have "\<dots> \<subseteq># add_mset n (mset (cn_nodes c)) + mset ns" using closest_add_mset by simp
  finally show ?case by simp
qed simp

lemma closest_add_keeps: "set (cn_nodes c) \<subseteq> set (cn_nodes (closest_add crc c n))"
  by (simp add: closest_add_def set_insert_at subset_insertI del: set_append split: sum.split)

lemma closest_add_all_keeps: "set (cn_nodes c) \<subseteq> set (cn_nodes (closest_add_all crc c ns))"
  by (induction ns arbitrary: c) (use closest_add_keeps in fastforce)+

text \<open>A node offered to the list is in it afterwards, or an entry of the list excludes it: one that
  the admission rule names, or one with the same id and the same security.\<close>

lemma closest_add_offered:
  assumes "closest_inv crc c"
  shows "n \<in> set (cn_nodes (closest_add crc c n)) \<or> already_exists crc n (cn_nodes c) \<or>
    closest_key crc (cn_target c) n \<in> closest_key crc (cn_target c) ` set (cn_nodes c)"
  using assms by (simp add: closest_inv_def closest_add_insert_sorted insert_sorted_def)

lemma closest_add_all_offered:
  assumes "closest_inv crc c" "n \<in> set ns"
  shows "let xs = cn_nodes (closest_add_all crc c ns) in n \<in> set xs \<or> already_exists crc n xs \<or>
    closest_key crc (cn_target c) n \<in> closest_key crc (cn_target c) ` set xs"
  using assms
proof (induction ns arbitrary: c)
  case (Cons m ns)
  show ?case
  proof (cases "n \<in> set ns")
    case True
    then show ?thesis using Cons.IH [of "closest_add crc c m"] Cons.prems closest_inv_add by auto
  next
    case False
    then have [simp]: "m = n" using Cons.prems by simp
    let ?c = "closest_add crc c n"
    have sub: "set (cn_nodes ?c) \<subseteq> set (cn_nodes (closest_add_all crc ?c ns))"
      "set (cn_nodes c) \<subseteq> set (cn_nodes (closest_add_all crc ?c ns))"
      using closest_add_all_keeps closest_add_keeps by (meson subset_trans)+
    show ?thesis unfolding Let_def closest_add_all_simps \<open>m = n\<close>
      using closest_add_offered [OF Cons.prems(1), of n] sub already_exists_mono by blast
  qed
qed simp

section \<open>The truncations\<close>

lemma take_min_length: "take (min m (length xs)) xs = take m xs"
  by (simp add: min_def)

text \<open>The condition on which \<open>take_until_secure\<close> stops at an index, and the least such index.\<close>

definition secure_at :: "id \<Rightarrow> nat \<Rightarrow> nat \<Rightarrow> u8 list \<Rightarrow> node list \<Rightarrow> nat \<Rightarrow> bool" where
  "secure_at t edk avg seen nodes i \<longleftrightarrow>
     i < length nodes \<and> edk \<le> node_distance t (nodes ! i) \<and>
     avg \<le> card (set seen \<union> subnet ` set (take (Suc i) nodes))"

lemma until_secure_le: "until_secure t edk avg seen nodes \<le> length nodes"
  by (induction nodes arbitrary: seen) (auto simp: Let_def)

lemma until_secure_not_before:
  "distinct seen \<Longrightarrow> i < until_secure t edk avg seen nodes \<Longrightarrow> \<not> secure_at t edk avg seen nodes i"
proof (induction nodes arbitrary: seen i)
  case (Cons n ns)
  let ?seen = "List.insert (subnet n) seen"
  have len: "length ?seen = card (set ?seen)" using Cons.prems(1) by (simp only: distinct_card distinct_insert)
  show ?case
  proof (cases i)
    case 0
    then show ?thesis using Cons.prems(2) len by (auto simp: Let_def secure_at_def split: if_splits)
  next
    case (Suc j)
    then have "j < until_secure t edk avg ?seen ns"
      using Cons.prems(2) by (auto simp: Let_def split: if_splits)
    then have "\<not> secure_at t edk avg ?seen ns j" using Cons.IH [of ?seen] Cons.prems(1) by simp
    then show ?thesis by (simp add: Suc secure_at_def)
  qed
qed simp

lemma until_secure_at:
  "distinct seen \<Longrightarrow> until_secure t edk avg seen nodes < length nodes \<Longrightarrow>
     secure_at t edk avg seen nodes (until_secure t edk avg seen nodes)"
proof (induction nodes arbitrary: seen)
  case (Cons n ns)
  let ?seen = "List.insert (subnet n) seen"
  have len: "length ?seen = card (set ?seen)" using Cons.prems(1) by (simp only: distinct_card distinct_insert)
  show ?case
  proof (cases "edk \<le> node_distance t n \<and> avg \<le> length ?seen")
    case True
    then show ?thesis using len by (simp add: secure_at_def)
  next
    case False
    then have eq: "until_secure t edk avg seen (n # ns) = Suc (until_secure t edk avg ?seen ns)"
      by (simp add: Let_def)
    then have "secure_at t edk avg ?seen ns (until_secure t edk avg ?seen ns)"
      using Cons.IH [of ?seen] Cons.prems by simp
    then show ?thesis unfolding eq by (simp add: secure_at_def)
  qed
qed simp

lemma subnets_fold:
  "set (fold (\<lambda>n s. List.insert (subnet n) s) ns s) = set s \<union> subnet ` set ns \<and>
   (distinct s \<longrightarrow> distinct (fold (\<lambda>n s. List.insert (subnet n) s) ns s))"
  by (induction ns arbitrary: s) auto

lemma subnets_count_card:
  "cn_nodes c \<noteq> [] \<Longrightarrow> subnets_count c = card (subnet ` set (take 20 (cn_nodes c)))"
  using subnets_fold [of "take 20 (cn_nodes c)" "[]"]
  by (simp add: subnets_count_def MAX_BUCKET_SIZE_K_def distinct_card [symmetric])

text \<open>C18: whatever nodes a query adds to a fresh list, in whatever order, the list stays strictly sorted
  (secure nodes first, then by XOR distance to the target), holds only nodes that were added, each at
  most as often, and obeys the admission rule on nodes of one address.\<close>

theorem closest_nodes_sorted:
  "let xs = cn_nodes (closest_add_all crc (closest_new t) ns)
   in sorted_wrt (<) (map (closest_key crc t) xs) \<and> mset xs \<subseteq># mset ns \<and> ip_guard crc xs"
  using closest_inv_add_all [OF closest_inv_new, of crc t ns] closest_add_all_mset [of crc "closest_new t" ns]
  by (simp add: closest_inv_def)

text \<open>C33: on a list that satisfies its invariant, the binary-search insertion of \<open>ClosestNodes::add\<close> is
  insertion in front of the first entry with a larger key, and leaves the list alone when the
  admission rule rejects the node or an entry has the same key.\<close>

theorem closest_add_is_sorted_insertion:
  "closest_inv crc c \<Longrightarrow>
     cn_nodes (closest_add crc c n) = insert_sorted crc (cn_target c) n (cn_nodes c)"
  by (simp add: closest_inv_def closest_add_insert_sorted)

definition wit_node :: "u8 \<Rightarrow> u32 \<Rightarrow> node" where
  "wit_node b ip = node_new 0 (id_of (replicate 20 b)) (sock_addr_new ip 6881)"

theorem closest_add_is_sorted_insertion_witness:
  "cn_nodes (closest_add (\<lambda>_. 0) (closest_add (\<lambda>_. 0) (closest_new (id_of [])) (wit_node 2 0x0A000001))
       (wit_node 1 0x0A000002)) = [wit_node 1 0x0A000002, wit_node 2 0x0A000001]"
  unfolding closest_add_is_sorted_insertion [OF closest_inv_add [OF closest_inv_new]] by code_simp

text \<open>\<open>take_until_secure\<close> returns the nodes in front of the first one that is at least at the
  expected distance and reaches the average number of subnets, but at least twenty, or all the nodes
  when there is no such node.\<close>

theorem take_until_secure_prefix:
  "take_until_secure c est avg =
     take (max 20 (LEAST i. i = length (cn_nodes c) \<or>
         secure_at (cn_target c) (expected_dk est) avg [] (cn_nodes c) i)) (cn_nodes c)"
proof -
  let ?u = "until_secure (cn_target c) (expected_dk est) avg [] (cn_nodes c)"
  have "(LEAST i. i = length (cn_nodes c) \<or> secure_at (cn_target c) (expected_dk est) avg [] (cn_nodes c) i) = ?u"
  proof (rule Least_equality)
    show "?u = length (cn_nodes c) \<or> secure_at (cn_target c) (expected_dk est) avg [] (cn_nodes c) ?u"
      using until_secure_le until_secure_at by (metis distinct.simps(1) le_neq_implies_less)
  next
    fix i assume "i = length (cn_nodes c) \<or> secure_at (cn_target c) (expected_dk est) avg [] (cn_nodes c) i"
    then show "?u \<le> i"
      using until_secure_le until_secure_not_before by (metis distinct.simps(1) not_le)
  qed
  then show ?thesis
    by (simp add: take_until_secure_def MAX_BUCKET_SIZE_K_def max.commute [of _ 20] take_min_length)
qed

end
