(* ===== verification/Routing_Table.thy ===== *)
theory Routing_Table
  imports Closest_Nodes
begin

text \<open>
  The routing table, from \<^verbatim>\<open>src/src/common/routing_table.rs\<close>: k-buckets of at most twenty nodes, keyed by the
  distance of their nodes to the table's own id. The \<open>BTreeMap<u8, KBucket>\<close> is a map on the
  naturals, and its \<open>values()\<close>, which go through the keys in increasing order, are read off in the order of the 256
  possible keys. The theorems show the invariant of the table, which nodes an \<open>add\<close> can drop, that
  the node iterator lists exactly the buckets in order, and that \<open>closest\<close> returns the
  twenty first nodes of the table sorted by the key of the candidate list.
\<close>

section \<open>K-buckets\<close>

record kbucket =
  kb_nodes :: "node list"

definition kbucket_new :: kbucket where
  "kbucket_new = \<lparr>kb_nodes = []\<rparr>"

text \<open>\<open>Iterator::position\<close>.\<close>

fun position :: "('a \<Rightarrow> bool) \<Rightarrow> 'a list \<Rightarrow> nat option" where
  "position P [] = None"
| "position P (x # xs) = (if P x then Some 0 else map_option Suc (position P xs))"

definition vec_remove :: "nat \<Rightarrow> 'a list \<Rightarrow> 'a list" where
  "vec_remove i xs = take i xs @ drop (Suc i) xs"

definition kbucket_add :: "crc32c \<Rightarrow> instant \<Rightarrow> kbucket \<Rightarrow> node \<Rightarrow> kbucket \<times> bool" where
  "kbucket_add crc now b incoming =
     (case position (\<lambda>n. node_id n = node_id incoming) (kb_nodes b) of
        Some index \<Rightarrow>
          (let existing = kb_nodes b ! index
           in if is_secure crc incoming \<or> (\<not> is_secure crc existing \<and> same_ip existing incoming)
              then (b\<lparr>kb_nodes := vec_remove index (kb_nodes b) @ [incoming]\<rparr>, True)
              else (b, False))
      | None \<Rightarrow>
          if length (kb_nodes b) < MAX_BUCKET_SIZE_K
          then (b\<lparr>kb_nodes := kb_nodes b @ [incoming]\<rparr>, True)
          else if is_stale now (kb_nodes b ! 0)
          then (b\<lparr>kb_nodes := vec_remove 0 (kb_nodes b) @ [incoming]\<rparr>, True)
          else (b, False))"

definition kbucket_remove :: "kbucket \<Rightarrow> id \<Rightarrow> kbucket" where
  "kbucket_remove b a = b\<lparr>kb_nodes := filter (\<lambda>n. node_id n \<noteq> a) (kb_nodes b)\<rparr>"

definition kbucket_is_empty :: "kbucket \<Rightarrow> bool" where
  "kbucket_is_empty b \<longleftrightarrow> kb_nodes b = []"

section \<open>The table\<close>

record routing_table =
  rt_id :: id
  rt_buckets :: "nat \<rightharpoonup> kbucket"

definition rt_new :: "id \<Rightarrow> routing_table" where
  "rt_new a = \<lparr>rt_id = a, rt_buckets = Map.empty\<rparr>"

text \<open>\<open>BTreeMap::values\<close>.\<close>

definition rt_values :: "routing_table \<Rightarrow> kbucket list" where
  "rt_values t = List.map_filter (rt_buckets t) [0..<256]"

definition rt_add :: "crc32c \<Rightarrow> instant \<Rightarrow> routing_table \<Rightarrow> node \<Rightarrow> routing_table \<times> bool" where
  "rt_add crc now t n =
     (let distance = id_distance (rt_id t) (node_id n)
      in if distance = 0 then (t, False)
         else if list_ex (\<lambda>b. already_exists crc n (kb_nodes b)) (rt_values t) then (t, False)
         else let bucket = (case rt_buckets t distance of Some b \<Rightarrow> b | None \<Rightarrow> kbucket_new);
                  (bucket', added) = kbucket_add crc now bucket n
              in (t\<lparr>rt_buckets := (rt_buckets t)(distance \<mapsto> bucket')\<rparr>, added))"

definition rt_remove :: "routing_table \<Rightarrow> id \<Rightarrow> routing_table" where
  "rt_remove t a =
     (let distance = id_distance (rt_id t) a
      in case rt_buckets t distance of
           Some b \<Rightarrow> t\<lparr>rt_buckets := (rt_buckets t)(distance \<mapsto> kbucket_remove b a)\<rparr>
         | None \<Rightarrow> t)"

definition rt_closest :: "crc32c \<Rightarrow> routing_table \<Rightarrow> id \<Rightarrow> node list" where
  "rt_closest crc t target =
     (let closest = foldl (\<lambda>c b. foldl (closest_add crc) c (kb_nodes b)) (closest_new target) (rt_values t)
      in take (min MAX_BUCKET_SIZE_K (closest_len closest)) (cn_nodes closest))"

definition rt_is_empty :: "routing_table \<Rightarrow> bool" where
  "rt_is_empty t \<longleftrightarrow> list_all kbucket_is_empty (rt_values t)"

definition rt_size :: "routing_table \<Rightarrow> nat" where
  "rt_size t = fold (\<lambda>b acc. acc + length (kb_nodes b)) (rt_values t) 0"

text \<open>The iterator over the nodes and the \<open>while\<close> loop of its \<open>next\<close>.\<close>

record rt_iterator =
  bucket_index :: nat
  node_index :: nat

function rt_next :: "routing_table \<Rightarrow> rt_iterator \<Rightarrow> node option \<times> rt_iterator" where
  "rt_next t it =
     (if bucket_index it \<le> 160 then
        case rt_buckets t (bucket_index it) of
          Some b \<Rightarrow>
            if node_index it < length (kb_nodes b)
            then (Some (kb_nodes b ! node_index it),
                  if node_index it + 1 = length (kb_nodes b)
                  then \<lparr>bucket_index = bucket_index it + 1, node_index = 0\<rparr>
                  else it\<lparr>node_index := node_index it + 1\<rparr>)
            else rt_next t (it\<lparr>bucket_index := bucket_index it + 1\<rparr>)
        | None \<Rightarrow> rt_next t (it\<lparr>bucket_index := bucket_index it + 1\<rparr>)
      else (None, it))"
  by pat_completeness auto

termination
  by (relation "measure (\<lambda>(t, it). 161 - bucket_index it)") auto

declare rt_next.simps [simp del]

definition bucket_len :: "routing_table \<Rightarrow> nat \<Rightarrow> nat" where
  "bucket_len t d = (case rt_buckets t d of Some b \<Rightarrow> length (kb_nodes b) | None \<Rightarrow> 0)"

text \<open>What one call of \<open>next\<close> consumes; it bounds the number of nodes the iterator yields.\<close>

lemma rt_next_decreases:
  "rt_next t it = (Some n, it') \<Longrightarrow>
     ((161 - bucket_index it', bucket_len t (bucket_index it') - node_index it'),
      (161 - bucket_index it, bucket_len t (bucket_index it) - node_index it)) \<in> less_than <*lex*> less_than"
proof (induction t it rule: rt_next.induct)
  case (1 t it)
  note IH = "1.IH" and step = "1.prems" [unfolded rt_next.simps [of t it]]
  show ?case
  proof (cases "rt_buckets t (bucket_index it)")
    case None
    then show ?thesis using step IH(1) by (auto split: if_splits)
  next
    case (Some b)
    then show ?thesis using step IH(2) by (auto simp: bucket_len_def split: if_splits)
  qed
qed

text \<open>Collecting the iterator, the loop of \<open>collect\<close>, and the \<open>nodes()\<close> of the table.\<close>

function rt_collect :: "routing_table \<Rightarrow> rt_iterator \<Rightarrow> node list" where
  "rt_collect t it = (case rt_next t it of (None, _) \<Rightarrow> [] | (Some n, it') \<Rightarrow> n # rt_collect t it')"
  by pat_completeness auto

termination
proof (relation "inv_image (less_than <*lex*> less_than)
    (\<lambda>(t, it). (161 - bucket_index it, bucket_len t (bucket_index it) - node_index it))", goal_cases)
  case (2 t it x y n)
  then have "rt_next t it = (Some n, y)" by simp
  from rt_next_decreases [OF this] show ?case by simp
qed auto

declare rt_collect.simps [simp del]

definition rt_nodes :: "routing_table \<Rightarrow> node list" where
  "rt_nodes t = rt_collect t \<lparr>bucket_index = 1, node_index = 0\<rparr>"

definition rt_closest_secure :: "crc32c \<Rightarrow> routing_table \<Rightarrow> id \<Rightarrow> nat \<Rightarrow> nat \<Rightarrow> node list" where
  "rt_closest_secure crc t target estimate subnets =
     take_until_secure (foldl (closest_add crc) (closest_new target) (rt_nodes t)) estimate subnets"

text \<open>\<open>SocketAddrV4\<close> printed: dotted decimal octets, a colon and the port.\<close>

definition sock_addr_to_string :: "sock_addr \<Rightarrow> bytes" where
  "sock_addr_to_string a =
     (let o4 = map (\<lambda>b. show_nat (unat b)) (u32_to_be_bytes (sa_ip a))
      in o4 ! 0 @ ascii ''.'' @ o4 ! 1 @ ascii ''.'' @ o4 ! 2 @ ascii ''.'' @ o4 ! 3 @ ascii '':'' @ show_nat (unat (sa_port a)))"

definition to_bootstrap :: "instant \<Rightarrow> routing_table \<Rightarrow> bytes list" where
  "to_bootstrap now t =
     map (\<lambda>n. sock_addr_to_string (node_address n)) (filter (\<lambda>n. \<not> is_stale now n) (rt_nodes t))"

section \<open>The nodes of the table\<close>

abbreviation bucket_nodes :: "routing_table \<Rightarrow> nat \<Rightarrow> node list" where
  "bucket_nodes t d \<equiv> (case rt_buckets t d of Some b \<Rightarrow> kb_nodes b | None \<Rightarrow> [])"

definition rt_entries :: "routing_table \<Rightarrow> node list" where
  "rt_entries t = concat (map (bucket_nodes t) [0..<256])"

lemma rt_entries_values: "rt_entries t = concat (map kb_nodes (rt_values t))"
proof -
  have "concat (map (bucket_nodes t) ds) = concat (map kb_nodes (List.map_filter (rt_buckets t) ds))" for ds
    by (induction ds) (auto simp: List.map_filter_simps split: option.splits)
  then show ?thesis by (simp add: rt_entries_def rt_values_def)
qed

lemma set_rt_entries: "set (rt_entries t) = (\<Union>d < 256. set (bucket_nodes t d))"
  by (auto simp: rt_entries_def)

text \<open>The iterator lists the rest of the current bucket and then the buckets after it.\<close>

definition it_rest :: "routing_table \<Rightarrow> rt_iterator \<Rightarrow> node list" where
  "it_rest t it =
     (if 160 < bucket_index it then []
      else drop (node_index it) (bucket_nodes t (bucket_index it)) @
           concat (map (bucket_nodes t) [Suc (bucket_index it)..<161]))"

definition it_valid :: "routing_table \<Rightarrow> rt_iterator \<Rightarrow> bool" where
  "it_valid t it \<longleftrightarrow> node_index it = 0 \<or> node_index it < bucket_len t (bucket_index it)"

lemma it_rest_next_bucket:
  "bucket_index it \<le> 160 \<Longrightarrow> node_index it = 0 \<Longrightarrow> bucket_nodes t (bucket_index it) = [] \<Longrightarrow>
     it_rest t it = it_rest t (it\<lparr>bucket_index := bucket_index it + 1\<rparr>)"
  by (cases "bucket_index it = 160") (auto simp: it_rest_def upt_conv_Cons)

lemma it_rest_hit:
  assumes "bucket_index it \<le> 160" "rt_buckets t (bucket_index it) = Some b" "node_index it < length (kb_nodes b)"
    and "it' = (if node_index it + 1 = length (kb_nodes b)
                then \<lparr>bucket_index = bucket_index it + 1, node_index = 0\<rparr>
                else it\<lparr>node_index := node_index it + 1\<rparr>)"
  shows "it_valid t it' \<and> it_rest t it = kb_nodes b ! node_index it # it_rest t it'"
proof -
  have "drop (node_index it) (kb_nodes b) = kb_nodes b ! node_index it # drop (Suc (node_index it)) (kb_nodes b)"
    using assms(3) by (simp add: Cons_nth_drop_Suc)
  then show ?thesis using assms
    by (cases "bucket_index it = 160") (auto simp: it_rest_def it_valid_def bucket_len_def upt_conv_Cons)
qed

lemma rt_next_rest:
  "it_valid t it \<Longrightarrow>
     case rt_next t it of
       (None, _) \<Rightarrow> it_rest t it = []
     | (Some n, it') \<Rightarrow> it_valid t it' \<and> it_rest t it = n # it_rest t it'"
proof (induction t it rule: rt_next.induct)
  case (1 t it)
  let ?it = "it\<lparr>bucket_index := bucket_index it + 1\<rparr>"
  show ?case
  proof (cases "bucket_index it \<le> 160")
    case False
    then show ?thesis by (subst rt_next.simps) (simp add: it_rest_def)
  next
    case le: True
    show ?thesis
    proof (cases "\<exists>b. rt_buckets t (bucket_index it) = Some b \<and> node_index it < length (kb_nodes b)")
      case True
      then obtain b where b: "rt_buckets t (bucket_index it) = Some b" "node_index it < length (kb_nodes b)"
        by blast
      show ?thesis unfolding rt_next.simps [of t it] using le b it_rest_hit [OF le b refl] by simp
    next
      case False
      then have next_eq: "rt_next t it = rt_next t ?it"
        by (subst rt_next.simps) (use le in \<open>auto split: option.split\<close>)
      have z: "node_index it = 0" "bucket_nodes t (bucket_index it) = []"
        using "1.prems" False by (auto simp: it_valid_def bucket_len_def split: option.splits)
      have "it_valid t ?it" using z by (simp add: it_valid_def)
      then have "case rt_next t ?it of (None, _) \<Rightarrow> it_rest t ?it = []
          | (Some n, it') \<Rightarrow> it_valid t it' \<and> it_rest t ?it = n # it_rest t it'"
        using "1.IH" le False by (cases "rt_buckets t (bucket_index it)") auto
      then show ?thesis unfolding next_eq it_rest_next_bucket [OF le z] .
    qed
  qed
qed

lemma rt_collect_rest: "it_valid t it \<Longrightarrow> rt_collect t it = it_rest t it"
proof (induction t it rule: rt_collect.induct)
  case (1 t it)
  show ?case
    using rt_next_rest [OF "1.prems"] "1.IH"
    by (subst rt_collect.simps) (auto split: prod.splits option.splits)
qed

lemma rt_nodes_buckets: "rt_nodes t = concat (map (bucket_nodes t) [1..<161])"
  using rt_collect_rest [of t "\<lparr>bucket_index = 1, node_index = 0\<rparr>"]
  by (simp add: rt_nodes_def it_valid_def it_rest_def upt_conv_Cons)

section \<open>What an insertion does to a bucket\<close>

lemma position_Some:
  "position P xs = Some i \<Longrightarrow> i < length xs \<and> P (xs ! i)"
  by (induction xs arbitrary: i) (auto split: if_splits)

lemma position_None [simp]: "position P xs = None \<longleftrightarrow> (\<forall>x \<in> set xs. \<not> P x)"
  by (induction xs) auto

lemma vec_remove_mset: "i < length xs \<Longrightarrow> mset xs = add_mset (xs ! i) (mset (vec_remove i xs))"
proof -
  assume "i < length xs"
  then have "xs = take i xs @ xs ! i # drop (Suc i) xs" by (rule id_take_nth_drop)
  then have "mset xs = mset (take i xs @ xs ! i # drop (Suc i) xs)" by simp
  then show ?thesis by (simp add: vec_remove_def)
qed

text \<open>Either the bucket stays as it is and the answer is false, or the node is appended, after at most
  one entry was removed: the one with its id, or the stale head of a full bucket.\<close>

lemma kbucket_add_cases:
  obtains (rejected) "kbucket_add crc now b n = (b, False)"
  | (replaced) i where "i < length (kb_nodes b)" "node_id (kb_nodes b ! i) = node_id n"
      "is_secure crc n \<or> (\<not> is_secure crc (kb_nodes b ! i) \<and> same_ip (kb_nodes b ! i) n)"
      "kbucket_add crc now b n = (b\<lparr>kb_nodes := vec_remove i (kb_nodes b) @ [n]\<rparr>, True)"
  | (appended) "\<forall>m \<in> set (kb_nodes b). node_id m \<noteq> node_id n" "length (kb_nodes b) < 20"
      "kbucket_add crc now b n = (b\<lparr>kb_nodes := kb_nodes b @ [n]\<rparr>, True)"
  | (evicted) "\<forall>m \<in> set (kb_nodes b). node_id m \<noteq> node_id n" "20 \<le> length (kb_nodes b)"
      "is_stale now (kb_nodes b ! 0)"
      "kbucket_add crc now b n = (b\<lparr>kb_nodes := vec_remove 0 (kb_nodes b) @ [n]\<rparr>, True)"
proof (cases "position (\<lambda>m. node_id m = node_id n) (kb_nodes b)")
  case None
  have eq: "kbucket_add crc now b n =
      (if length (kb_nodes b) < 20 then (b\<lparr>kb_nodes := kb_nodes b @ [n]\<rparr>, True)
       else if is_stale now (kb_nodes b ! 0) then (b\<lparr>kb_nodes := vec_remove 0 (kb_nodes b) @ [n]\<rparr>, True)
       else (b, False))"
    by (simp only: kbucket_add_def None option.case MAX_BUCKET_SIZE_K_def)
  have "\<forall>m \<in> set (kb_nodes b). node_id m \<noteq> node_id n" using None by simp
  then show ?thesis using rejected appended evicted eq by (simp split: if_splits)
next
  case (Some i)
  have eq: "kbucket_add crc now b n =
      (if is_secure crc n \<or> (\<not> is_secure crc (kb_nodes b ! i) \<and> same_ip (kb_nodes b ! i) n)
       then (b\<lparr>kb_nodes := vec_remove i (kb_nodes b) @ [n]\<rparr>, True) else (b, False))"
    by (simp only: kbucket_add_def Some option.case Let_def)
  from position_Some [OF Some] show ?thesis using rejected replaced [of i] eq by (simp split: if_splits)
qed

lemma kbucket_add_mset:
  "mset (kb_nodes (fst (kbucket_add crc now b n))) \<subseteq># add_mset n (mset (kb_nodes b))"
proof (cases rule: kbucket_add_cases [of crc now b n])
  case (replaced i)
  then show ?thesis using vec_remove_mset [of i "kb_nodes b"] by simp
next
  case evicted
  then have "0 < length (kb_nodes b)" by linarith
  then show ?thesis using vec_remove_mset [of 0 "kb_nodes b"] evicted by simp
qed auto

lemma kbucket_add_length:
  "length (kb_nodes b) \<le> 20 \<Longrightarrow> length (kb_nodes (fst (kbucket_add crc now b n))) \<le> 20"
  by (cases rule: kbucket_add_cases [of crc now b n]) (auto simp: vec_remove_def min_def)

lemma distinct_map_vec_remove:
  assumes "distinct (map f xs)" "i < length xs"
  shows "distinct (map f (vec_remove i xs))" "f (xs ! i) \<notin> f ` set (vec_remove i xs)"
proof -
  have "xs = take i xs @ xs ! i # drop (Suc i) xs" by (rule id_take_nth_drop [OF assms(2)])
  then have "distinct (map f (take i xs @ xs ! i # drop (Suc i) xs))" using assms(1) by simp
  then show "distinct (map f (vec_remove i xs))" "f (xs ! i) \<notin> f ` set (vec_remove i xs)"
    by (auto simp: vec_remove_def)
qed

lemma set_vec_remove: "set (vec_remove i xs) \<subseteq> set xs"
  unfolding vec_remove_def using set_take_subset [of i xs] set_drop_subset [of "Suc i" xs] by auto

lemma kbucket_add_distinct:
  assumes "distinct (map node_id (kb_nodes b))"
  shows "distinct (map node_id (kb_nodes (fst (kbucket_add crc now b n))))"
proof (cases rule: kbucket_add_cases [of crc now b n])
  case (replaced i)
  then show ?thesis using distinct_map_vec_remove [OF assms, of i] by auto
next
  case evicted
  then have "0 < length (kb_nodes b)" by linarith
  from distinct_map_vec_remove(1) [OF assms this] show ?thesis
    using evicted(1,4) set_vec_remove [of 0 "kb_nodes b"] by auto
qed (use assms in auto)

section \<open>The invariant of the table\<close>

definition bucket_ok :: "id \<Rightarrow> nat \<Rightarrow> kbucket \<Rightarrow> bool" where
  "bucket_ok self d b \<longleftrightarrow>
     1 \<le> d \<and> d \<le> 160 \<and> length (kb_nodes b) \<le> 20 \<and> distinct (map node_id (kb_nodes b)) \<and>
     (\<forall>n \<in> set (kb_nodes b). id_distance self (node_id n) = d)"

definition rt_inv :: "crc32c \<Rightarrow> routing_table \<Rightarrow> bool" where
  "rt_inv crc t \<longleftrightarrow>
     (\<forall>d b. rt_buckets t d = Some b \<longrightarrow> bucket_ok (rt_id t) d b) \<and> ip_guard crc (rt_entries t)"

lemma mset_concat_upd:
  fixes f g :: "nat \<Rightarrow> 'a list"
  assumes "d < m" "\<And>i. i \<noteq> d \<Longrightarrow> f i = g i"
  shows "mset (concat (map f [0..<m])) + mset (g d) = mset (concat (map g [0..<m])) + mset (f d)"
proof -
  have split: "[0..<m] = [0..<d] @ d # [Suc d..<m]"
    using assms(1) upt_add_eq_append [of 0 d "m - d"] by (simp add: upt_conv_Cons)
  have eqs: "map f [0..<d] = map g [0..<d]" "map f [Suc d..<m] = map g [Suc d..<m]"
    using assms(2) by auto
  show ?thesis unfolding split map_append list.map eqs by simp
qed

lemma mset_entries_upd:
  "d < 256 \<Longrightarrow> mset (rt_entries (t\<lparr>rt_buckets := (rt_buckets t)(d \<mapsto> b)\<rparr>)) + mset (bucket_nodes t d) =
    mset (rt_entries t) + mset (kb_nodes b)"
  using mset_concat_upd [of d 256 "bucket_nodes (t\<lparr>rt_buckets := (rt_buckets t)(d \<mapsto> b)\<rparr>)" "bucket_nodes t"]
  by (simp add: rt_entries_def)

lemma rt_add_rejects: "already_exists crc n (rt_entries t) \<Longrightarrow> rt_add crc now t n = (t, False)"
  by (auto simp: rt_add_def rt_entries_values already_exists_def list_ex_iff Let_def)

lemma rt_add_id [simp]: "rt_id (fst (rt_add crc now t n)) = rt_id t"
  by (simp add: rt_add_def Let_def split: prod.split)

text \<open>The shape of an insertion that is not rejected at once.\<close>

abbreviation bucket_for :: "routing_table \<Rightarrow> node \<Rightarrow> kbucket" where
  "bucket_for t n \<equiv>
     (case rt_buckets t (id_distance (rt_id t) (node_id n)) of Some b \<Rightarrow> b | None \<Rightarrow> kbucket_new)"

lemma rt_add_admitted:
  assumes "node_id n \<noteq> rt_id t" "\<not> already_exists crc n (rt_entries t)"
  shows "rt_add crc now t n =
    (t\<lparr>rt_buckets := (rt_buckets t)(id_distance (rt_id t) (node_id n) \<mapsto> fst (kbucket_add crc now (bucket_for t n) n))\<rparr>,
     snd (kbucket_add crc now (bucket_for t n) n))"
proof -
  have "id_distance (rt_id t) (node_id n) \<noteq> 0" using assms(1) by (simp add: id_distance_eq_0_iff)
  moreover have "\<not> list_ex (\<lambda>b. already_exists crc n (kb_nodes b)) (rt_values t)"
    using assms(2) by (auto simp: rt_entries_values already_exists_def list_ex_iff)
  ultimately show ?thesis by (simp add: rt_add_def Let_def split: prod.split)
qed

lemma bucket_nodes_for: "bucket_nodes t (id_distance (rt_id t) (node_id n)) = kb_nodes (bucket_for t n)"
  by (simp add: kbucket_new_def split: option.split)

lemma rt_add_self: "node_id n = rt_id t \<Longrightarrow> rt_add crc now t n = (t, False)"
  by (simp add: rt_add_def)

lemma rt_add_mset:
  "mset (rt_entries (fst (rt_add crc now t n))) \<subseteq># add_mset n (mset (rt_entries t))"
proof (cases "node_id n = rt_id t \<or> already_exists crc n (rt_entries t)")
  case True
  then show ?thesis by (auto simp: rt_add_self rt_add_rejects)
next
  case False
  let ?b = "bucket_for t n" and ?b' = "fst (kbucket_add crc now (bucket_for t n) n)"
  have "mset (rt_entries (fst (rt_add crc now t n))) + mset (kb_nodes ?b) = mset (rt_entries t) + mset (kb_nodes ?b')"
    using mset_entries_upd [of "id_distance (rt_id t) (node_id n)" t ?b'] False
      id_distance_le [of "rt_id t" "node_id n"]
    by (simp add: rt_add_admitted bucket_nodes_for)
  also have "\<dots> \<subseteq># mset (rt_entries t) + add_mset n (mset (kb_nodes ?b))"
    using kbucket_add_mset [of crc now ?b n] by simp
  also have "\<dots> = add_mset n (mset (rt_entries t)) + mset (kb_nodes ?b)" by simp
  finally show ?thesis by (simp only: subset_mset.add_le_cancel_right)
qed

interpretation table: ip_guarded crc rt_entries "\<lambda>now t n. fst (rt_add crc now t n)" for crc
  by unfold_locales (simp_all add: rt_add_rejects rt_add_mset)

lemma rt_inv_new [simp]: "rt_inv crc (rt_new a)"
proof -
  have nil: "concat (map (\<lambda>d. []) ds) = ([] :: node list)" for ds :: "nat list" by (induction ds) auto
  show ?thesis by (simp add: rt_inv_def rt_new_def rt_entries_def nil)
qed

lemma bucket_ok_new [simp]: "bucket_ok self d kbucket_new \<longleftrightarrow> 1 \<le> d \<and> d \<le> 160"
  by (simp add: bucket_ok_def kbucket_new_def)

lemma bucket_ok_add:
  assumes "bucket_ok self (id_distance self (node_id n)) b"
  shows "bucket_ok self (id_distance self (node_id n)) (fst (kbucket_add crc now b n))"
proof -
  have "set (kb_nodes (fst (kbucket_add crc now b n))) \<subseteq> insert n (set (kb_nodes b))"
    using set_mset_mono [OF kbucket_add_mset [of crc now b n]] by simp
  then show ?thesis using assms by (auto simp: bucket_ok_def kbucket_add_length kbucket_add_distinct)
qed

lemma rt_inv_add: "rt_inv crc t \<Longrightarrow> rt_inv crc (fst (rt_add crc now t n))"
proof (cases "node_id n = rt_id t \<or> already_exists crc n (rt_entries t)")
  case True
  then show "rt_inv crc t \<Longrightarrow> ?thesis" by (auto simp: rt_add_self rt_add_rejects)
next
  case False
  assume inv: "rt_inv crc t"
  have "1 \<le> id_distance (rt_id t) (node_id n)"
    using False id_distance_eq_0_iff [of "rt_id t" "node_id n"] by (cases "id_distance (rt_id t) (node_id n)") auto
  then have "bucket_ok (rt_id t) (id_distance (rt_id t) (node_id n)) (bucket_for t n)"
    using inv id_distance_le [of "rt_id t" "node_id n"]
    by (cases "rt_buckets t (id_distance (rt_id t) (node_id n))") (simp_all add: rt_inv_def)
  note ok = bucket_ok_add [OF this, of crc now]
  have "bucket_ok (rt_id t) d b" if "rt_buckets (fst (rt_add crc now t n)) d = Some b" for d b
  proof (cases "d = id_distance (rt_id t) (node_id n)")
    case True
    then show ?thesis using that ok False by (simp add: rt_add_admitted)
  next
    case other: False
    then have "rt_buckets t d = Some b" using that False by (simp add: rt_add_admitted)
    then show ?thesis using inv by (simp add: rt_inv_def)
  qed
  then show ?thesis using inv table.add_guard [of crc t now n] by (simp add: rt_inv_def)
qed

lemma kbucket_remove_ok: "bucket_ok self d b \<Longrightarrow> bucket_ok self d (kbucket_remove b a)"
  by (auto simp: bucket_ok_def kbucket_remove_def distinct_map_filter intro: le_trans [OF length_filter_le])

lemma rt_remove_mset: "mset (rt_entries (rt_remove t a)) \<subseteq># mset (rt_entries t)"
proof (cases "rt_buckets t (id_distance (rt_id t) a)")
  case None
  then show ?thesis by (simp add: rt_remove_def)
next
  case (Some b)
  have "mset (rt_entries (rt_remove t a)) + mset (kb_nodes b) =
      mset (rt_entries t) + mset (kb_nodes (kbucket_remove b a))"
    using mset_entries_upd [of "id_distance (rt_id t) a" t "kbucket_remove b a"] Some
      id_distance_le [of "rt_id t" a] by (simp add: rt_remove_def)
  also have "\<dots> \<subseteq># mset (rt_entries t) + mset (kb_nodes b)" by (simp add: kbucket_remove_def)
  finally show ?thesis by (simp only: subset_mset.add_le_cancel_right)
qed

lemma rt_remove_id [simp]: "rt_id (rt_remove t a) = rt_id t"
  by (simp add: rt_remove_def Let_def split: option.split)

lemma rt_remove_buckets:
  "rt_buckets (rt_remove t a) d = Some b \<Longrightarrow> \<exists>b'. rt_buckets t d = Some b' \<and> (b = b' \<or> b = kbucket_remove b' a)"
  by (auto simp: rt_remove_def Let_def split: option.splits if_splits)

lemma rt_inv_remove: "rt_inv crc t \<Longrightarrow> rt_inv crc (rt_remove t a)"
  using ip_guard_submset [OF _ rt_remove_mset, of crc t a] rt_remove_buckets [of t a] kbucket_remove_ok
  unfolding rt_inv_def rt_remove_id by metis

text \<open>The tables that a sequence of insertions and removals reaches.\<close>

inductive rt_reachable :: "crc32c \<Rightarrow> id \<Rightarrow> routing_table \<Rightarrow> bool" for crc a where
  rt_start: "rt_reachable crc a (rt_new a)"
| rt_step_add: "rt_reachable crc a t \<Longrightarrow> rt_reachable crc a (fst (rt_add crc now t n))"
| rt_step_remove: "rt_reachable crc a t \<Longrightarrow> rt_reachable crc a (rt_remove t x)"

lemma rt_reachable_inv: "rt_reachable crc a t \<Longrightarrow> rt_inv crc t \<and> rt_id t = a"
  by (induction rule: rt_reachable.induct) (simp_all add: rt_inv_add rt_inv_remove rt_new_def [THEN arg_cong, of rt_id])

lemma rt_inv_bucket: "rt_inv crc t \<Longrightarrow> rt_buckets t d = Some b \<Longrightarrow> bucket_ok (rt_id t) d b"
  by (simp add: rt_inv_def)

lemma rt_inv_entry:
  assumes "rt_inv crc t" "n \<in> set (bucket_nodes t d)"
  shows "d = id_distance (rt_id t) (node_id n)" "1 \<le> d" "d \<le> 160"
  using assms(2) rt_inv_bucket [OF assms(1), of d] by (cases "rt_buckets t d"; simp add: bucket_ok_def)+

text \<open>Only the buckets 1 to 160 are in use, so the iterator lists what the buckets hold.\<close>

lemma rt_nodes_entries: "rt_inv crc t \<Longrightarrow> rt_nodes t = rt_entries t"
proof -
  assume inv: "rt_inv crc t"
  have nil: "bucket_nodes t d = []" if "d = 0 \<or> 160 < d" for d
    using rt_inv_bucket [OF inv, of d] that by (auto simp: bucket_ok_def split: option.split)
  have "concat (map (bucket_nodes t) [161..<256]) = []" using nil by simp
  moreover have "[0..<256] = 0 # [1..<161] @ [161..<256]" by (simp add: upt_rec)
  ultimately show ?thesis unfolding rt_nodes_buckets rt_entries_def
    by (simp only: list.map map_append concat.simps concat_append nil append_Nil append_Nil2 simp_thms)
qed

lemma rt_entries_distinct:
  assumes "rt_inv crc t"
  shows "distinct (map node_id (rt_entries t))"
proof -
  have "distinct (map node_id (concat (map (bucket_nodes t) ds)))" if "distinct ds" for ds
    using that
  proof (induction ds)
    case (Cons d ds)
    have "distinct (map node_id (bucket_nodes t d))"
      using rt_inv_bucket [OF assms, of d] by (auto simp: bucket_ok_def split: option.split)
    moreover have "node_id n \<noteq> node_id m" if "n \<in> set (bucket_nodes t d)" "e \<in> set ds" "m \<in> set (bucket_nodes t e)" for n m e
      using rt_inv_entry(1) [OF assms that(1)] rt_inv_entry(1) [OF assms that(3)] Cons.prems that(2) by auto
    ultimately show ?case using Cons by fastforce
  qed simp
  then show ?thesis by (simp add: rt_entries_def)
qed

section \<open>Closest nodes of the table\<close>

lemma rt_closest_entries:
  "rt_closest crc t target = take 20 (cn_nodes (closest_add_all crc (closest_new target) (rt_entries t)))"
proof -
  have "foldl (\<lambda>c b. foldl (closest_add crc) c (kb_nodes b)) c bs =
      foldl (closest_add crc) c (concat (map kb_nodes bs))" for c and bs :: "kbucket list"
    by (induction bs arbitrary: c) auto
  then show ?thesis
    by (simp add: rt_closest_def rt_entries_values closest_add_all_def closest_len_def MAX_BUCKET_SIZE_K_def
        take_min_length [of 20] Let_def min.commute)
qed

lemma ip_guard_excluded:
  assumes "ip_guard crc ns" "n \<in> set ns" "m \<in> set ns" "n \<noteq> m" "already_exists crc n [m]"
  shows "is_secure crc n \<and> \<not> is_secure crc m \<and> same_ip n m"
proof -
  obtain as bs where ns: "ns = as @ n # bs" using assms(2) by (meson split_list)
  have "compatible crc n m"
    using assms(1,3,4) compatible_sym unfolding ip_guard_def ns by (auto simp: sorted_wrt_append)
  then show ?thesis using assms(5) by (auto simp: already_exists_def compatible_def)
qed

text \<open>Of a list that obeys the admission rule and has distinct ids, every node is kept, except secure
  ones that share their address with an insecure node.\<close>

lemma closest_add_all_guarded:
  assumes guard: "ip_guard crc ns" and ids: "distinct (map node_id ns)" and n: "n \<in> set ns"
  shows "n \<in> set (cn_nodes (closest_add_all crc (closest_new target) ns)) \<or>
    (is_secure crc n \<and> (\<exists>m \<in> set (cn_nodes (closest_add_all crc (closest_new target) ns)).
       same_ip n m \<and> \<not> is_secure crc m))"
proof -
  let ?xs = "cn_nodes (closest_add_all crc (closest_new target) ns)"
  have sub: "set ?xs \<subseteq> set ns" using set_mset_mono [OF closest_add_all_mset [of crc "closest_new target" ns]] by simp
  have keys: "n = m" if "m \<in> set ns" "node_id m = node_id n" for m
    using ids n that by (auto simp: distinct_map inj_on_def)
  consider "n \<in> set ?xs" | "already_exists crc n ?xs" | "closest_key crc target n \<in> closest_key crc target ` set ?xs"
    using closest_add_all_offered [OF closest_inv_new n] by (auto simp: Let_def)
  then show ?thesis
  proof cases
    case 2
    then obtain m where m: "m \<in> set ?xs" "already_exists crc n [m]" by (auto simp: already_exists_def list_ex_iff)
    show ?thesis using ip_guard_excluded [OF guard n _ _ m(2)] sub m(1) by blast
  next
    case 3
    then obtain m where m: "m \<in> set ?xs" "closest_key crc target n = closest_key crc target m" by blast
    then have "node_id m = node_id n" by (simp add: closest_key_def)
    then show ?thesis using keys [of m] sub m(1) by auto
  qed simp
qed

lemma closest_add_all_sort:
  assumes guard: "ip_guard crc ns" and ids: "distinct (map node_id ns)"
    and pure: "\<forall>n \<in> set ns. \<forall>m \<in> set ns. is_secure crc n \<and> same_ip n m \<longrightarrow> is_secure crc m"
  shows "cn_nodes (closest_add_all crc (closest_new target) ns) = sort_key (closest_key crc target) ns"
proof -
  let ?xs = "cn_nodes (closest_add_all crc (closest_new target) ns)"
  have sub: "mset ?xs \<subseteq># mset ns" using closest_add_all_mset [of crc "closest_new target" ns] by simp
  then have "set ?xs \<subseteq> set ns" using set_mset_mono by fastforce
  moreover have "set ns \<subseteq> set ?xs"
  proof
    fix n assume n: "n \<in> set ns"
    show "n \<in> set ?xs"
      using closest_add_all_guarded [OF guard ids n, of target] pure n \<open>set ?xs \<subseteq> set ns\<close> by blast
  qed
  moreover have "sorted_wrt (<) (map (closest_key crc target) ?xs)"
    using closest_inv_add_all [OF closest_inv_new, of crc target ns] by (simp add: closest_inv_def)
  ultimately have "set ?xs = set ns" "distinct ?xs" "sorted (map (closest_key crc target) ?xs)"
    by (auto simp: strict_sorted_iff distinct_map)
  moreover have "distinct ns" using ids by (simp add: distinct_map)
  ultimately have "mset ns = mset ?xs" "sorted (map (closest_key crc target) ?xs)"
    by (simp_all add: set_eq_iff_mset_eq_distinct [symmetric])
  moreover have "inj_on (closest_key crc target) (set ns)"
    using ids by (auto simp: inj_on_def closest_key_def distinct_map)
  ultimately show ?thesis by (metis sort_key_inj_key_eq)
qed

section \<open>Size\<close>

lemma sum_list_le_mult: "(\<And>x. x \<in> set xs \<Longrightarrow> f x \<le> k) \<Longrightarrow> sum_list (map f xs) \<le> length xs * (k :: nat)"
  by (induction xs) (auto simp: add_mono)

lemma rt_size_entries: "rt_size t = length (rt_entries t)"
proof -
  have "fold (\<lambda>b acc. acc + length (kb_nodes b)) bs k = k + length (concat (map kb_nodes bs))"
    for k and bs :: "kbucket list" by (induction bs arbitrary: k) auto
  then show ?thesis by (simp add: rt_size_def rt_entries_values)
qed

lemma rt_nodes_le: "rt_inv crc t \<Longrightarrow> length (rt_nodes t) \<le> 160 * 20"
proof -
  assume "rt_inv crc t"
  then have "length (bucket_nodes t d) \<le> 20" for d
    using rt_inv_bucket [of crc t d] by (cases "rt_buckets t d") (simp_all add: bucket_ok_def)
  then have "sum_list (map (\<lambda>d. length (bucket_nodes t d)) [1..<161]) \<le> length [1..<161] * 20"
    by (intro sum_list_le_mult)
  then show ?thesis by (simp add: rt_nodes_buckets length_concat comp_def)
qed

lemma rt_add_dropped:
  assumes inv: "rt_inv crc t" and m: "m \<in> set (rt_entries t)" "m \<notin> set (rt_entries (fst (rt_add crc now t n)))"
  shows "snd (rt_add crc now t n) \<and>
    (node_id m = node_id n \<and> is_secure crc n \<and> \<not> same_ip n m \<or>
     is_stale now m \<and> 20 \<le> length (bucket_nodes t (id_distance (rt_id t) (node_id n))))"
proof -
  have adm: "node_id n \<noteq> rt_id t" "\<not> already_exists crc n (rt_entries t)"
    using m rt_add_self [of n t crc now] rt_add_rejects [of crc n t now] by auto
  let ?d = "id_distance (rt_id t) (node_id n)" and ?b = "bucket_for t n"
  note add = rt_add_admitted [OF adm, of now]
  have other: "m \<in> set (bucket_nodes t ?d)" "m \<notin> set (kb_nodes (fst (kbucket_add crc now ?b n)))"
    using m id_distance_le [of "rt_id t" "node_id n"] unfolding add set_rt_entries by (auto split: if_splits)
  then have mb: "m \<in> set (kb_nodes ?b)" by (simp only: bucket_nodes_for)
  have drop: "m = kb_nodes ?b ! i" if "i < length (kb_nodes ?b)" "m \<notin> set (vec_remove i (kb_nodes ?b))" for i
    using mb that vec_remove_mset [OF that(1)] by (metis insert_iff set_mset_add_mset_insert set_mset_mset)
  show ?thesis
  proof (cases rule: kbucket_add_cases [of crc now ?b n])
    case (replaced i)
    then have "m = kb_nodes ?b ! i" using other drop [of i] by simp
    moreover have "\<not> same_ip n m" using already_exists_same_id_ip [OF m(1)] adm(2) replaced(2) \<open>m = kb_nodes ?b ! i\<close> by metis
    ultimately show ?thesis using replaced by (auto simp: add same_ip_def)
  next
    case evicted
    then have "m = kb_nodes ?b ! 0" using other drop [of 0] by fastforce
    then show ?thesis using evicted unfolding bucket_nodes_for by (simp add: add)
  qed (use other mb in auto)
qed

lemma rt_add_answer:
  "if snd (rt_add crc now t n) then n \<in> set (rt_entries (fst (rt_add crc now t n)))
   else rt_entries (fst (rt_add crc now t n)) = rt_entries t"
proof (cases "node_id n = rt_id t \<or> already_exists crc n (rt_entries t)")
  case True
  then show ?thesis by (auto simp: rt_add_self rt_add_rejects)
next
  case False
  let ?d = "id_distance (rt_id t) (node_id n)" and ?b = "bucket_for t n"
  have adm: "node_id n \<noteq> rt_id t" "\<not> already_exists crc n (rt_entries t)" using False by auto
  note add = rt_add_admitted [OF adm, of now]
  have lt: "?d < 256" using id_distance_le [of "rt_id t" "node_id n"] by simp
  show ?thesis
  proof (cases "snd (kbucket_add crc now ?b n)")
    case True
    then have "n \<in> set (kb_nodes (fst (kbucket_add crc now ?b n)))"
      by (cases rule: kbucket_add_cases [of crc now ?b n]) auto
    then have "n \<in> set (rt_entries (fst (rt_add crc now t n)))" unfolding set_rt_entries
      by (intro UN_I [of ?d]) (simp_all add: add lt)
    then show ?thesis using True by (simp add: add)
  next
    case no: False
    then have "fst (kbucket_add crc now ?b n) = ?b" by (cases rule: kbucket_add_cases [of crc now ?b n]) auto
    then have "bucket_nodes (fst (rt_add crc now t n)) e = bucket_nodes t e" for e
      using bucket_nodes_for [of t n] by (cases "e = ?d") (simp_all add: add)
    then show ?thesis using no by (simp add: add rt_entries_def)
  qed
qed

section \<open>Tables with one and two buckets\<close>

lemma map_filter_append: "List.map_filter f (xs @ ys) = List.map_filter f xs @ List.map_filter f ys"
  by (simp add: List.map_filter_def)

lemma map_filter_none: "(\<And>x. x \<in> set xs \<Longrightarrow> f x = None) \<Longrightarrow> List.map_filter f xs = []"
  by (induction xs) (auto simp: List.map_filter_simps)

lemma upt_split_at: "d < m \<Longrightarrow> i \<le> d \<Longrightarrow> [i..<m] = [i..<d] @ d # [Suc d..<m]"
  using upt_add_eq_append [of i d "m - d"] by (simp add: upt_conv_Cons)

lemma rt_values_one:
  assumes "d < 256"
  shows "rt_values \<lparr>rt_id = a, rt_buckets = [d \<mapsto> b]\<rparr> = [b]"
proof -
  have "List.map_filter [d \<mapsto> b] [0..<d] = []" "List.map_filter [d \<mapsto> b] [Suc d..<256] = []"
    by (auto intro!: map_filter_none)
  then show ?thesis
    using assms by (simp add: rt_values_def upt_split_at [of d 256 0] map_filter_append List.map_filter_simps)
qed

lemma rt_values_two:
  assumes "d < e" "e < 256"
  shows "rt_values \<lparr>rt_id = a, rt_buckets = [e \<mapsto> c, d \<mapsto> b]\<rparr> = [b, c]"
proof -
  let ?f = "[e \<mapsto> c, d \<mapsto> b]"
  have split: "[0..<256] = [0..<d] @ d # [Suc d..<e] @ e # [Suc e..<256]"
    using assms upt_split_at [of d 256 0] upt_split_at [of e 256 "Suc d"] by simp
  have "List.map_filter ?f [0..<d] = []" "List.map_filter ?f [Suc d..<e] = []" "List.map_filter ?f [Suc e..<256] = []"
    using assms by (auto intro!: map_filter_none)
  then show ?thesis using assms by (simp add: rt_values_def split map_filter_append List.map_filter_simps)
qed

lemma rt_add_first:
  "node_id n \<noteq> a \<Longrightarrow> rt_add crc now (rt_new a) n =
     (\<lparr>rt_id = a, rt_buckets = [id_distance a (node_id n) \<mapsto> \<lparr>kb_nodes = [n]\<rparr>]\<rparr>, True)"
  by (simp add: rt_add_def rt_new_def rt_values_def map_filter_none id_distance_eq_0_iff kbucket_new_def
      kbucket_add_def MAX_BUCKET_SIZE_K_def)

lemma rt_wit_first: "fst (rt_add (\<lambda>_. 0) 1 (rt_new (id_of [])) (wit_node 1 0x0A000001)) =
   \<lparr>rt_id = id_of [], rt_buckets = [153 \<mapsto> \<lparr>kb_nodes = [wit_node 1 0x0A000001]\<rparr>]\<rparr>"
proof -
  have "node_id (wit_node 1 0x0A000001) \<noteq> id_of []" "id_distance (id_of []) (node_id (wit_node 1 0x0A000001)) = 153"
    by code_simp+
  then show ?thesis by (simp add: rt_add_first)
qed


lemma rt_wit_second: "rt_add (\<lambda>_. 0) 2 \<lparr>rt_id = id_of [], rt_buckets = [153 \<mapsto> \<lparr>kb_nodes = [wit_node 1 0x0A000001]\<rparr>]\<rparr> (wit_node 1 0x0A000002) =
   (\<lparr>rt_id = id_of [], rt_buckets = [153 \<mapsto> \<lparr>kb_nodes = [wit_node 1 0x0A000002]\<rparr>]\<rparr>, True)"
proof -
  have "node_id (wit_node 1 0x0A000001) = node_id (wit_node 1 0x0A000002)" by code_simp
  moreover have "id_distance (id_of []) (node_id (wit_node 1 0x0A000002)) = 153" by code_simp
  moreover have "\<not> already_exists (\<lambda>_. 0) (wit_node 1 0x0A000002) [wit_node 1 0x0A000001]" by code_simp
  moreover have "is_secure (\<lambda>_. 0) (wit_node 1 0x0A000002)" by code_simp
  ultimately show ?thesis by (simp add: rt_add_def rt_values_one kbucket_add_def vec_remove_def)
qed

lemma rt_nodes_one: "rt_inv crc \<lparr>rt_id = a, rt_buckets = [d \<mapsto> b]\<rparr> \<Longrightarrow> d < 256 \<Longrightarrow>
    rt_nodes \<lparr>rt_id = a, rt_buckets = [d \<mapsto> b]\<rparr> = kb_nodes b"
  by (simp add: rt_nodes_entries rt_entries_values rt_values_one)

lemma rt_wit_inv:
  "rt_inv (\<lambda>_. 0) \<lparr>rt_id = id_of [], rt_buckets = [153 \<mapsto> \<lparr>kb_nodes = [wit_node 1 0x0A000001]\<rparr>]\<rparr>"
  using rt_inv_add [OF rt_inv_new [of "\<lambda>_. 0" "id_of []"], of 1 "wit_node 1 0x0A000001"]
  by (simp only: rt_wit_first)

section \<open>Main properties\<close>

text \<open>C17: every table reached from an empty one by adding and removing nodes is a proper Kademlia
  table: each bucket has a key from 1 to 160, holds at most twenty nodes, all at that distance from
  the table's own id, ids are distinct over the whole table, the own id is not in it, and nodes of
  one address obey the admission rule. Its size is the number of nodes it lists, at most 3200.\<close>

theorem rt_reachable_wellformed:
  assumes "rt_reachable crc a t"
  shows "rt_inv crc t \<and> distinct (map node_id (rt_nodes t)) \<and> a \<notin> node_id ` set (rt_nodes t) \<and>
    rt_size t = length (rt_nodes t) \<and> rt_size t \<le> 160 * 20"
proof -
  have inv: "rt_inv crc t" and id: "rt_id t = a" using rt_reachable_inv [OF assms] by auto
  have "a \<noteq> node_id n" if "n \<in> set (rt_entries t)" for n
    using that rt_inv_entry(1,2) [OF inv, of n] unfolding set_rt_entries id by fastforce
  then show ?thesis
    using inv rt_entries_distinct [OF inv] rt_nodes_le [OF inv] rt_size_entries [of t]
    by (auto simp: rt_nodes_entries [OF inv])
qed

theorem rt_reachable_wellformed_witness:
  "distinct (map node_id (rt_nodes
     (fst (rt_add (\<lambda>_. 0) 1 (rt_new (id_of [])) (wit_node 1 0x0A000001)))))"
  using rt_reachable_wellformed [OF rt_step_add [OF rt_start, of "\<lambda>_. 0" "id_of []" 1 "wit_node 1 0x0A000001"]]
  by simp

text \<open>C35: no responsive node is lost to an insertion. A node that an \<open>add\<close> drops from the table is
  either one with the id of the new node at another address, and the new node is secure, or a stale
  node, and the bucket of the new node was full; and the \<open>add\<close> reported true.\<close>

theorem rt_add_drops_only_stale:
  assumes "rt_inv crc t" "m \<in> set (rt_nodes t)" "m \<notin> set (rt_nodes (fst (rt_add crc now t n)))"
  shows "snd (rt_add crc now t n) \<and>
    (node_id m = node_id n \<and> is_secure crc n \<and> \<not> same_ip n m \<or>
     is_stale now m \<and> 20 \<le> length (bucket_nodes t (id_distance (rt_id t) (node_id n))))"
  using rt_add_dropped [OF assms(1)] assms
  by (simp add: rt_nodes_entries [OF assms(1)] rt_nodes_entries [OF rt_inv_add [OF assms(1)]])

theorem rt_add_drops_only_stale_witness:
  "let t = fst (rt_add (\<lambda>_. 0) 1 (rt_new (id_of [])) (wit_node 1 0x0A000001)); n = wit_node 1 0x0A000002
   in snd (rt_add (\<lambda>_. 0) 2 t n) \<and>
     (node_id (wit_node 1 0x0A000001) = node_id n \<and> is_secure (\<lambda>_. 0) n \<and> \<not> same_ip n (wit_node 1 0x0A000001) \<or>
      is_stale 2 (wit_node 1 0x0A000001) \<and> 20 \<le> length (bucket_nodes t (id_distance (rt_id t) (node_id n))))"
proof -
  let ?crc = "\<lambda>_. 0 :: u32"
  let ?t = "\<lparr>rt_id = id_of [], rt_buckets = [153 \<mapsto> \<lparr>kb_nodes = [wit_node 1 0x0A000001]\<rparr>]\<rparr>"
  have inv: "rt_inv ?crc ?t" by (rule rt_wit_inv)
  have inv2: "rt_inv ?crc \<lparr>rt_id = id_of [], rt_buckets = [153 \<mapsto> \<lparr>kb_nodes = [wit_node 1 0x0A000002]\<rparr>]\<rparr>"
    using rt_inv_add [OF inv, of 2 "wit_node 1 0x0A000002"] by (simp only: rt_wit_second fst_conv)
  have "wit_node 1 0x0A000001 \<noteq> wit_node 1 0x0A000002" by (simp add: wit_node_def node_new_def sock_addr_new_def)
  then have "wit_node 1 0x0A000001 \<in> set (rt_nodes ?t)"
    "wit_node 1 0x0A000001 \<notin> set (rt_nodes (fst (rt_add ?crc 2 ?t (wit_node 1 0x0A000002))))"
    by (simp_all add: rt_wit_second rt_nodes_one [OF inv] rt_nodes_one [OF inv2])
  from rt_add_drops_only_stale [OF inv this] show ?thesis by (simp only: Let_def rt_wit_first)
qed

text \<open>The answer of \<open>add\<close> is right: true means that the node is in the table afterwards, false
  that the table lists the nodes it listed before.\<close>

theorem rt_add_reports:
  "rt_inv crc t \<Longrightarrow>
     if snd (rt_add crc now t n) then n \<in> set (rt_nodes (fst (rt_add crc now t n)))
     else rt_nodes (fst (rt_add crc now t n)) = rt_nodes t"
  using rt_add_answer [of crc now t n] rt_inv_add [of crc t now n] by (simp add: rt_nodes_entries)

theorem rt_add_reports_witness:
  "wit_node 1 0x0A000001 \<in> set (rt_nodes (fst (rt_add (\<lambda>_. 0) 1 (rt_new (id_of [])) (wit_node 1 0x0A000001))))"
proof -
  have "node_id (wit_node 1 0x0A000001) \<noteq> id_of []" by code_simp
  then have "snd (rt_add (\<lambda>_. 0) 1 (rt_new (id_of [])) (wit_node 1 0x0A000001))" by (simp add: rt_add_first)
  then show ?thesis using rt_add_reports [OF rt_inv_new, of "\<lambda>_. 0" 1 "id_of []" "wit_node 1 0x0A000001"] by simp
qed

text \<open>A node that is seen again from its address is not refreshed. When the table lists a node with
  the id and the address of the new one, \<open>add\<close> returns false and leaves the table as it is, so that
  the old instant of the last sighting stays.\<close>

theorem rt_add_never_refreshes:
  assumes "rt_inv crc t" "m \<in> set (rt_nodes t)" "node_id m = node_id n" "same_ip n m"
  shows "rt_add crc now t n = (t, False)"
  using assms already_exists_same_id_ip rt_add_rejects by (metis rt_nodes_entries)

theorem rt_add_never_refreshes_witness:
  "let t = \<lparr>rt_id = id_of [], rt_buckets = [153 \<mapsto> \<lparr>kb_nodes = [wit_node 1 0x0A000001]\<rparr>]\<rparr>
   in rt_add (\<lambda>_. 0) 9 t (wit_node 1 0x0A000001\<lparr>last_seen := 9\<rparr>) = (t, False)"
  unfolding Let_def
  by (rule rt_add_never_refreshes [OF rt_wit_inv, of "wit_node 1 0x0A000001"])
    (simp_all add: rt_nodes_one [OF rt_wit_inv] same_ip_def)

text \<open>Removing an id removes exactly the node with that id.\<close>

theorem rt_remove_removes:
  "rt_inv crc t \<Longrightarrow> rt_nodes (rt_remove t a) = filter (\<lambda>n. node_id n \<noteq> a) (rt_nodes t)"
proof -
  assume inv: "rt_inv crc t"
  have "bucket_nodes (rt_remove t a) d = filter (\<lambda>n. node_id n \<noteq> a) (bucket_nodes t d)" for d
  proof (cases "d = id_distance (rt_id t) a")
    case True
    then show ?thesis by (cases "rt_buckets t d") (simp_all add: rt_remove_def kbucket_remove_def)
  next
    case False
    then have "filter (\<lambda>n. node_id n \<noteq> a) (bucket_nodes t d) = bucket_nodes t d"
      using rt_inv_entry(1) [OF inv, of _ d] by (auto simp: filter_id_conv)
    moreover have "rt_buckets (rt_remove t a) d = rt_buckets t d"
      using False by (simp add: rt_remove_def Let_def split: option.split)
    ultimately show ?thesis by simp
  qed
  then show ?thesis by (simp add: rt_nodes_buckets filter_concat comp_def)
qed

theorem rt_remove_removes_witness:
  "rt_nodes (rt_remove \<lparr>rt_id = id_of [], rt_buckets = [153 \<mapsto> \<lparr>kb_nodes = [wit_node 1 0x0A000001]\<rparr>]\<rparr>
     (id_of (replicate 20 1))) = []"
proof -
  have "node_id (wit_node 1 0x0A000001) = id_of (replicate 20 1)" by (simp add: wit_node_def node_new_def)
  then show ?thesis unfolding rt_remove_removes [OF rt_wit_inv] by (simp add: rt_nodes_one [OF rt_wit_inv])
qed

text \<open>C34: \<open>closest\<close> returns a list of at most twenty nodes of the table, sorted by the key of the
  candidate list; and when no address has both a secure and an insecure node, it returns exactly
  the first twenty of all nodes of the table sorted by that key.\<close>

theorem rt_closest_sorted:
  assumes "rt_inv crc t"
  shows "length (rt_closest crc t target) \<le> 20 \<and> set (rt_closest crc t target) \<subseteq> set (rt_nodes t) \<and>
    sorted_wrt (<) (map (closest_key crc target) (rt_closest crc t target)) \<and>
    ((\<forall>n \<in> set (rt_nodes t). \<forall>m \<in> set (rt_nodes t). is_secure crc n \<and> same_ip n m \<longrightarrow> is_secure crc m) \<longrightarrow>
     rt_closest crc t target = take 20 (sort_key (closest_key crc target) (rt_nodes t)))"
proof -
  let ?xs = "cn_nodes (closest_add_all crc (closest_new target) (rt_entries t))"
  have "set ?xs \<subseteq> set (rt_entries t)"
    using set_mset_mono [OF closest_add_all_mset [of crc "closest_new target" "rt_entries t"]] by simp
  then have sub: "set (take 20 ?xs) \<subseteq> set (rt_entries t)" using set_take_subset by (rule subset_trans [rotated])
  have "sorted_wrt (<) (map (closest_key crc target) ?xs)"
    using closest_inv_add_all [OF closest_inv_new, of crc target "rt_entries t"] by (simp add: closest_inv_def)
  then have sorted: "sorted_wrt (<) (map (closest_key crc target) (take 20 ?xs))"
    by (simp only: take_map [symmetric] sorted_wrt_take)
  have "ip_guard crc (rt_entries t)" using assms by (simp add: rt_inv_def)
  note opt = closest_add_all_sort [OF this rt_entries_distinct [OF assms], of target]
  show ?thesis unfolding rt_closest_entries rt_nodes_entries [OF assms]
  proof (intro conjI impI)
    show "length (take 20 ?xs) \<le> 20" by simp
  qed (rule sub, rule sorted, simp only: opt)
qed

lemma rt_wit_two:
  "let s = wit_node 0 0x0A000001; m = wit_node 0x80 0x0A000002; self = id_of (replicate 20 0x81);
       t = \<lparr>rt_id = self, rt_buckets = [160 \<mapsto> \<lparr>kb_nodes = [s]\<rparr>, 153 \<mapsto> \<lparr>kb_nodes = [m]\<rparr>]\<rparr>
   in rt_inv (\<lambda>_. 0) t \<and> rt_nodes t = [m, s]"
proof -
  let ?s = "wit_node 0 0x0A000001" and ?m = "wit_node 0x80 0x0A000002" and ?self = "id_of (replicate 20 0x81)"
  let ?t1 = "\<lparr>rt_id = ?self, rt_buckets = [160 \<mapsto> \<lparr>kb_nodes = [?s]\<rparr>]\<rparr>"
  let ?t2 = "\<lparr>rt_id = ?self, rt_buckets = [160 \<mapsto> \<lparr>kb_nodes = [?s]\<rparr>, 153 \<mapsto> \<lparr>kb_nodes = [?m]\<rparr>]\<rparr>"
  have f: "node_id ?s \<noteq> ?self" "id_distance ?self (node_id ?s) = 160" "id_distance ?self (node_id ?m) = 153"
    "\<not> already_exists (\<lambda>_. 0) ?m [?s]" by code_simp+
  have "fst (rt_add (\<lambda>_. 0) 1 (rt_new ?self) ?s) = ?t1" by (simp add: rt_add_first f)
  moreover have "rt_add (\<lambda>_. 0) 2 ?t1 ?m = (?t2, True)"
    by (simp add: rt_add_def f rt_values_one kbucket_add_def kbucket_new_def MAX_BUCKET_SIZE_K_def)
  ultimately have "rt_inv (\<lambda>_. 0) ?t2"
    using rt_inv_add [OF rt_inv_add [OF rt_inv_new [of "\<lambda>_. 0" ?self], of 1 ?s], of 2 ?m] by simp
  then show ?thesis by (simp add: Let_def rt_nodes_entries rt_entries_values rt_values_two)
qed

theorem rt_closest_sorted_witness:
  "let s = wit_node 0 0x0A000001; m = wit_node 0x80 0x0A000002; self = id_of (replicate 20 0x81);
       t = \<lparr>rt_id = self, rt_buckets = [160 \<mapsto> \<lparr>kb_nodes = [s]\<rparr>, 153 \<mapsto> \<lparr>kb_nodes = [m]\<rparr>]\<rparr>
   in rt_nodes t = [m, s] \<and> rt_closest (\<lambda>_. 0) t (id_of []) = [s, m]"
proof -
  let ?s = "wit_node 0 0x0A000001" and ?m = "wit_node 0x80 0x0A000002" and ?self = "id_of (replicate 20 0x81)"
  let ?t = "\<lparr>rt_id = ?self, rt_buckets = [160 \<mapsto> \<lparr>kb_nodes = [?s]\<rparr>, 153 \<mapsto> \<lparr>kb_nodes = [?m]\<rparr>]\<rparr>"
  have t: "rt_inv (\<lambda>_. 0) ?t" "rt_nodes ?t = [?m, ?s]" using rt_wit_two by (simp_all add: Let_def)
  have "\<forall>n \<in> {?m, ?s}. is_secure (\<lambda>_. 0) n" by code_simp
  moreover have "take 20 (sort_key (closest_key (\<lambda>_. 0) (id_of [])) [?m, ?s]) = [?s, ?m]" by code_simp
  ultimately show ?thesis using rt_closest_sorted [OF t(1), of "id_of []"] by (simp add: t(2) Let_def)
qed

text \<open>Without the condition on addresses \<open>closest\<close> can lose a secure node: the table holds a secure and an
  insecure node of one address, the bucket of the insecure one comes first, and the secure one is
  then rejected, although the order of the result would put it in front.\<close>

theorem rt_closest_loses_secure:
  "let s = wit_node 0 0x01010101; m = wit_node 0x80 0x01010101; self = id_of (replicate 20 0x81);
       t = fst (rt_add (\<lambda>_. 0) 2 (fst (rt_add (\<lambda>_. 0) 1 (rt_new self) s)) m)
   in is_secure (\<lambda>_. 0) s \<and> \<not> is_secure (\<lambda>_. 0) m \<and> rt_size t = 2 \<and>
      rt_closest (\<lambda>_. 0) t (id_of []) = [m]"
proof -
  let ?s = "wit_node 0 0x01010101" and ?m = "wit_node 0x80 0x01010101" and ?self = "id_of (replicate 20 0x81)"
  have f1: "node_id ?s \<noteq> ?self" by code_simp
  have f2: "id_distance ?self (node_id ?s) = 160" by code_simp
  have f3: "id_distance ?self (node_id ?m) = 153" by code_simp
  have f4: "\<not> already_exists (\<lambda>_. 0) ?m [?s]" by code_simp
  have f5: "is_secure (\<lambda>_. 0) ?s" "\<not> is_secure (\<lambda>_. 0) ?m" by code_simp+
  have f6: "cn_nodes (closest_add (\<lambda>_. 0) (closest_new (id_of [])) ?m) = [?m]" by code_simp
  have f7: "already_exists (\<lambda>_. 0) ?s [?m]" by code_simp
  have "closest_add (\<lambda>_. 0) (closest_add (\<lambda>_. 0) (closest_new (id_of [])) ?m) ?s =
      closest_add (\<lambda>_. 0) (closest_new (id_of [])) ?m" using f6 f7 by (simp add: closest_add_exists)
  moreover have "fst (rt_add (\<lambda>_. 0) 1 (rt_new ?self) ?s) = \<lparr>rt_id = ?self, rt_buckets = [160 \<mapsto> \<lparr>kb_nodes = [?s]\<rparr>]\<rparr>"
    by (simp add: rt_add_first f1 f2)
  moreover have "rt_add (\<lambda>_. 0) 2 \<lparr>rt_id = ?self, rt_buckets = [160 \<mapsto> \<lparr>kb_nodes = [?s]\<rparr>]\<rparr> ?m =
      (\<lparr>rt_id = ?self, rt_buckets = [160 \<mapsto> \<lparr>kb_nodes = [?s]\<rparr>, 153 \<mapsto> \<lparr>kb_nodes = [?m]\<rparr>]\<rparr>, True)"
    by (simp add: rt_add_def f3 f4 rt_values_one kbucket_add_def kbucket_new_def MAX_BUCKET_SIZE_K_def)
  ultimately show ?thesis using f5 f6
    by (simp add: Let_def rt_values_two rt_size_def rt_closest_def MAX_BUCKET_SIZE_K_def closest_len_def)
qed

end
