(* ===== verification/Tokens.thy ===== *)
theory Tokens
  imports Node_Entry
begin

text \<open>
  The tokens that protect stores against spoofed addresses, from \<^verbatim>\<open>src/src/rpc/server/tokens.rs\<close>: two secrets that are
  rotated when the current one is older than five minutes. The theorems show that the token given to an address is valid
  for that address until the second rotation, and that rotation happens only when it is due.
\<close>

definition SECRET_SIZE :: nat where
  "SECRET_SIZE = 20"

definition TOKEN_SIZE :: nat where
  "TOKEN_SIZE = 4"

record tokens =
  prev_secret :: bytes
  curr_secret :: bytes
  last_updated :: instant

definition random_secret :: "rng \<Rightarrow> bytes \<times> rng" where
  "random_secret r = (rng_take SECRET_SIZE r, rng_drop SECRET_SIZE r)"

definition tokens_new :: "instant \<Rightarrow> rng \<Rightarrow> tokens \<times> rng" where
  "tokens_new now r =
     (let (prev, r1) = random_secret r; (curr, r2) = random_secret r1
      in (\<lparr>prev_secret = prev, curr_secret = curr, last_updated = now\<rparr>, r2))"

definition should_update :: "instant \<Rightarrow> tokens \<Rightarrow> bool" where
  "should_update now t \<longleftrightarrow> elapsed now (last_updated t) > TOKEN_ROTATE_INTERVAL"

definition internal_generate_token :: "crc32c \<Rightarrow> sock_addr \<Rightarrow> bytes \<Rightarrow> bytes" where
  "internal_generate_token crc address secret =
     u32_to_be_bytes (crc (u32_to_be_bytes (sa_ip address) @ secret))"

definition tokens_validate :: "crc32c \<Rightarrow> tokens \<Rightarrow> sock_addr \<Rightarrow> bytes \<Rightarrow> bool" where
  "tokens_validate crc t address token =
     (let prev = internal_generate_token crc address (prev_secret t);
          curr = internal_generate_token crc address (curr_secret t)
      in token = curr \<or> token = prev)"

definition tokens_rotate :: "instant \<Rightarrow> rng \<Rightarrow> tokens \<Rightarrow> tokens \<times> rng" where
  "tokens_rotate now r t =
     (let (secret, r') = random_secret r
      in (t\<lparr>prev_secret := curr_secret t, curr_secret := secret, last_updated := now\<rparr>, r'))"

definition generate_token :: "crc32c \<Rightarrow> tokens \<Rightarrow> sock_addr \<Rightarrow> bytes" where
  "generate_token crc t address = internal_generate_token crc address (curr_secret t)"

text \<open>The lazy rotation at the start of every request.\<close>

definition tokens_refresh :: "instant \<Rightarrow> rng \<Rightarrow> tokens \<Rightarrow> tokens \<times> rng" where
  "tokens_refresh now r t = (if should_update now t then tokens_rotate now r t else (t, r))"

lemma token_size [simp]: "length (generate_token crc t a) = TOKEN_SIZE"
  by (simp add: generate_token_def internal_generate_token_def TOKEN_SIZE_def)

lemma token_valid_now: "tokens_validate crc t a (generate_token crc t a)"
  by (simp add: tokens_validate_def generate_token_def)

lemma token_valid_rotated: "tokens_validate crc (fst (tokens_rotate now r t)) a (generate_token crc t a)"
  by (simp add: tokens_validate_def generate_token_def tokens_rotate_def random_secret_def)

lemma refresh_fresh: "elapsed now (last_updated (fst (tokens_refresh now r t))) \<le> TOKEN_ROTATE_INTERVAL"
  by (simp add: tokens_refresh_def tokens_rotate_def random_secret_def should_update_def elapsed_def)

section \<open>Main properties\<close>

text \<open>The token a request got is accepted from any port of the same address when it comes back, if
  at most one rotation happened in between: the next request, at any time \<open>later\<close>, finds it valid,
  whether or not this request rotates the secrets first. As secrets are only rotated when a request
  arrives, this holds after a pause of any length, not only for ten minutes.\<close>

theorem token_accepted_once_rotated:
  assumes "sa_ip b = sa_ip a"
  shows "tokens_validate crc (fst (tokens_refresh later r' t)) b (generate_token crc t a)"
  using assms token_valid_now token_valid_rotated
  by (auto simp: tokens_refresh_def generate_token_def internal_generate_token_def tokens_validate_def
      tokens_rotate_def random_secret_def)

theorem token_accepted_once_rotated_witness:
  "tokens_validate (\<lambda>bs. of_nat (length bs)) (fst (tokens_refresh 7 (\<lambda>_. 9)
      \<lparr>prev_secret = [1], curr_secret = [2], last_updated = 3\<rparr>)) (sock_addr_new 5 80)
      (generate_token (\<lambda>bs. of_nat (length bs)) \<lparr>prev_secret = [1], curr_secret = [2], last_updated = 3\<rparr> (sock_addr_new 5 6881))"
  by (rule token_accepted_once_rotated) (simp add: sock_addr_new_def)

end
