(* ===== verification/Lru.thy ===== *)
theory Lru
  imports Main
begin

text \<open>
  The interface of the cache of the crate \<open>lru\<close>, which the server and the Rpc use. The crate is not
  part of the sources: its operations are a record that the operations of the clients take as an
  argument, and the locale \<open>lru_cache\<close> states what the crate documents of them, by the list of entries
  that its \<open>iter\<close> visits, the most recently used one first. Two facts follow once for all clients: what a
  lookup finds after an insertion, and that the entries after any operation are old ones or the
  new one, within the capacity. The interpretation at the end is the reference implementation on lists.
\<close>

record ('k, 'v, 'c) lru_ops =
  lru_new :: "nat \<Rightarrow> 'c"
  lru_cap :: "'c \<Rightarrow> nat"
  lru_iter :: "'c \<Rightarrow> ('k \<times> 'v) list"
  lru_len :: "'c \<Rightarrow> nat"
  lru_get :: "'c \<Rightarrow> 'k \<Rightarrow> 'v option \<times> 'c"
  lru_get_mut :: "'c \<Rightarrow> 'k \<Rightarrow> ('v \<Rightarrow> 'v) \<Rightarrow> 'c option"
  lru_put :: "'c \<Rightarrow> 'k \<Rightarrow> 'v \<Rightarrow> 'v option \<times> 'c"
  lru_pop :: "'c \<Rightarrow> ('k \<times> 'v) option \<times> 'c"

definition without :: "'k \<Rightarrow> ('k \<times> 'v) list \<Rightarrow> ('k \<times> 'v) list" where
  "without k es = filter (\<lambda>p. fst p \<noteq> k) es"

definition lru_lookup :: "('k, 'v, 'c) lru_ops \<Rightarrow> 'c \<Rightarrow> 'k \<Rightarrow> 'v option" where
  "lru_lookup ops c k = map_of (lru_iter ops c) k"

definition lru_ok :: "('k, 'v, 'c) lru_ops \<Rightarrow> 'c \<Rightarrow> bool" where
  "lru_ok ops c \<longleftrightarrow> distinct (map fst (lru_iter ops c)) \<and> length (lru_iter ops c) \<le> lru_cap ops c"

locale lru_cache =
  fixes ops :: "('k, 'v, 'c) lru_ops"
  assumes new: "lru_iter ops (lru_new ops n) = []" "lru_cap ops (lru_new ops n) = n"
    and len: "lru_len ops c = length (lru_iter ops c)"
    and get: "lru_get ops c k = (r, c') \<Longrightarrow>
      r = map_of (lru_iter ops c) k \<and> lru_cap ops c' = lru_cap ops c \<and>
      lru_iter ops c' = (case r of Some v \<Rightarrow> (k, v) # without k (lru_iter ops c) | None \<Rightarrow> lru_iter ops c)"
    and get_mut: "(case lru_get_mut ops c k f of
        None \<Rightarrow> map_of (lru_iter ops c) k = None
      | Some c' \<Rightarrow> (\<exists>v. map_of (lru_iter ops c) k = Some v \<and> lru_cap ops c' = lru_cap ops c \<and>
          lru_iter ops c' = (k, f v) # without k (lru_iter ops c)))"
    and put: "lru_put ops c k v = (r, c') \<Longrightarrow>
      r = map_of (lru_iter ops c) k \<and> lru_cap ops c' = lru_cap ops c \<and>
      lru_iter ops c' = take (lru_cap ops c) ((k, v) # without k (lru_iter ops c))"
    and pop: "lru_pop ops c = (p, c') \<Longrightarrow> lru_cap ops c' = lru_cap ops c \<and>
      (if lru_iter ops c = [] then p = None \<and> lru_iter ops c' = []
       else p = Some (last (lru_iter ops c)) \<and> lru_iter ops c' = butlast (lru_iter ops c))"
begin

lemma without_distinct: "distinct (map fst es) \<Longrightarrow> distinct (map fst (without k es))"
  by (simp add: without_def distinct_map_filter)

lemma without_fst: "k \<notin> fst ` set (without k es)"
  by (auto simp: without_def)

lemma without_length: "k \<in> fst ` set es \<Longrightarrow> length (without k es) < length es"
  unfolding without_def by (auto intro: length_filter_less)

lemma ok_new [simp]: "lru_ok ops (lru_new ops n)"
  by (simp add: lru_ok_def new)

lemma ok_get: "lru_ok ops c \<Longrightarrow> lru_ok ops (snd (lru_get ops c k))"
proof -
  assume w: "lru_ok ops c"
  obtain r c' where g: "lru_get ops c k = (r, c')" by fastforce
  show ?thesis
  proof (cases r)
    case None
    then show ?thesis using w get [OF g] by (simp add: lru_ok_def g)
  next
    case (Some v)
    then have "map_of (lru_iter ops c) k = Some v" using get [OF g] by simp
    then have "k \<in> fst ` set (lru_iter ops c)" by (metis domI dom_map_of_conv_image_fst)
    from without_length [OF this] show ?thesis using w get [OF g] Some without_fst [of k "lru_iter ops c"]
      by (auto simp: lru_ok_def g without_distinct)
  qed
qed

lemma ok_put: "lru_ok ops c \<Longrightarrow> lru_ok ops (snd (lru_put ops c k v))"
proof -
  assume w: "lru_ok ops c"
  obtain r c' where p: "lru_put ops c k v = (r, c')" by fastforce
  have "distinct (map fst ((k, v) # without k (lru_iter ops c)))"
    using w without_fst by (simp add: lru_ok_def without_distinct)
  then have "distinct (map fst (take (lru_cap ops c) ((k, v) # without k (lru_iter ops c))))"
    by (metis distinct_take take_map)
  then show ?thesis using put [OF p] by (simp add: lru_ok_def p)
qed

lemma get_result: "fst (lru_get ops c k) = lru_lookup ops c k"
  using get [of c k "fst (lru_get ops c k)" "snd (lru_get ops c k)"] by (simp add: lru_lookup_def)

lemma get_entries: "set (lru_iter ops (snd (lru_get ops c k))) \<subseteq> set (lru_iter ops c)"
  using get [of c k "fst (lru_get ops c k)" "snd (lru_get ops c k)"]
  by (auto simp: without_def dest: map_of_SomeD split: option.splits)

lemma get_cap [simp]: "lru_cap ops (snd (lru_get ops c k)) = lru_cap ops c"
  using get [of c k "fst (lru_get ops c k)" "snd (lru_get ops c k)"] by simp

lemma put_cap [simp]: "lru_cap ops (snd (lru_put ops c k v)) = lru_cap ops c"
  using put [of c k v "fst (lru_put ops c k v)" "snd (lru_put ops c k v)"] by simp

lemma put_entries: "set (lru_iter ops (snd (lru_put ops c k v))) \<subseteq> insert (k, v) (set (lru_iter ops c))"
  using put [of c k v "fst (lru_put ops c k v)" "snd (lru_put ops c k v)"]
    set_take_subset [of "lru_cap ops c" "(k, v) # without k (lru_iter ops c)"]
  by (auto simp: without_def)

lemma put_lookup: "0 < lru_cap ops c \<Longrightarrow> lru_lookup ops (snd (lru_put ops c k v)) k = Some v"
  using put [of c k v "fst (lru_put ops c k v)" "snd (lru_put ops c k v)"]
  by (cases "lru_cap ops c") (auto simp: lru_lookup_def)

lemma put_lookup_same: "lru_lookup ops (snd (lru_put ops c k v)) k \<in> {None, Some v}"
  using put [of c k v "fst (lru_put ops c k v)" "snd (lru_put ops c k v)"]
  by (cases "lru_cap ops c") (auto simp: lru_lookup_def)

lemma get_all: "list_all P (lru_iter ops c) \<Longrightarrow> list_all P (lru_iter ops (snd (lru_get ops c k)))"
  using get_entries [of c k] by (auto simp: list_all_iff)

lemma put_all: "list_all P (lru_iter ops c) \<Longrightarrow> P (k, v) \<Longrightarrow> list_all P (lru_iter ops (snd (lru_put ops c k v)))"
  using put_entries [of c k v] by (auto simp: list_all_iff)

text \<open>Another key is found as before, unless it was the one that had to make room.\<close>

lemma map_of_without: "j \<noteq> k \<Longrightarrow> map_of (without k es) j = map_of es j"
  unfolding without_def by (induction es) auto

lemma put_lookup_other:
  "j \<noteq> k \<Longrightarrow> lru_lookup ops (snd (lru_put ops c k v)) j = lru_lookup ops c j \<or>
     lru_lookup ops (snd (lru_put ops c k v)) j = None \<and> lru_cap ops c \<le> length (without k (lru_iter ops c))"
proof -
  assume jk: "j \<noteq> k"
  let ?es = "without k (lru_iter ops c)"
  have it: "lru_iter ops (snd (lru_put ops c k v)) = take (lru_cap ops c) ((k, v) # ?es)"
    using put [of c k v "fst (lru_put ops c k v)" "snd (lru_put ops c k v)"] by simp
  show ?thesis
  proof (cases "lru_cap ops c \<le> length ?es")
    case True
    have "map_of (take n es) j = map_of es j \<or> map_of (take n es) j = None" for n and es :: "('k \<times> 'v) list"
      by (induction es arbitrary: n) (auto simp: take_Cons' split: if_splits)
    then show ?thesis using True it jk map_of_without [OF jk, of "lru_iter ops c"]
      by (metis (no_types, lifting) lru_lookup_def map_of_Cons_code(2))
  next
    case False
    then show ?thesis using it jk by (simp add: lru_lookup_def map_of_without)
  qed
qed

lemma get_lookup: "lru_lookup ops (snd (lru_get ops c k)) j = lru_lookup ops c j"
proof -
  obtain r c' where g: "lru_get ops c k = (r, c')" by fastforce
  show ?thesis using get [OF g] by (cases "j = k") (auto simp: lru_lookup_def g map_of_without split: option.splits)
qed

lemma get_mut_None: "lru_get_mut ops c k f = None \<longleftrightarrow> lru_lookup ops c k = None"
  using get_mut [of c k f] by (auto simp: lru_lookup_def split: option.splits)

lemma get_mut_Some:
  assumes "lru_get_mut ops c k f = Some c'"
  obtains v where "lru_lookup ops c k = Some v" "lru_cap ops c' = lru_cap ops c"
    "lru_iter ops c' = (k, f v) # without k (lru_iter ops c)"
  using get_mut [of c k f] assms by (auto simp: lru_lookup_def)

lemma get_mut_lookup:
  "lru_get_mut ops c k f = Some c' \<Longrightarrow>
     lru_lookup ops c' j = (if j = k then map_option f (lru_lookup ops c k) else lru_lookup ops c j)"
  by (erule get_mut_Some) (auto simp: lru_lookup_def map_of_without)

lemma lookup_entry: "lru_ok ops c \<Longrightarrow> lru_lookup ops c k = Some v \<longleftrightarrow> (k, v) \<in> set (lru_iter ops c)"
  by (simp add: lru_lookup_def lru_ok_def)

end

section \<open>The reference implementation\<close>

definition list_lru :: "('k, 'v, nat \<times> ('k \<times> 'v) list) lru_ops" where
  "list_lru = \<lparr>
     lru_new = (\<lambda>n. (n, [])),
     lru_cap = fst,
     lru_iter = snd,
     lru_len = (\<lambda>c. length (snd c)),
     lru_get = (\<lambda>c k. case map_of (snd c) k of
         Some v \<Rightarrow> (Some v, (fst c, (k, v) # without k (snd c))) | None \<Rightarrow> (None, c)),
     lru_get_mut = (\<lambda>c k f. case map_of (snd c) k of
         Some v \<Rightarrow> Some (fst c, (k, f v) # without k (snd c)) | None \<Rightarrow> None),
     lru_put = (\<lambda>c k v. (map_of (snd c) k, (fst c, take (fst c) ((k, v) # without k (snd c))))),
     lru_pop = (\<lambda>c. if snd c = [] then (None, c) else (Some (last (snd c)), (fst c, butlast (snd c))))\<rparr>"

interpretation list_lru: lru_cache list_lru
  by unfold_locales (auto simp: list_lru_def split: option.splits if_splits)

end
