(* ===== verification/Peers.thy ===== *)
theory Peers
  imports Node_Entry Lru Float64 "HOL-Library.Sublist"
begin

text \<open>
  The store of announced peers, from \<^verbatim>\<open>src/src/rpc/server/peers.rs\<close>: a cache of caches of addresses. The random selection
  of at most ten peers uses single precision arithmetic and is modelled with it. The theorems show that an
  announced peer is found again, and what the selection returns for every random input.
\<close>

record ('pc, 'ic) peer_lrus =
  peers_lru :: "(id, sock_addr, 'pc) lru_ops"
  infos_lru :: "(id, 'pc, 'ic) lru_ops"

record 'ic peers_store =
  info_hashes :: 'ic
  max_peers :: nat

definition peers_new :: "('pc, 'ic) peer_lrus \<Rightarrow> nat \<Rightarrow> nat \<Rightarrow> 'ic peers_store" where
  "peers_new ops max_info_hashes mp = \<lparr>info_hashes = lru_new (infos_lru ops) max_info_hashes, max_peers = mp\<rparr>"

definition add_peer :: "('pc, 'ic) peer_lrus \<Rightarrow> 'ic peers_store \<Rightarrow> id \<Rightarrow> id \<times> sock_addr \<Rightarrow> 'ic peers_store" where
  "add_peer ops s info_hash peer =
     (case lru_get_mut (infos_lru ops) (info_hashes s) info_hash
             (\<lambda>l. snd (lru_put (peers_lru ops) l (fst peer) (snd peer))) of
        Some c \<Rightarrow> s\<lparr>info_hashes := c\<rparr>
      | None \<Rightarrow>
          let l = snd (lru_put (peers_lru ops) (lru_new (peers_lru ops) (max_peers s)) (fst peer) (snd peer))
          in s\<lparr>info_hashes := snd (lru_put (infos_lru ops) (info_hashes s) info_hash l)\<rparr>)"

definition U32_MAX :: nat where
  "U32_MAX = 2 ^ 32 - 1"

text \<open>\<open>((slots as f32 / items as f32) * CHANCE_SCALE) as u32\<close>; the scale is \<open>2^32\<close>, a product with it is exact.\<close>

definition CHANCE_SCALE :: f64 where
  "CHANCE_SCALE = Fin (2 * 2 ^ 31)"

definition f32_of_nat :: "nat \<Rightarrow> f64" where
  "f32_of_nat n = round_f32 (of_nat n)"

fun f32_div :: "f64 \<Rightarrow> f64 \<Rightarrow> f64" where
  "f32_div (Fin a) (Fin b) = (if b \<noteq> 0 then round_f32 (a / b) else f64_div (Fin a) (Fin b))"
| "f32_div x y = f64_div x y"

fun f32_mul :: "f64 \<Rightarrow> f64 \<Rightarrow> f64" where
  "f32_mul (Fin a) (Fin b) = round_f32 (a * b)"
| "f32_mul x y = f64_mul x y"

definition current_chance :: "nat \<Rightarrow> nat \<Rightarrow> nat" where
  "current_chance remaining_slots remaining_items =
     f64_to_uint U32_MAX (f32_mul (f32_div (f32_of_nat remaining_slots) (f32_of_nat remaining_items)) CHANCE_SCALE)"

text \<open>\<open>u32::from_le_bytes\<close> of the four bytes of the chunk from an index.\<close>

definition rand_int :: "bytes \<Rightarrow> nat \<Rightarrow> nat" where
  "rand_int chunk index =
     unat (chunk ! index) + 256 * unat (chunk ! (index + 1)) + 65536 * unat (chunk ! (index + 2)) +
     16777216 * unat (chunk ! (index + 3))"

text \<open>The selection loop over the entries with their index.\<close>

fun select_peers :: "nat \<Rightarrow> nat \<Rightarrow> bytes \<Rightarrow> nat \<Rightarrow> sock_addr list \<Rightarrow> sock_addr list \<Rightarrow> sock_addr list" where
  "select_peers target_n len chunk index results [] = results"
| "select_peers target_n len chunk index results (addr # rest) =
     (let remaining_slots = target_n - length results; remaining_items = len - index
      in if rand_int chunk index < current_chance remaining_slots remaining_items
         then let results' = results @ [addr]
              in if length results' = target_n then results'
                 else select_peers target_n len chunk (index + 1) results' rest
         else select_peers target_n len chunk (index + 1) results rest)"

definition get_random_peers ::
  "('pc, 'ic) peer_lrus \<Rightarrow> rng \<Rightarrow> 'ic peers_store \<Rightarrow> id \<Rightarrow> sock_addr list option \<times> 'ic peers_store \<times> rng" where
  "get_random_peers ops r s info_hash =
     (let (found, c) = lru_get (infos_lru ops) (info_hashes s) info_hash; s' = s\<lparr>info_hashes := c\<rparr>
      in case found of
           None \<Rightarrow> (None, s', r)
         | Some l \<Rightarrow>
             let sz = lru_len (peers_lru ops) l; addrs = map snd (lru_iter (peers_lru ops) l); target_n = 10
             in if sz = 0 then (None, s', r)
                else if sz < target_n then (Some addrs, s', r)
                else let n = length (lru_iter (peers_lru ops) l) * 4; chunk = rng_take n r
                     in (Some (select_peers target_n sz chunk 0 [] addrs), s', rng_drop n r))"

section \<open>The selection\<close>

lemma select_peers_shape:
  assumes "length results < n"
  shows "\<exists>sel. select_peers n len chunk i results addrs = results @ sel \<and> subseq sel addrs \<and>
    length (results @ sel) \<le> n"
  using assms
proof (induction addrs arbitrary: i results)
  case (Cons addr rest)
  show ?case
  proof (cases "rand_int chunk i < current_chance (n - length results) (len - i)")
    case False
    then obtain sel where "select_peers n len chunk i results (addr # rest) = results @ sel" "subseq sel rest"
        "length (results @ sel) \<le> n"
      using Cons.IH [OF Cons.prems, of "i + 1"] by auto
    then show ?thesis by (metis list_emb_Cons)
  next
    case take: True
    show ?thesis
    proof (cases "length (results @ [addr]) = n")
      case True
      then show ?thesis using take by (intro exI [of _ "[addr]"]) simp
    next
      case False
      then have "length (results @ [addr]) < n" using Cons.prems by simp
      then obtain sel where "select_peers n len chunk (i + 1) (results @ [addr]) rest = (results @ [addr]) @ sel"
          "subseq sel rest" "length ((results @ [addr]) @ sel) \<le> n"
        using Cons.IH by blast
      then show ?thesis using take False by (intro exI [of _ "addr # sel"]) simp
    qed
  qed
qed simp

lemma rand_int_max: "\<forall>j. chunk ! j = 255 \<Longrightarrow> rand_int chunk i = U32_MAX"
  by (simp add: rand_int_def U32_MAX_def)

lemma current_chance_le: "current_chance a b \<le> U32_MAX"
  by (simp add: current_chance_def f64_to_uint_le)

lemma select_peers_none:
  "(\<And>j. j < i + length addrs \<Longrightarrow> rand_int chunk j = U32_MAX) \<Longrightarrow>
     select_peers n len chunk i results addrs = results"
proof (induction addrs arbitrary: i)
  case (Cons addr rest)
  have "rand_int chunk i = U32_MAX" by (rule Cons.prems) simp
  then have "\<not> rand_int chunk i < current_chance a b" for a b using current_chance_le [of a b] by simp
  then show ?case using Cons.IH [of "i + 1"] Cons.prems by simp
qed simp

section \<open>The invariant of the store\<close>

text \<open>The peers of an info hash, the most recently announced one first.\<close>

definition peers_of :: "('pc, 'ic) peer_lrus \<Rightarrow> 'ic peers_store \<Rightarrow> id \<Rightarrow> (id \<times> sock_addr) list" where
  "peers_of ops s h = (case lru_lookup (infos_lru ops) (info_hashes s) h of Some l \<Rightarrow> lru_iter (peers_lru ops) l | None \<Rightarrow> [])"

text \<open>The outer cache and every inner one are within their capacities and list each key once.\<close>

definition peers_ok :: "('pc, 'ic) peer_lrus \<Rightarrow> 'ic peers_store \<Rightarrow> bool" where
  "peers_ok ops s \<longleftrightarrow> lru_ok (infos_lru ops) (info_hashes s) \<and> 0 < lru_cap (infos_lru ops) (info_hashes s) \<and> 0 < max_peers s \<and>
     list_all (\<lambda>p. lru_ok (peers_lru ops) (snd p) \<and> lru_cap (peers_lru ops) (snd p) = max_peers s) (lru_iter (infos_lru ops) (info_hashes s))"

locale peer_caches = infos: lru_cache "infos_lru ops" + peers: lru_cache "peers_lru ops"
  for ops :: "('pc, 'ic) peer_lrus"
begin

lemmas infos_facts = infos.ok_get infos.ok_put infos.get_cap infos.put_cap
  infos.get_all infos.put_all

lemmas peers_facts = peers.ok_put peers.put_cap peers.put_lookup
  peers.new peers.ok_new

lemma ok_new: "0 < n \<Longrightarrow> 0 < k \<Longrightarrow> peers_ok ops (peers_new ops n k)"
  by (simp add: peers_ok_def peers_new_def infos.new infos.ok_new)

lemma inner:
  assumes "peers_ok ops s" "lru_lookup (infos_lru ops) (info_hashes s) h = Some l"
  shows "lru_ok (peers_lru ops) l" "lru_cap (peers_lru ops) l = max_peers s" "0 < max_peers s"
proof -
  have "(h, l) \<in> set (lru_iter (infos_lru ops) (info_hashes s))" using assms(2) by (simp add: lru_lookup_def map_of_SomeD)
  then show "lru_ok (peers_lru ops) l" "lru_cap (peers_lru ops) l = max_peers s" "0 < max_peers s"
    using assms(1) by (auto simp: peers_ok_def list_all_iff)
qed

text \<open>What \<open>add_peer\<close> does: the inner cache of the info hash, a new one if there is none, takes the peer and becomes the most recent entry.\<close>

lemma add_peer_cases:
  assumes "peers_ok ops s"
  obtains l c where "add_peer ops s h (rid, a) = s\<lparr>info_hashes := c\<rparr>" "lru_ok (peers_lru ops) l" "lru_cap (peers_lru ops) l = max_peers s"
    "lru_lookup (infos_lru ops) c h = Some (snd (lru_put (peers_lru ops) l rid a))" "lru_cap (infos_lru ops) c = lru_cap (infos_lru ops) (info_hashes s)"
    "lru_ok (infos_lru ops) c"
    "set (lru_iter (infos_lru ops) c) \<subseteq> insert (h, snd (lru_put (peers_lru ops) l rid a)) (set (lru_iter (infos_lru ops) (info_hashes s)))"
    "lru_lookup (infos_lru ops) (info_hashes s) h = Some l \<or>
      lru_lookup (infos_lru ops) (info_hashes s) h = None \<and> lru_iter (peers_lru ops) l = []"
proof (cases "lru_get_mut (infos_lru ops) (info_hashes s) h (\<lambda>l. snd (lru_put (peers_lru ops) l rid a))")
  case None
  let ?l = "lru_new (peers_lru ops) (max_peers s)"
  have "lru_lookup (infos_lru ops) (info_hashes s) h = None" using None infos.get_mut_None by metis
  then show ?thesis
    by (intro that [of "snd (lru_put (infos_lru ops) (info_hashes s) h (snd (lru_put (peers_lru ops) ?l rid a)))" ?l])
      (use assms infos.put_entries in \<open>simp_all add: add_peer_def None infos_facts peers_facts peers_ok_def infos.put_lookup\<close>)
next
  case (Some c)
  obtain l where l: "lru_lookup (infos_lru ops) (info_hashes s) h = Some l" "lru_cap (infos_lru ops) c = lru_cap (infos_lru ops) (info_hashes s)"
    "lru_iter (infos_lru ops) c = (h, snd (lru_put (peers_lru ops) l rid a)) # without h (lru_iter (infos_lru ops) (info_hashes s))"
    by (rule infos.get_mut_Some [OF Some])
  have ok: "lru_ok (infos_lru ops) (info_hashes s)" using assms by (simp add: peers_ok_def)
  have "h \<in> fst ` set (lru_iter (infos_lru ops) (info_hashes s))"
    using l(1) unfolding lru_lookup_def by (metis domI dom_map_of_conv_image_fst)
  then have "lru_ok (infos_lru ops) c"
    using ok infos.without_length infos.without_fst [of h "lru_iter (infos_lru ops) (info_hashes s)"] infos.without_distinct
    by (fastforce simp: lru_ok_def l(2,3))
  then show ?thesis
    by (intro that [of c l]) (use l inner [OF assms l(1)] in \<open>auto simp: add_peer_def Some lru_lookup_def without_def\<close>)
qed

lemma ok_add: "peers_ok ops s \<Longrightarrow> peers_ok ops (add_peer ops s h (rid, a))"
proof -
  assume ok: "peers_ok ops s"
  then obtain l c where c: "add_peer ops s h (rid, a) = s\<lparr>info_hashes := c\<rparr>" "lru_ok (peers_lru ops) l" "lru_cap (peers_lru ops) l = max_peers s"
    "lru_cap (infos_lru ops) c = lru_cap (infos_lru ops) (info_hashes s)" "lru_ok (infos_lru ops) c"
    "set (lru_iter (infos_lru ops) c) \<subseteq> insert (h, snd (lru_put (peers_lru ops) l rid a)) (set (lru_iter (infos_lru ops) (info_hashes s)))"
    by (rule add_peer_cases [where h = h and rid = rid and a = a])
  then show "peers_ok ops (add_peer ops s h (rid, a))" using ok by (fastforce simp: peers_ok_def list_all_iff peers_facts)
qed

lemma add_peer_found: "peers_ok ops s \<Longrightarrow> map_of (peers_of ops (add_peer ops s h (rid, a)) h) rid = Some a"
proof -
  assume ok: "peers_ok ops s"
  then obtain l c where c: "add_peer ops s h (rid, a) = s\<lparr>info_hashes := c\<rparr>" "lru_cap (peers_lru ops) l = max_peers s"
    "lru_lookup (infos_lru ops) c h = Some (snd (lru_put (peers_lru ops) l rid a))"
    by (rule add_peer_cases [where h = h and rid = rid and a = a])
  have "lru_lookup (peers_lru ops) (snd (lru_put (peers_lru ops) l rid a)) rid = Some a"
    using ok c(2) by (intro peers_facts(3)) (simp add: peers_ok_def)
  then show ?thesis by (simp add: peers_of_def c lru_lookup_def [of "peers_lru ops"])
qed

lemma ok_random: "peers_ok ops s \<Longrightarrow> peers_ok ops (fst (snd (get_random_peers ops r s h)))"
  by (auto simp: get_random_peers_def peers_ok_def infos_facts case_prod_beta Let_def split: option.split)

lemma peers_bounded:
  assumes "peers_ok ops s"
  shows "distinct (map fst (peers_of ops s h))" "length (peers_of ops s h) \<le> max_peers s"
proof -
  have "distinct (map fst (peers_of ops s h)) \<and> length (peers_of ops s h) \<le> max_peers s"
  proof (cases "lru_lookup (infos_lru ops) (info_hashes s) h")
    case (Some l)
    then show ?thesis using inner [OF assms Some] by (simp add: peers_of_def lru_ok_def)
  qed (simp add: peers_of_def)
  then show "distinct (map fst (peers_of ops s h))" "length (peers_of ops s h) \<le> max_peers s" by blast+
qed

end

section \<open>Main properties\<close>

text \<open>The peers that \<open>get_random_peers\<close> returns for an info hash, whatever the random bytes are:
  none when no peer is stored, all of them when there are fewer than ten, and otherwise at most ten of
  them, without repetition and in the order of the cache.\<close>

theorem get_random_peers_returns:
  assumes "lru_cache (infos_lru ops)" "lru_cache (peers_lru ops)"
  shows "case lru_lookup (infos_lru ops) (info_hashes s) h of
      None \<Rightarrow> fst (get_random_peers ops r s h) = None
    | Some l \<Rightarrow>
        (let addrs = map snd (lru_iter (peers_lru ops) l)
         in if addrs = [] then fst (get_random_peers ops r s h) = None
            else if length addrs < 10 then fst (get_random_peers ops r s h) = Some addrs
            else \<exists>res. fst (get_random_peers ops r s h) = Some res \<and> subseq res addrs \<and> length res \<le> 10)"
proof -
  have found: "fst (lru_get (infos_lru ops) (info_hashes s) h) = lru_lookup (infos_lru ops) (info_hashes s) h"
    by (rule lru_cache.get_result [OF assms(1)])
  have len: "lru_len (peers_lru ops) l = length (lru_iter (peers_lru ops) l)" for l
    by (rule lru_cache.len [OF assms(2)])
  show ?thesis
  proof (cases "lru_lookup (infos_lru ops) (info_hashes s) h")
    case None
    then show ?thesis using found by (auto simp: get_random_peers_def split: prod.splits)
  next
    case (Some l)
    let ?addrs = "map snd (lru_iter (peers_lru ops) l)"
    let ?chunk = "rng_take (length (lru_iter (peers_lru ops) l) * 4) r"
    obtain sel where "select_peers 10 (length ?addrs) ?chunk 0 [] ?addrs = sel" "subseq sel ?addrs" "length sel \<le> 10"
      using select_peers_shape [of "[]" 10 "length ?addrs" ?chunk 0 ?addrs] by auto
    then show ?thesis using found Some len by (auto simp: get_random_peers_def Let_def split: prod.splits)
  qed
qed

definition wit_lrus :: "(nat \<times> (id \<times> sock_addr) list, nat \<times> (id \<times> nat \<times> (id \<times> sock_addr) list) list) peer_lrus" where
  "wit_lrus = \<lparr>peers_lru = list_lru, infos_lru = list_lru\<rparr>"

lemma wit_lrus_caches: "lru_cache (infos_lru wit_lrus)" "lru_cache (peers_lru wit_lrus)"
  by (simp_all add: wit_lrus_def list_lru.lru_cache_axioms)

interpretation list_peers: peer_caches wit_lrus
  by (rule peer_caches.intro) (rule wit_lrus_caches)+

lemma wit_lrus_simps:
  "lru_iter (peers_lru wit_lrus) = snd" "lru_iter (infos_lru wit_lrus) = snd" "lru_new (peers_lru wit_lrus) n = (n, [])"
  "lru_new (infos_lru wit_lrus) n = (n, [])" "lru_get_mut (infos_lru wit_lrus) (n, []) h f = None"
  "lru_put (peers_lru wit_lrus) (n, []) h p = (None, (n, take n [(h, p)]))"
  "lru_put (infos_lru wit_lrus) (n, []) h l = (None, (n, take n [(h, l)]))"
  by (simp_all add: wit_lrus_def list_lru_def without_def)

theorem get_random_peers_returns_witness:
  "fst (get_random_peers wit_lrus (\<lambda>_. 0)
      (add_peer wit_lrus (peers_new wit_lrus 5 5) (id_of []) (id_of [], sock_addr_new 1 2)) (id_of [])) =
     Some [sock_addr_new 1 2]"
  using get_random_peers_returns [OF wit_lrus_caches, where h = "id_of []" and r = "\<lambda>_. 0" and
      s = "add_peer wit_lrus (peers_new wit_lrus 5 5) (id_of []) (id_of [], sock_addr_new 1 2)"]
  by (simp add: add_peer_def peers_new_def lru_lookup_def wit_lrus_simps)

text \<open>Ten results are not guaranteed however many peers are stored: when the random bytes are all
  255 the selection of an info hash with ten or more peers is empty, since the greatest chance is
  \<open>u32::MAX\<close> and a random integer has to be below it.\<close>

theorem get_random_peers_may_be_empty:
  assumes "lru_cache (infos_lru ops)" "lru_cache (peers_lru ops)"
    "lru_lookup (infos_lru ops) (info_hashes s) h = Some l" "10 \<le> length (lru_iter (peers_lru ops) l)"
  shows "fst (get_random_peers ops (\<lambda>_. 255) s h) = Some []"
proof -
  let ?n = "length (lru_iter (peers_lru ops) l)"
  have "rand_int (rng_take (?n * 4) (\<lambda>_. 255)) j = U32_MAX" if "j < 0 + length (map snd (lru_iter (peers_lru ops) l))" for j
    using that assms(4) by (simp add: rand_int_def U32_MAX_def rng_take_def)
  then have "select_peers 10 ?n (rng_take (?n * 4) (\<lambda>_. 255)) 0 [] (map snd (lru_iter (peers_lru ops) l)) = []"
    by (rule select_peers_none)
  then show ?thesis
    using assms(3,4) lru_cache.get_result [OF assms(1), of "info_hashes s" h] lru_cache.len [OF assms(2), of l]
    by (auto simp: get_random_peers_def Let_def split: prod.splits)
qed

theorem get_random_peers_may_be_empty_witness:
  "fst (get_random_peers wit_lrus (\<lambda>_. 255)
     \<lparr>info_hashes = (5, [(id_of [], (20, map (\<lambda>i. (id_of (replicate 20 (of_nat i)), sock_addr_new (of_nat i) 1)) [0..<12]))]), max_peers = 20\<rparr>
     (id_of [])) = Some []"
  by (rule get_random_peers_may_be_empty [OF wit_lrus_caches])
    (simp add: lru_lookup_def wit_lrus_simps, simp add: wit_lrus_simps)

end
