(* ===== verification/Server.thy ===== *)
theory Server
  imports Message_Codec Routing_Table Tokens Peers
begin

text \<open>
  The server of a node, from \<^verbatim>\<open>src/src/rpc/server.rs\<close>: it answers every request from the routing table, the peers store
  and two caches of items, and stores only what comes with a valid token and passes the checks of
  BEP 44. The theorems give the answers and the state changes of each kind of put request, the
  invariant of the stores over all requests, and that a stored item is served. Logging is left out.
\<close>

section \<open>State\<close>

definition MAX_INFO_HASHES :: nat where "MAX_INFO_HASHES = 2000"

definition MAX_PEERS :: nat where "MAX_PEERS = 500"

definition MAX_VALUES :: nat where "MAX_VALUES = 1000"

record ('pc, 'ic, 'im, 'mu) stores =
  st_peers :: "('pc, 'ic) peer_lrus"
  st_immutable :: "(id, bytes, 'im) lru_ops"
  st_mutable :: "(id, mutable_item, 'mu) lru_ops"

type_synonym request_filter = "request_specific \<Rightarrow> sock_addr \<Rightarrow> bool"

definition default_filter :: request_filter where
  "default_filter request from_addr = True"

record ('ic, 'im, 'mu) server =
  srv_tokens :: tokens
  srv_peers :: "'ic peers_store"
  immutable_values :: 'im
  mutable_values :: 'mu
  srv_filter :: request_filter

record server_settings =
  max_info_hashes :: nat
  max_peers_per_info_hash :: nat
  max_immutable_values :: nat
  max_mutable_values :: nat
  settings_filter :: request_filter

definition server_settings_default :: server_settings where
  "server_settings_default =
     \<lparr>max_info_hashes = MAX_INFO_HASHES, max_peers_per_info_hash = MAX_PEERS,
      max_immutable_values = MAX_VALUES, max_mutable_values = MAX_VALUES, settings_filter = default_filter\<rparr>"

text \<open>\<open>NonZeroUsize::new(n).unwrap_or(d)\<close>.\<close>

definition non_zero_or :: "nat \<Rightarrow> nat \<Rightarrow> nat" where
  "non_zero_or n d = (if n = 0 then d else n)"

definition server_new ::
  "('pc, 'ic, 'im, 'mu) stores \<Rightarrow> instant \<Rightarrow> rng \<Rightarrow> server_settings \<Rightarrow> ('ic, 'im, 'mu) server \<times> rng" where
  "server_new st now r settings =
     (let (tokens, r') = tokens_new now r
      in (\<lparr>srv_tokens = tokens,
           srv_peers = peers_new (st_peers st) (non_zero_or (max_info_hashes settings) MAX_INFO_HASHES)
             (non_zero_or (max_peers_per_info_hash settings) MAX_PEERS),
           immutable_values = lru_new (st_immutable st) (non_zero_or (max_immutable_values settings) MAX_VALUES),
           mutable_values = lru_new (st_mutable st) (non_zero_or (max_mutable_values settings) MAX_VALUES),
           srv_filter = settings_filter settings\<rparr>, r'))"

section \<open>Answers\<close>

definition error_answer :: "i32 \<Rightarrow> string \<Rightarrow> message_type" where
  "error_answer code description = ErrorMessage \<lparr>err_code = code, err_description = ascii description\<rparr>"

definition ping_answer :: "routing_table \<Rightarrow> message_type" where
  "ping_answer rt = Response (PingResponse \<lparr>png_responder_id = rt_id rt\<rparr>)"

definition handle_get_mutable ::
  "crc32c \<Rightarrow> ('pc, 'ic, 'im, 'mu) stores \<Rightarrow> routing_table \<Rightarrow> sock_addr \<Rightarrow> id \<Rightarrow> i64 option \<Rightarrow>
     ('ic, 'im, 'mu) server \<Rightarrow> response_specific \<times> ('ic, 'im, 'mu) server" where
  "handle_get_mutable crc st rt from_addr target seq srv =
     (let (found, c) = lru_get (st_mutable st) (mutable_values srv) target;
          srv' = srv\<lparr>mutable_values := c\<rparr>;
          tok = generate_token crc (srv_tokens srv) from_addr;
          nodes = Some (rt_closest crc rt target)
      in case found of
           Some item \<Rightarrow>
             (case map_option (\<lambda>request_seq. mi_seq item \<le> request_seq) seq of
                Some True \<Rightarrow>
                  (NoMoreRecentResponse \<lparr>nmr_responder_id = rt_id rt, nmr_token = tok, nmr_nodes = nodes, nmr_seq = mi_seq item\<rparr>, srv')
              | _ \<Rightarrow>
                  (GetMutableResponse \<lparr>gmr_responder_id = rt_id rt, gmr_token = tok, gmr_nodes = nodes, gmr_v = mi_value item,
                     gmr_k = mi_key item, gmr_seq = mi_seq item, gmr_sig = mi_signature item\<rparr>, srv'))
         | None \<Rightarrow> (NoValuesResponse \<lparr>nvr_responder_id = rt_id rt, nvr_token = tok, nvr_nodes = nodes\<rparr>, srv'))"

definition handle_announce_peer ::
  "crc32c \<Rightarrow> ('pc, 'ic, 'im, 'mu) stores \<Rightarrow> routing_table \<Rightarrow> sock_addr \<Rightarrow> id \<Rightarrow> bytes \<Rightarrow> announce_peer_args \<Rightarrow>
     ('ic, 'im, 'mu) server \<Rightarrow> message_type \<times> ('ic, 'im, 'mu) server" where
  "handle_announce_peer crc st rt from_addr rid token a srv =
     (if \<not> tokens_validate crc (srv_tokens srv) from_addr token then (error_answer 203 ''Bad token'', srv)
      else let peer = (case ap_implied_port a of
                 Some True \<Rightarrow> from_addr | _ \<Rightarrow> sock_addr_new (sa_ip from_addr) (ap_port a))
           in (ping_answer rt, srv\<lparr>srv_peers := add_peer (st_peers st) (srv_peers srv) (ap_info_hash a) (rid, peer)\<rparr>))"

definition handle_put_immutable ::
  "crc32c \<Rightarrow> crypto \<Rightarrow> ('pc, 'ic, 'im, 'mu) stores \<Rightarrow> routing_table \<Rightarrow> sock_addr \<Rightarrow> bytes \<Rightarrow> put_immutable_args \<Rightarrow>
     ('ic, 'im, 'mu) server \<Rightarrow> message_type \<times> ('ic, 'im, 'mu) server" where
  "handle_put_immutable crc cr st rt from_addr token a srv =
     (if \<not> tokens_validate crc (srv_tokens srv) from_addr token then (error_answer 203 ''Bad token'', srv)
      else if 1000 < length (pi_v a) then (error_answer 205 ''Message (v field) too big.'', srv)
      else if \<not> validate_immutable cr (pi_v a) (pi_target a)
      then (error_answer 203 ''Target doesn't match the sha1 hash of v field'', srv)
      else (ping_answer rt,
            srv\<lparr>immutable_values := snd (lru_put (st_immutable st) (immutable_values srv) (pi_target a) (pi_v a))\<rparr>))"

text \<open>The end of a mutable put: the signature check and the insertion.\<close>

definition store_mutable ::
  "crypto \<Rightarrow> ('pc, 'ic, 'im, 'mu) stores \<Rightarrow> routing_table \<Rightarrow> put_mutable_args \<Rightarrow>
     ('ic, 'im, 'mu) server \<Rightarrow> message_type \<times> ('ic, 'im, 'mu) server" where
  "store_mutable cr st rt a srv =
     (case from_dht_message cr (pm_target a) (pm_k a) (pm_v a) (pm_seq a) (pm_sig a) (pm_salt a) of
        Inr item \<Rightarrow>
          (ping_answer rt,
           srv\<lparr>mutable_values := snd (lru_put (st_mutable st) (mutable_values srv) (pm_target a) item)\<rparr>)
      | Inl _ \<Rightarrow> (error_answer 206 ''Invalid signature'', srv))"

definition handle_put_mutable ::
  "crc32c \<Rightarrow> crypto \<Rightarrow> ('pc, 'ic, 'im, 'mu) stores \<Rightarrow> routing_table \<Rightarrow> sock_addr \<Rightarrow> bytes \<Rightarrow> put_mutable_args \<Rightarrow>
     ('ic, 'im, 'mu) server \<Rightarrow> message_type \<times> ('ic, 'im, 'mu) server" where
  "handle_put_mutable crc cr st rt from_addr token a srv =
     (if \<not> tokens_validate crc (srv_tokens srv) from_addr token then (error_answer 203 ''Bad token'', srv)
      else if 1000 < length (pm_v a) then (error_answer 205 ''Message (v field) too big.'', srv)
      else if (case pm_salt a of Some salt \<Rightarrow> 64 < length salt | None \<Rightarrow> False)
      then (error_answer 207 ''salt (salt field) too big.'', srv)
      else let (previous, c) = lru_get (st_mutable st) (mutable_values srv) (pm_target a);
               srv' = srv\<lparr>mutable_values := c\<rparr>
           in case (previous, pm_cas a) of
                (Some prev, Some cas) \<Rightarrow>
                  if mi_seq prev \<noteq> cas then (error_answer 301 ''CAS mismatched, re-read value and try again.'', srv')
                  else if pm_seq a < mi_seq prev then (error_answer 302 ''Sequence number less than current.'', srv')
                  else store_mutable cr st rt a srv'
              | (Some prev, None) \<Rightarrow>
                  if pm_seq a < mi_seq prev then (error_answer 302 ''Sequence number less than current.'', srv')
                  else store_mutable cr st rt a srv'
              | (None, _) \<Rightarrow> store_mutable cr st rt a srv')"

section \<open>Requests\<close>

definition handle_get_value ::
  "crc32c \<Rightarrow> ('pc, 'ic, 'im, 'mu) stores \<Rightarrow> routing_table \<Rightarrow> sock_addr \<Rightarrow> get_value_request_args \<Rightarrow>
     ('ic, 'im, 'mu) server \<Rightarrow> message_type \<times> ('ic, 'im, 'mu) server" where
  "handle_get_value crc st rt from_addr a srv =
     (if gvq_seq a \<noteq> None
      then let (resp, srv') = handle_get_mutable crc st rt from_addr (gvq_target a) (gvq_seq a) srv in (Response resp, srv')
      else let (found, c) = lru_get (st_immutable st) (immutable_values srv) (gvq_target a);
               srv1 = srv\<lparr>immutable_values := c\<rparr>
           in case found of
                Some v \<Rightarrow>
                  (Response (GetImmutableResponse \<lparr>gir_responder_id = rt_id rt,
                     gir_token = generate_token crc (srv_tokens srv1) from_addr,
                     gir_nodes = Some (rt_closest crc rt (gvq_target a)), gir_v = v\<rparr>), srv1)
              | None \<Rightarrow>
                  let (resp, srv') = handle_get_mutable crc st rt from_addr (gvq_target a) (gvq_seq a) srv1
                  in (Response resp, srv'))"

definition handle_get_peers ::
  "crc32c \<Rightarrow> ('pc, 'ic, 'im, 'mu) stores \<Rightarrow> rng \<Rightarrow> routing_table \<Rightarrow> sock_addr \<Rightarrow> id \<Rightarrow>
     ('ic, 'im, 'mu) server \<Rightarrow> message_type \<times> ('ic, 'im, 'mu) server \<times> rng" where
  "handle_get_peers crc st r rt from_addr info_hash srv =
     (let (found, ps, r') = get_random_peers (st_peers st) r (srv_peers srv) info_hash;
          srv' = srv\<lparr>srv_peers := ps\<rparr>;
          tok = generate_token crc (srv_tokens srv) from_addr;
          nodes = Some (rt_closest crc rt info_hash)
      in (Response (case found of
            Some peers \<Rightarrow>
              GetPeersResponse \<lparr>gpr_responder_id = rt_id rt, gpr_token = tok, gpr_values = peers, gpr_nodes = nodes\<rparr>
          | None \<Rightarrow> NoValuesResponse \<lparr>nvr_responder_id = rt_id rt, nvr_token = tok, nvr_nodes = nodes\<rparr>), srv', r'))"

definition handle_put ::
  "crc32c \<Rightarrow> crypto \<Rightarrow> ('pc, 'ic, 'im, 'mu) stores \<Rightarrow> routing_table \<Rightarrow> sock_addr \<Rightarrow> id \<Rightarrow> put_request \<Rightarrow>
     ('ic, 'im, 'mu) server \<Rightarrow> message_type \<times> ('ic, 'im, 'mu) server" where
  "handle_put crc cr st rt from_addr rid p srv =
     (case put_request_type p of
        AnnouncePeer a \<Rightarrow> handle_announce_peer crc st rt from_addr rid (put_token p) a srv
      | PutImmutable a \<Rightarrow> handle_put_immutable crc cr st rt from_addr (put_token p) a srv
      | PutMutable a \<Rightarrow> handle_put_mutable crc cr st rt from_addr (put_token p) a srv)"

definition server_handle_request ::
  "crc32c \<Rightarrow> crypto \<Rightarrow> ('pc, 'ic, 'im, 'mu) stores \<Rightarrow> instant \<Rightarrow> rng \<Rightarrow> routing_table \<Rightarrow> sock_addr \<Rightarrow> request_specific \<Rightarrow>
     ('ic, 'im, 'mu) server \<Rightarrow> message_type option \<times> ('ic, 'im, 'mu) server \<times> rng" where
  "server_handle_request crc cr st now r rt from_addr request srv0 =
     (if \<not> srv_filter srv0 request from_addr then (None, srv0, r)
      else let (tokens, r') = tokens_refresh now r (srv_tokens srv0); srv = srv0\<lparr>srv_tokens := tokens\<rparr>
           in case request_type request of
                PingRequest \<Rightarrow> (Some (ping_answer rt), srv, r')
              | FindNodeRequest a \<Rightarrow>
                  (Some (Response (FindNodeResponse
                     \<lparr>fnr_responder_id = rt_id rt, fnr_nodes = rt_closest crc rt (fnq_target a)\<rparr>)), srv, r')
              | GetPeersRequest a \<Rightarrow>
                  (let (ans, srv', r'') = handle_get_peers crc st r' rt from_addr (gpq_info_hash a) srv in (Some ans, srv', r''))
              | GetValueRequest a \<Rightarrow>
                  (let (ans, srv') = handle_get_value crc st rt from_addr a srv in (Some ans, srv', r'))
              | PutRequestOf p \<Rightarrow>
                  (let (ans, srv') = handle_put crc cr st rt from_addr (requester_id request) p srv in (Some ans, srv', r')))"

section \<open>The invariant of the stores\<close>

definition stores_ok :: "('pc, 'ic, 'im, 'mu) stores \<Rightarrow> bool" where
  "stores_ok st \<longleftrightarrow> lru_cache (infos_lru (st_peers st)) \<and> lru_cache (peers_lru (st_peers st)) \<and>
     lru_cache (st_immutable st) \<and> lru_cache (st_mutable st)"

definition immutable_ok :: "crypto \<Rightarrow> id \<times> bytes \<Rightarrow> bool" where
  "immutable_ok cr p \<longleftrightarrow> validate_immutable cr (snd p) (fst p) \<and> length (snd p) \<le> 1000"

definition mutable_ok :: "crypto \<Rightarrow> id \<times> mutable_item \<Rightarrow> bool" where
  "mutable_ok cr p \<longleftrightarrow>
     (let item = snd p
      in from_dht_message cr (fst p) (mi_key item) (mi_value item) (mi_seq item) (mi_signature item) (mi_salt item) = Inr item \<and>
         length (mi_value item) \<le> 1000 \<and> (case mi_salt item of Some salt \<Rightarrow> length salt \<le> 64 | None \<Rightarrow> True))"

definition server_inv :: "crypto \<Rightarrow> ('pc, 'ic, 'im, 'mu) stores \<Rightarrow> ('ic, 'im, 'mu) server \<Rightarrow> bool" where
  "server_inv cr st srv \<longleftrightarrow>
     lru_ok (st_immutable st) (immutable_values srv) \<and> lru_ok (st_mutable st) (mutable_values srv) \<and>
     0 < lru_cap (st_immutable st) (immutable_values srv) \<and> 0 < lru_cap (st_mutable st) (mutable_values srv) \<and>
     list_all (immutable_ok cr) (lru_iter (st_immutable st) (immutable_values srv)) \<and>
     list_all (mutable_ok cr) (lru_iter (st_mutable st) (mutable_values srv))"

text \<open>How an operation may change the two caches of items: nothing, a lookup, or an insertion.\<close>

definition imm_after :: "('pc, 'ic, 'im, 'mu) stores \<Rightarrow> crypto \<Rightarrow> 'im \<Rightarrow> 'im \<Rightarrow> bool" where
  "imm_after st cr c c' \<longleftrightarrow> c' = c \<or> (\<exists>k. c' = snd (lru_get (st_immutable st) c k)) \<or>
     (\<exists>p. immutable_ok cr p \<and> c' = snd (lru_put (st_immutable st) c (fst p) (snd p)))"

definition mut_after :: "('pc, 'ic, 'im, 'mu) stores \<Rightarrow> crypto \<Rightarrow> 'mu \<Rightarrow> 'mu \<Rightarrow> bool" where
  "mut_after st cr c c' \<longleftrightarrow> c' = c \<or> (\<exists>k. c' = snd (lru_get (st_mutable st) c k)) \<or>
     (\<exists>p. mutable_ok cr p \<and>
        (\<forall>prev. lru_lookup (st_mutable st) c (fst p) = Some prev \<longrightarrow> mi_seq prev \<le> mi_seq (snd p)) \<and>
        c' = snd (lru_put (st_mutable st) (snd (lru_get (st_mutable st) c (fst p))) (fst p) (snd p)))"

lemma imm_after_inv:
  assumes "lru_cache (st_immutable st)" "imm_after st cr c c'"
    "lru_ok (st_immutable st) c" "0 < lru_cap (st_immutable st) c" "list_all (immutable_ok cr) (lru_iter (st_immutable st) c)"
  shows "lru_ok (st_immutable st) c' \<and> 0 < lru_cap (st_immutable st) c' \<and> list_all (immutable_ok cr) (lru_iter (st_immutable st) c')"
proof -
  note facts = lru_cache.ok_get [OF assms(1)] lru_cache.ok_put [OF assms(1)] lru_cache.get_cap [OF assms(1)]
    lru_cache.put_cap [OF assms(1)] lru_cache.get_all [OF assms(1)] lru_cache.put_all [OF assms(1)]
  show ?thesis using assms(2-) unfolding imm_after_def
    by (elim disjE exE conjE) (simp_all add: facts)
qed

lemma mut_after_inv:
  assumes "lru_cache (st_mutable st)" "mut_after st cr c c'"
    "lru_ok (st_mutable st) c" "0 < lru_cap (st_mutable st) c" "list_all (mutable_ok cr) (lru_iter (st_mutable st) c)"
  shows "lru_ok (st_mutable st) c' \<and> 0 < lru_cap (st_mutable st) c' \<and> list_all (mutable_ok cr) (lru_iter (st_mutable st) c')"
proof -
  note facts = lru_cache.ok_get [OF assms(1)] lru_cache.ok_put [OF assms(1)] lru_cache.get_cap [OF assms(1)]
    lru_cache.put_cap [OF assms(1)] lru_cache.get_all [OF assms(1)] lru_cache.put_all [OF assms(1)]
  show ?thesis using assms(2-) unfolding mut_after_def
    by (elim disjE exE conjE) (simp_all add: facts)
qed

text \<open>Every request changes the caches in these ways only.\<close>

lemma store_mutable_after:
  assumes "length (pm_v a) \<le> 1000" "\<not> (case pm_salt a of Some salt \<Rightarrow> 64 < length salt | None \<Rightarrow> False)"
    and "\<forall>prev. lru_lookup (st_mutable st) c (pm_target a) = Some prev \<longrightarrow> mi_seq prev \<le> pm_seq a"
    and "mutable_values srv = snd (lru_get (st_mutable st) c (pm_target a))"
  shows "mut_after st cr c (mutable_values (snd (store_mutable cr st rt a srv)))"
proof (cases "from_dht_message cr (pm_target a) (pm_k a) (pm_v a) (pm_seq a) (pm_sig a) (pm_salt a)")
  case (Inl e)
  then show ?thesis using assms(4) by (auto simp: store_mutable_def mut_after_def)
next
  case (Inr item)
  then have "item = \<lparr>mi_target = pm_target a, mi_key = pm_k a, mi_seq = pm_seq a, mi_value = pm_v a,
      mi_signature = pm_sig a, mi_salt = pm_salt a\<rparr>"
    by (simp add: from_dht_message_def split: if_splits)
  then have "mutable_ok cr (pm_target a, item)" and seq: "mi_seq item = pm_seq a"
    using Inr assms(1,2) by (auto simp: mutable_ok_def Let_def split: option.splits)
  then have "mut_after st cr c (snd (lru_put (st_mutable st) (snd (lru_get (st_mutable st) c (pm_target a))) (pm_target a) item))"
    unfolding mut_after_def using assms(3) by (metis fst_conv snd_conv)
  then show ?thesis using Inr assms(4) by (simp add: store_mutable_def)
qed

lemma handle_put_mutable_after:
  assumes "lru_cache (st_mutable st)"
  shows "mut_after st cr (mutable_values srv) (mutable_values (snd (handle_put_mutable crc cr st rt from_addr token a srv)))"
proof -
  obtain previous c where g: "lru_get (st_mutable st) (mutable_values srv) (pm_target a) = (previous, c)" by fastforce
  have prev: "previous = lru_lookup (st_mutable st) (mutable_values srv) (pm_target a)"
    using lru_cache.get_result [OF assms, of "mutable_values srv" "pm_target a"] g by simp
  have refl: "mut_after st cr (mutable_values srv) (mutable_values srv)" by (simp add: mut_after_def)
  have got: "mut_after st cr (mutable_values srv) c" unfolding mut_after_def using g by (metis snd_conv)
  have store: "mut_after st cr (mutable_values srv) (mutable_values (snd (store_mutable cr st rt a (srv\<lparr>mutable_values := c\<rparr>))))"
    if "length (pm_v a) \<le> 1000" "\<not> (case pm_salt a of Some salt \<Rightarrow> 64 < length salt | None \<Rightarrow> False)"
      "\<forall>prev. previous = Some prev \<longrightarrow> mi_seq prev \<le> pm_seq a"
    using store_mutable_after [of a st "mutable_values srv" "srv\<lparr>mutable_values := c\<rparr>" cr rt] that prev g by simp
  show ?thesis
    unfolding handle_put_mutable_def g Let_def prod.case
    using refl got store
    by (cases previous; cases "pm_cas a"; cases "pm_salt a") (auto split del: if_split split: if_splits)
qed

lemma after_refl [simp]: "imm_after st cr c c" "mut_after st cr d d"
  by (simp_all add: imm_after_def mut_after_def)

lemma after_get [simp]:
  "imm_after st cr c (snd (lru_get (st_immutable st) c k))" "mut_after st cr d (snd (lru_get (st_mutable st) d k))"
  unfolding imm_after_def mut_after_def by blast+

lemma handle_get_mutable_after [simp]:
  "snd (handle_get_mutable crc st rt from_addr target seq srv) =
     srv\<lparr>mutable_values := snd (lru_get (st_mutable st) (mutable_values srv) target)\<rparr>"
  unfolding handle_get_mutable_def by (auto simp: Let_def split: prod.splits option.splits bool.splits)

lemma handle_get_value_after:
  "imm_after st cr (immutable_values srv) (immutable_values (snd (handle_get_value crc st rt from_addr a srv)))"
  "mut_after st cr (mutable_values srv) (mutable_values (snd (handle_get_value crc st rt from_addr a srv)))"
  unfolding handle_get_value_def by (simp_all add: case_prod_beta Let_def split: option.split)

lemma handle_put_immutable_after:
  "imm_after st cr (immutable_values srv) (immutable_values (snd (handle_put_immutable crc cr st rt from_addr token a srv)))"
proof -
  have "imm_after st cr c (snd (lru_put (st_immutable st) c (pi_target a) (pi_v a)))"
    if "\<not> 1000 < length (pi_v a)" "validate_immutable cr (pi_v a) (pi_target a)" for c
    unfolding imm_after_def using that by (metis fst_conv immutable_ok_def linorder_not_less snd_conv)
  then show ?thesis by (simp add: handle_put_immutable_def)
qed

lemma other_caches_same:
  "mutable_values (snd (handle_put_immutable crc cr st rt from_addr token ia srv)) = mutable_values srv"
  "immutable_values (snd (handle_put_mutable crc cr st rt from_addr token pm srv)) = immutable_values srv"
  "mutable_values (snd (handle_announce_peer crc st rt from_addr rid token ap srv)) = mutable_values srv"
  "immutable_values (snd (handle_announce_peer crc st rt from_addr rid token ap srv)) = immutable_values srv"
  by (simp_all add: handle_put_immutable_def handle_put_mutable_def handle_announce_peer_def store_mutable_def
      case_prod_beta Let_def split: option.split sum.split)

lemma handle_put_after:
  assumes "lru_cache (st_mutable st)"
  shows "imm_after st cr (immutable_values srv) (immutable_values (snd (handle_put crc cr st rt from_addr rid p srv)))"
    "mut_after st cr (mutable_values srv) (mutable_values (snd (handle_put crc cr st rt from_addr rid p srv)))"
  unfolding handle_put_def
  by (cases "put_request_type p";
      simp add: other_caches_same handle_put_immutable_after handle_put_mutable_after [OF assms])+

lemma request_after:
  assumes "stores_ok st"
  shows "imm_after st cr (immutable_values srv) (immutable_values (fst (snd (server_handle_request crc cr st now r rt from_addr request srv))))"
    "mut_after st cr (mutable_values srv) (mutable_values (fst (snd (server_handle_request crc cr st now r rt from_addr request srv))))"
proof -
  obtain tk r' where refresh: "tokens_refresh now r (srv_tokens srv) = (tk, r')" by fastforce
  have mut: "lru_cache (st_mutable st)" using assms by (simp add: stores_ok_def)
  let ?srv = "srv\<lparr>srv_tokens := tk\<rparr>"
  note after = handle_get_value_after [of st cr ?srv crc rt from_addr] handle_put_after [OF mut, of cr ?srv crc rt from_addr]
  show "imm_after st cr (immutable_values srv) (immutable_values (fst (snd (server_handle_request crc cr st now r rt from_addr request srv))))"
    unfolding server_handle_request_def refresh using after
    by (cases "request_type request") (simp_all add: case_prod_beta Let_def handle_get_peers_def)
  show "mut_after st cr (mutable_values srv) (mutable_values (fst (snd (server_handle_request crc cr st now r rt from_addr request srv))))"
    unfolding server_handle_request_def refresh using after
    by (cases "request_type request") (simp_all add: case_prod_beta Let_def handle_get_peers_def)
qed

lemma server_inv_request:
  "stores_ok st \<Longrightarrow> server_inv cr st srv \<Longrightarrow>
     server_inv cr st (fst (snd (server_handle_request crc cr st now r rt from_addr request srv)))"
  using imm_after_inv [OF _ request_after(1)] mut_after_inv [OF _ request_after(2)]
  unfolding server_inv_def stores_ok_def by metis

lemma server_inv_new: "stores_ok st \<Longrightarrow> server_inv cr st (fst (server_new st now r settings))"
  by (simp add: server_inv_def server_new_def stores_ok_def case_prod_beta Let_def lru_cache.new lru_cache.ok_new
      non_zero_or_def MAX_VALUES_def)

text \<open>The servers that a sequence of requests reaches, each with its own clock reading, random bytes,
  routing table and sender.\<close>

inductive server_reachable ::
  "crc32c \<Rightarrow> crypto \<Rightarrow> ('pc, 'ic, 'im, 'mu) stores \<Rightarrow> ('ic, 'im, 'mu) server \<Rightarrow> bool" for crc cr st where
  server_start: "server_reachable crc cr st (fst (server_new st now r settings))"
| server_request: "server_reachable crc cr st srv \<Longrightarrow>
    server_reachable crc cr st (fst (snd (server_handle_request crc cr st now r rt from_addr request srv)))"

lemma server_reachable_inv: "server_reachable crc cr st srv \<Longrightarrow> stores_ok st \<Longrightarrow> server_inv cr st srv"
  by (induction rule: server_reachable.induct) (auto intro: server_inv_new server_inv_request)

section \<open>What a request finds\<close>

lemma entry_ok:
  assumes "lru_cache ops" "list_all P (lru_iter ops c)" "fst (lru_get ops c k) = Some v"
  shows "P (k, v)"
proof -
  have "map_of (lru_iter ops c) k = Some v"
    using lru_cache.get_result [OF assms(1), of c k] assms(3) by (simp add: lru_lookup_def)
  then show ?thesis using assms(2) by (auto simp: list_all_iff dest: map_of_SomeD)
qed

lemma handle_get_value_immutable:
  assumes "fst (handle_get_value crc st rt from_addr a srv) = Response (GetImmutableResponse g)"
  shows "fst (lru_get (st_immutable st) (immutable_values srv) (gvq_target a)) = Some (gir_v g)"
  using assms
  by (auto simp: handle_get_value_def handle_get_mutable_def case_prod_beta Let_def split: if_splits option.splits bool.splits)

lemma handle_get_mutable_found:
  assumes "fst (handle_get_mutable crc st rt from_addr target seq srv) = GetMutableResponse g"
  shows "\<exists>item. fst (lru_get (st_mutable st) (mutable_values srv) target) = Some item \<and>
    gmr_v g = mi_value item \<and> gmr_k g = mi_key item \<and> gmr_seq g = mi_seq item \<and> gmr_sig g = mi_signature item"
  using assms
  by (auto simp: handle_get_mutable_def case_prod_beta Let_def split: option.splits bool.splits)

lemma handle_get_value_mutable:
  assumes "fst (handle_get_value crc st rt from_addr a srv) = Response (GetMutableResponse g)"
  shows "\<exists>item. fst (lru_get (st_mutable st) (mutable_values srv) (gvq_target a)) = Some item \<and>
    gmr_v g = mi_value item \<and> gmr_k g = mi_key item \<and> gmr_seq g = mi_seq item \<and> gmr_sig g = mi_signature item"
  using assms handle_get_mutable_found [of crc st rt from_addr "gvq_target a" "gvq_seq a"]
  by (fastforce simp: handle_get_value_def case_prod_beta Let_def split: if_splits option.splits)

lemma get_value_request_answer:
  assumes "request_type request = GetValueRequest a"
    "fst (server_handle_request crc cr st now r rt from_addr request srv) = Some ans"
  shows "\<exists>tk. ans = fst (handle_get_value crc st rt from_addr a (srv\<lparr>srv_tokens := tk\<rparr>))"
  using assms by (auto simp: server_handle_request_def case_prod_beta Let_def split: if_splits)

lemma ping_not_error [simp]: "ping_answer rt \<noteq> error_answer c d" "error_answer c d \<noteq> ping_answer rt"
  by (simp_all add: ping_answer_def error_answer_def)

lemma put_immutable_stored:
  assumes "lru_cache (st_immutable st)" "0 < lru_cap (st_immutable st) (immutable_values srv)"
    "fst (handle_put_immutable crc cr st rt from_addr token a srv) = ping_answer rt"
  shows "lru_lookup (st_immutable st) (immutable_values (snd (handle_put_immutable crc cr st rt from_addr token a srv))) (pi_target a) =
    Some (pi_v a)"
  using assms by (auto simp: handle_put_immutable_def lru_cache.put_lookup split: if_splits)

lemma store_mutable_stored:
  assumes "lru_cache (st_mutable st)" "0 < lru_cap (st_mutable st) (mutable_values srv)"
    "fst (store_mutable cr st rt a srv) = ping_answer rt"
  shows "lru_lookup (st_mutable st) (mutable_values (snd (store_mutable cr st rt a srv))) (pm_target a) =
    Some \<lparr>mi_target = pm_target a, mi_key = pm_k a, mi_seq = pm_seq a, mi_value = pm_v a, mi_signature = pm_sig a, mi_salt = pm_salt a\<rparr>"
  using assms
  by (auto simp: store_mutable_def lru_cache.put_lookup from_dht_message_def split: sum.splits if_splits)

lemma put_mutable_stored:
  assumes "lru_cache (st_mutable st)" "0 < lru_cap (st_mutable st) (mutable_values srv)"
    "fst (handle_put_mutable crc cr st rt from_addr token a srv) = ping_answer rt"
  shows "lru_lookup (st_mutable st) (mutable_values (snd (handle_put_mutable crc cr st rt from_addr token a srv))) (pm_target a) =
    Some \<lparr>mi_target = pm_target a, mi_key = pm_k a, mi_seq = pm_seq a, mi_value = pm_v a, mi_signature = pm_sig a, mi_salt = pm_salt a\<rparr>"
proof -
  obtain previous c where g: "lru_get (st_mutable st) (mutable_values srv) (pm_target a) = (previous, c)" by fastforce
  have "0 < lru_cap (st_mutable st) c" using lru_cache.get_cap [OF assms(1), of "mutable_values srv" "pm_target a"] g assms(2) by simp
  then have store: "fst (store_mutable cr st rt a (srv\<lparr>mutable_values := c\<rparr>)) = ping_answer rt \<Longrightarrow>
      lru_lookup (st_mutable st) (mutable_values (snd (store_mutable cr st rt a (srv\<lparr>mutable_values := c\<rparr>)))) (pm_target a) =
      Some \<lparr>mi_target = pm_target a, mi_key = pm_k a, mi_seq = pm_seq a, mi_value = pm_v a, mi_signature = pm_sig a, mi_salt = pm_salt a\<rparr>"
    by (intro store_mutable_stored [OF assms(1)]) simp_all
  show ?thesis using assms(3) store unfolding handle_put_mutable_def g Let_def prod.case
    by (cases previous; cases "pm_cas a"; cases "pm_salt a") (auto split: if_splits)
qed

lemma get_immutable_answer:
  assumes "lru_cache (st_immutable st)" "gvq_seq g = None"
    "lru_lookup (st_immutable st) (immutable_values srv) (gvq_target g) = Some v"
  shows "fst (handle_get_value crc st rt from_addr g srv) = Response (GetImmutableResponse
    \<lparr>gir_responder_id = rt_id rt, gir_token = generate_token crc (srv_tokens srv) from_addr,
     gir_nodes = Some (rt_closest crc rt (gvq_target g)), gir_v = v\<rparr>)"
  using assms lru_cache.get_result [OF assms(1), of "immutable_values srv" "gvq_target g"]
  by (simp add: handle_get_value_def case_prod_beta Let_def)

text \<open>What a get is answered when the item is there, given the sequence number that the asking node knows; and the answer of a get in full.\<close>

definition item_answer :: "id \<Rightarrow> bytes \<Rightarrow> node list option \<Rightarrow> i64 option \<Rightarrow> mutable_item \<Rightarrow> response_specific" where
  "item_answer rid tok nodes known item =
     (if (case known of Some s \<Rightarrow> mi_seq item \<le> s | None \<Rightarrow> False)
      then NoMoreRecentResponse \<lparr>nmr_responder_id = rid, nmr_token = tok, nmr_nodes = nodes, nmr_seq = mi_seq item\<rparr>
      else GetMutableResponse \<lparr>gmr_responder_id = rid, gmr_token = tok, gmr_nodes = nodes, gmr_v = mi_value item,
        gmr_k = mi_key item, gmr_seq = mi_seq item, gmr_sig = mi_signature item\<rparr>)"

lemma get_value_answer:
  assumes "stores_ok st"
  shows "\<exists>tok nodes. fst (handle_get_value crc st rt from_addr g srv) = Response (
    case (gvq_seq g, lru_lookup (st_immutable st) (immutable_values srv) (gvq_target g)) of
      (None, Some v) \<Rightarrow> GetImmutableResponse \<lparr>gir_responder_id = rt_id rt, gir_token = tok, gir_nodes = nodes, gir_v = v\<rparr>
    | _ \<Rightarrow> (case lru_lookup (st_mutable st) (mutable_values srv) (gvq_target g) of
        Some item \<Rightarrow> item_answer (rt_id rt) tok nodes (gvq_seq g) item
      | None \<Rightarrow> NoValuesResponse \<lparr>nvr_responder_id = rt_id rt, nvr_token = tok, nvr_nodes = nodes\<rparr>))"
proof -
  have c: "lru_cache (st_immutable st)" "lru_cache (st_mutable st)" using assms by (simp_all add: stores_ok_def)
  show ?thesis
    using lru_cache.get_result [OF c(1), of "immutable_values srv" "gvq_target g"]
      lru_cache.get_result [OF c(2), of "mutable_values srv" "gvq_target g"]
    by (intro exI [of _ "generate_token crc (srv_tokens srv) from_addr"] exI [of _ "Some (rt_closest crc rt (gvq_target g))"])
      (auto simp: handle_get_value_def handle_get_mutable_def item_answer_def case_prod_beta Let_def split: option.split bool.split)
qed

lemma put_request_split:
  assumes "request_type request = PutRequestOf p" "fst (server_handle_request crc cr st now r rt from_addr request srv) = Some ans"
  obtains tk where "ans = fst (handle_put crc cr st rt from_addr (requester_id request) p (srv\<lparr>srv_tokens := tk\<rparr>))"
    "fst (snd (server_handle_request crc cr st now r rt from_addr request srv)) =
       snd (handle_put crc cr st rt from_addr (requester_id request) p (srv\<lparr>srv_tokens := tk\<rparr>))"
  using assms by (auto simp: server_handle_request_def case_prod_beta Let_def split: if_splits)

lemma get_request_run:
  assumes "request_type request = GetValueRequest g" "srv_filter srv request from_addr"
  shows "fst (server_handle_request crc cr st now r rt from_addr request srv) =
    Some (fst (handle_get_value crc st rt from_addr g (srv\<lparr>srv_tokens := fst (tokens_refresh now r (srv_tokens srv))\<rparr>)))"
  using assms by (simp add: server_handle_request_def case_prod_beta Let_def)

section \<open>Main properties\<close>

text \<open>C15: whatever requests a server handled, from whomever, its caches of items hold only immutable
  values of at most 1000 bytes that hash to their target, and mutable items of at most 1000 bytes with
  a salt of at most 64 bytes that are correctly signed and belong to their target, at most one item
  per target and no more items than the capacity.\<close>

theorem server_stores_only_valid:
  "server_reachable crc cr st srv \<Longrightarrow> stores_ok st \<Longrightarrow> server_inv cr st srv"
  by (rule server_reachable_inv)

definition wit_stores :: "(nat \<times> (id \<times> sock_addr) list, nat \<times> (id \<times> nat \<times> (id \<times> sock_addr) list) list,
    nat \<times> (id \<times> bytes) list, nat \<times> (id \<times> mutable_item) list) stores" where
  "wit_stores = \<lparr>st_peers = wit_lrus, st_immutable = list_lru, st_mutable = list_lru\<rparr>"

lemma wit_stores_ok: "stores_ok wit_stores"
  by (simp add: stores_ok_def wit_stores_def wit_lrus_caches list_lru.lru_cache_axioms)

text \<open>A server never serves an unverified item: the value of a get-immutable answer hashes to the
  requested target, and a get-mutable answer carries a key, value, sequence number and signature that
  verify for that target with some salt.\<close>

theorem server_serves_only_valid:
  assumes "stores_ok st" "server_inv cr st srv" "request_type request = GetValueRequest a"
  shows "case fst (server_handle_request crc cr st now r rt from_addr request srv) of
      Some (Response (GetImmutableResponse g)) \<Rightarrow> validate_immutable cr (gir_v g) (gvq_target a)
    | Some (Response (GetMutableResponse g)) \<Rightarrow>
        (\<exists>salt item. from_dht_message cr (gvq_target a) (gmr_k g) (gmr_v g) (gmr_seq g) (gmr_sig g) salt = Inr item)
    | _ \<Rightarrow> True"
proof (cases "fst (server_handle_request crc cr st now r rt from_addr request srv)")
  case (Some ans)
  then obtain tk where ans: "ans = fst (handle_get_value crc st rt from_addr a (srv\<lparr>srv_tokens := tk\<rparr>))"
    using get_value_request_answer [OF assms(3)] by blast
  have caches: "lru_cache (st_immutable st)" "lru_cache (st_mutable st)" using assms(1) by (simp_all add: stores_ok_def)
  have inv: "list_all (immutable_ok cr) (lru_iter (st_immutable st) (immutable_values srv))"
    "list_all (mutable_ok cr) (lru_iter (st_mutable st) (mutable_values srv))"
    using assms(2) by (simp_all add: server_inv_def)
  have "validate_immutable cr (gir_v g) (gvq_target a)" if "ans = Response (GetImmutableResponse g)" for g
    using handle_get_value_immutable [of crc st rt from_addr a "srv\<lparr>srv_tokens := tk\<rparr>" g] that ans entry_ok [OF caches(1) inv(1)]
    by (simp add: immutable_ok_def)
  moreover have "\<exists>salt item. from_dht_message cr (gvq_target a) (gmr_k g) (gmr_v g) (gmr_seq g) (gmr_sig g) salt = Inr item"
    if "ans = Response (GetMutableResponse g)" for g
    using handle_get_value_mutable [of crc st rt from_addr a "srv\<lparr>srv_tokens := tk\<rparr>" g] that ans entry_ok [OF caches(2) inv(2)]
    by (fastforce simp: mutable_ok_def Let_def)
  ultimately show ?thesis using Some by (auto split: message_type.split response_specific.split)
qed simp

theorem server_serves_only_valid_witness:
  "case fst (server_handle_request (\<lambda>_. 0) wit_crypto wit_stores 0 (\<lambda>_. 0) (rt_new (id_of [])) (sock_addr_new 1 2)
        \<lparr>requester_id = id_of [], request_type = GetValueRequest \<lparr>gvq_target = id_of [], gvq_seq = None, gvq_salt = None\<rparr>\<rparr>
        (fst (server_new wit_stores 0 (\<lambda>_. 0) server_settings_default))) of
      Some (Response (GetImmutableResponse g)) \<Rightarrow> validate_immutable wit_crypto (gir_v g) (id_of [])
    | _ \<Rightarrow> True"
  using server_serves_only_valid [OF wit_stores_ok server_inv_new [OF wit_stores_ok, of wit_crypto 0 "\<lambda>_. 0" server_settings_default],
      where request = "\<lparr>requester_id = id_of [], request_type = GetValueRequest \<lparr>gvq_target = id_of [], gvq_seq = None, gvq_salt = None\<rparr>\<rparr>"
        and a = "\<lparr>gvq_target = id_of [], gvq_seq = None, gvq_salt = None\<rparr>" and crc = "\<lambda>_. 0" and now = 0 and r = "\<lambda>_. 0"
        and rt = "rt_new (id_of [])" and from_addr = "sock_addr_new 1 2"]
  by (simp split: option.splits message_type.splits response_specific.splits)

text \<open>C25: nothing is stored without a valid token: a put request of any kind whose token is not the
  sender's under one of the two current secrets is answered with error 203, and changes nothing but
  the secrets, if these were due for rotation.\<close>

theorem put_needs_valid_token:
  assumes "srv_filter srv request from_addr" "request_type request = PutRequestOf p"
    "\<not> tokens_validate crc (fst (tokens_refresh now r (srv_tokens srv))) from_addr (put_token p)"
  shows "server_handle_request crc cr st now r rt from_addr request srv =
    (Some (error_answer 203 ''Bad token''), srv\<lparr>srv_tokens := fst (tokens_refresh now r (srv_tokens srv))\<rparr>,
     snd (tokens_refresh now r (srv_tokens srv)))"
  using assms
  by (cases "put_request_type p")
    (simp_all add: server_handle_request_def handle_put_def handle_announce_peer_def handle_put_immutable_def
      handle_put_mutable_def case_prod_beta Let_def)

theorem put_needs_valid_token_witness:
  "fst (server_handle_request (\<lambda>_. 0) wit_crypto wit_stores 0 (\<lambda>_. 0) (rt_new (id_of [])) (sock_addr_new 1 2)
     \<lparr>requester_id = id_of [], request_type = PutRequestOf \<lparr>put_token = [1],
        put_request_type = PutImmutable \<lparr>pi_target = id_of [], pi_v = []\<rparr>\<rparr>\<rparr>
     (fst (server_new wit_stores 0 (\<lambda>_. 0) server_settings_default))) = Some (error_answer 203 ''Bad token'')"
  by (subst put_needs_valid_token [where p = "\<lparr>put_token = [1], put_request_type = PutImmutable \<lparr>pi_target = id_of [], pi_v = []\<rparr>\<rparr>"])
    (simp_all add: server_new_def server_settings_default_def default_filter_def tokens_validate_def Let_def
      internal_generate_token_def u32_to_be_bytes_def tokens_new_def random_secret_def)

text \<open>C26: the sequence number of a stored mutable item never goes down: as long as an item for a target
  is in the cache, a request leaves one with at least the same sequence number there, or evicts it.\<close>

theorem mutable_seq_monotone:
  assumes "stores_ok st" "lru_lookup (st_mutable st) (mutable_values srv) target = Some prev"
    "lru_lookup (st_mutable st) (mutable_values (fst (snd (server_handle_request crc cr st now r rt from_addr request srv)))) target = Some item"
  shows "mi_seq prev \<le> mi_seq item"
proof -
  have c: "lru_cache (st_mutable st)" using assms(1) by (simp add: stores_ok_def)
  let ?c = "mutable_values srv" and ?ops = "st_mutable st"
  have "mut_after st cr ?c (mutable_values (fst (snd (server_handle_request crc cr st now r rt from_addr request srv))))"
    by (rule request_after(2) [OF assms(1)])
  then show ?thesis unfolding mut_after_def
  proof (elim disjE exE conjE)
    fix p assume seq: "\<forall>prev. lru_lookup ?ops ?c (fst p) = Some prev \<longrightarrow> mi_seq prev \<le> mi_seq (snd p)"
      and new: "mutable_values (fst (snd (server_handle_request crc cr st now r rt from_addr request srv))) =
        snd (lru_put ?ops (snd (lru_get ?ops ?c (fst p))) (fst p) (snd p))"
    show ?thesis
    proof (cases "target = fst p")
      case True
      have "lru_lookup ?ops (snd (lru_put ?ops (snd (lru_get ?ops ?c (fst p))) (fst p) (snd p))) (fst p) \<in> {None, Some (snd p)}"
        by (rule lru_cache.put_lookup_same [OF c])
      then show ?thesis using seq assms(2,3) True new by auto
    next
      case False
      then show ?thesis
        using lru_cache.put_lookup_other [OF c False, of "snd (lru_get ?ops ?c (fst p))" "snd p"] assms(2,3) new
        by (auto simp: lru_cache.get_lookup [OF c])
    qed
  qed (use assms(2,3) lru_cache.get_lookup [OF c] in auto)
qed

text \<open>A server for the witnesses: one secret for all tokens, which are four zero bytes under a checksum that is 0, and an
  item with sequence number 3 in the mutable cache.\<close>

abbreviation wit_item :: "i64 \<Rightarrow> mutable_item" where
  "wit_item seq \<equiv> mutable_item_new wit_crypto [7] [1] seq None"

definition wit_server :: "(nat \<times> (id \<times> nat \<times> (id \<times> sock_addr) list) list, nat \<times> (id \<times> bytes) list, nat \<times> (id \<times> mutable_item) list) server" where
  "wit_server = (fst (server_new wit_stores 0 (\<lambda>_. 0) server_settings_default))
     \<lparr>mutable_values := (1000, [(mi_target (wit_item 3), wit_item 3)])\<rparr>"

definition wit_put :: "put_request_specific \<Rightarrow> request_specific" where
  "wit_put p = \<lparr>requester_id = id_of [], request_type = PutRequestOf \<lparr>put_token = [0, 0, 0, 0], put_request_type = p\<rparr>\<rparr>"

lemma wit_server_simps:
  "srv_filter wit_server = default_filter" "tokens_refresh 0 r (srv_tokens wit_server) = (srv_tokens wit_server, r)"
  "tokens_validate (\<lambda>_. 0) tk a [0, 0, 0, 0]" "mutable_values wit_server = (1000, [(mi_target (wit_item 3), wit_item 3)])"
  "immutable_values wit_server = (1000, [])"
  by (simp_all add: wit_server_def server_new_def server_settings_default_def tokens_new_def tokens_refresh_def should_update_def
      elapsed_def case_prod_beta Let_def tokens_validate_def internal_generate_token_def u32_to_be_bytes_def
      wit_stores_def list_lru_def MAX_VALUES_def non_zero_or_def)

lemma wit_target: "mi_target (wit_item seq) = mi_target (wit_item 3)"
  by (simp add: mutable_item_new_def new_signed_unchecked_def)

lemma wit_put_mutable:
  "let res = server_handle_request (\<lambda>_. 0) wit_crypto wit_stores 0 (\<lambda>_. 0) rt a
       (wit_put (PutMutable (put_mutable_args_from (wit_item 4) (Some 3)))) wit_server
   in fst res = Some (ping_answer rt) \<and>
      fst (snd res) = wit_server\<lparr>mutable_values := (1000, [(mi_target (wit_item 3), wit_item 4)])\<rparr>"
proof -
  let ?args = "put_mutable_args_from (wit_item 4) (Some 3)"
  have acc: "from_dht_message wit_crypto (pm_target ?args) (pm_k ?args) (pm_v ?args) (pm_seq ?args) (pm_sig ?args) (pm_salt ?args) = Inr (wit_item 4)"
    using mutable_item_accepted [OF wit_crypto_ok] by (simp only: Let_def)
  have args: "pm_target ?args = mi_target (wit_item 3)" "pm_seq ?args = 4" "pm_cas ?args = Some 3" "pm_salt ?args = None" "length (pm_v ?args) = 1"
    "mi_seq (wit_item 3) = 3"
    using wit_target [of 4] by (simp_all add: put_mutable_args_from_def mutable_item_new_def new_signed_unchecked_def)
  show ?thesis
    using acc args
    by (simp add: Let_def server_handle_request_def wit_put_def wit_server_simps default_filter_def handle_put_def
        handle_put_mutable_def store_mutable_def wit_stores_def list_lru_def without_def)
qed

theorem mutable_seq_monotone_witness:
  "lru_lookup (st_mutable wit_stores) (mutable_values wit_server) (mi_target (wit_item 3)) = Some (wit_item 3) \<and>
   mi_seq (wit_item 3) \<le> mi_seq (wit_item 4)"
proof -
  have before: "lru_lookup (st_mutable wit_stores) (mutable_values wit_server) (mi_target (wit_item 3)) = Some (wit_item 3)"
    by (simp add: lru_lookup_def wit_stores_def list_lru_def wit_server_simps)
  have "lru_lookup (st_mutable wit_stores) (mutable_values (fst (snd (server_handle_request (\<lambda>_. 0) wit_crypto wit_stores 0 (\<lambda>_. 0)
      (rt_new (id_of [])) (sock_addr_new 1 2) (wit_put (PutMutable (put_mutable_args_from (wit_item 4) (Some 3)))) wit_server))))
      (mi_target (wit_item 3)) = Some (wit_item 4)"
    using wit_put_mutable [of "rt_new (id_of [])" "sock_addr_new 1 2"] by (simp add: Let_def lru_lookup_def wit_stores_def list_lru_def)
  from mutable_seq_monotone [OF wit_stores_ok before this] before show ?thesis by blast
qed

text \<open>C22: a stored item is served. Let a put of an item be acknowledged, and let anybody get its target next. After a put of an immutable value, a
  get without a sequence number is answered with that value; one with a sequence number, which asks for a mutable item, only from the mutable items, so
  the value is not served. After a put of a mutable item, the answer is the value, key, sequence number and signature of the put, or only the sequence number
  when the get names the same or a newer one; except that an immutable value stored under the same target is served to a get without a sequence number.\<close>

theorem put_then_get:
  assumes "stores_ok st" "server_inv cr st srv" "request_type put = PutRequestOf p"
    "fst (server_handle_request crc cr st now r rt from_addr put srv) = Some (ping_answer rt)"
    "srv' = fst (snd (server_handle_request crc cr st now r rt from_addr put srv))"
    "request_type get = GetValueRequest g" "gvq_target g = put_target (put_request_type p)" "srv_filter srv' get from2"
    "\<And>ann. put_request_type p \<noteq> AnnouncePeer ann"
  shows "\<exists>tok nodes. case put_request_type p of
      PutImmutable a \<Rightarrow> fst (server_handle_request crc cr st now2 r2 rt2 from2 get srv') = Some (Response (
        case (gvq_seq g, lru_lookup (st_mutable st) (mutable_values srv') (gvq_target g)) of
          (None, _) \<Rightarrow> GetImmutableResponse \<lparr>gir_responder_id = rt_id rt2, gir_token = tok, gir_nodes = nodes, gir_v = pi_v a\<rparr>
        | (Some s, Some item) \<Rightarrow> item_answer (rt_id rt2) tok nodes (Some s) item
        | (Some s, None) \<Rightarrow> NoValuesResponse \<lparr>nvr_responder_id = rt_id rt2, nvr_token = tok, nvr_nodes = nodes\<rparr>))
    | PutMutable a \<Rightarrow> fst (server_handle_request crc cr st now2 r2 rt2 from2 get srv') = Some (Response (
        case (gvq_seq g, lru_lookup (st_immutable st) (immutable_values srv') (gvq_target g)) of
          (None, Some v) \<Rightarrow> GetImmutableResponse \<lparr>gir_responder_id = rt_id rt2, gir_token = tok, gir_nodes = nodes, gir_v = v\<rparr>
        | (Some s, _) \<Rightarrow>
            (if pm_seq a \<le> s
             then NoMoreRecentResponse \<lparr>nmr_responder_id = rt_id rt2, nmr_token = tok, nmr_nodes = nodes, nmr_seq = pm_seq a\<rparr>
             else GetMutableResponse \<lparr>gmr_responder_id = rt_id rt2, gmr_token = tok, gmr_nodes = nodes, gmr_v = pm_v a,
               gmr_k = pm_k a, gmr_seq = pm_seq a, gmr_sig = pm_sig a\<rparr>)
        | (None, None) \<Rightarrow> GetMutableResponse \<lparr>gmr_responder_id = rt_id rt2, gmr_token = tok, gmr_nodes = nodes, gmr_v = pm_v a,
            gmr_k = pm_k a, gmr_seq = pm_seq a, gmr_sig = pm_sig a\<rparr>))
    | AnnouncePeer _ \<Rightarrow> False"
proof -
  have c: "lru_cache (st_immutable st)" "lru_cache (st_mutable st)" using assms(1) by (simp_all add: stores_ok_def)
  have cap: "0 < lru_cap (st_immutable st) (immutable_values srv)" "0 < lru_cap (st_mutable st) (mutable_values srv)"
    using assms(2) by (simp_all add: server_inv_def)
  obtain tk where ans: "ping_answer rt = fst (handle_put crc cr st rt from_addr (requester_id put) p (srv\<lparr>srv_tokens := tk\<rparr>))"
    and srv': "srv' = snd (handle_put crc cr st rt from_addr (requester_id put) p (srv\<lparr>srv_tokens := tk\<rparr>))"
    using put_request_split [OF assms(3,4)] assms(5) by metis
  note run = get_request_run [OF assms(6,8), of crc cr st now2 r2 rt2]
  have same: "immutable_values (srv'\<lparr>srv_tokens := tk'\<rparr>) = immutable_values srv'"
    "mutable_values (srv'\<lparr>srv_tokens := tk'\<rparr>) = mutable_values srv'" for tk' by simp_all
  obtain tok nodes where found: "fst (server_handle_request crc cr st now2 r2 rt2 from2 get srv') = Some (Response (
      case (gvq_seq g, lru_lookup (st_immutable st) (immutable_values srv') (gvq_target g)) of
        (None, Some v) \<Rightarrow> GetImmutableResponse \<lparr>gir_responder_id = rt_id rt2, gir_token = tok, gir_nodes = nodes, gir_v = v\<rparr>
      | _ \<Rightarrow> (case lru_lookup (st_mutable st) (mutable_values srv') (gvq_target g) of
          Some item \<Rightarrow> item_answer (rt_id rt2) tok nodes (gvq_seq g) item
        | None \<Rightarrow> NoValuesResponse \<lparr>nvr_responder_id = rt_id rt2, nvr_token = tok, nvr_nodes = nodes\<rparr>)))"
    using get_value_answer [OF assms(1), of crc rt2 from2 g "srv'\<lparr>srv_tokens := fst (tokens_refresh now2 r2 (srv_tokens srv'))\<rparr>", unfolded same]
    by (elim exE) (rule that, rule trans [OF run], rule arg_cong [where f = Some], assumption)
  show ?thesis
  proof (cases "put_request_type p")
    case (PutImmutable a)
    have "lru_lookup (st_immutable st) (immutable_values srv') (gvq_target g) = Some (pi_v a)"
      using put_immutable_stored [OF c(1), of "srv\<lparr>srv_tokens := tk\<rparr>" crc cr rt from_addr "put_token p" a] cap(1) ans srv' assms(7)
      by (simp add: handle_put_def PutImmutable)
    then show ?thesis
      by (intro exI [of _ tok] exI [of _ nodes]) (simp add: PutImmutable found split: option.split)
  next
    case (PutMutable a)
    have "\<exists>item. lru_lookup (st_mutable st) (mutable_values srv') (gvq_target g) = Some item \<and> mi_seq item = pm_seq a \<and>
        mi_value item = pm_v a \<and> mi_key item = pm_k a \<and> mi_signature item = pm_sig a"
      using put_mutable_stored [OF c(2), of "srv\<lparr>srv_tokens := tk\<rparr>" crc cr rt from_addr "put_token p" a] cap(2) ans srv' assms(7)
      by (simp add: handle_put_def PutMutable)
    then show ?thesis
      by (intro exI [of _ tok] exI [of _ nodes]) (auto simp: PutMutable found item_answer_def split: option.split)
  qed (simp add: assms(9))
qed

lemma wit_server_inv: "server_inv wit_crypto wit_stores wit_server"
proof -
  have "mutable_ok wit_crypto (mi_target (wit_item 3), wit_item 3)"
    using mutable_item_accepted [OF wit_crypto_ok, where sk = "[7]" and val = "[1]" and seq = 3 and salt = None and cas = None]
    by (simp add: mutable_ok_def Let_def put_mutable_args_from_def mutable_item_new_def new_signed_unchecked_def)
  then show ?thesis by (simp add: server_inv_def wit_server_simps lru_ok_def wit_stores_def list_lru_def)
qed

theorem put_then_get_witness:
  "\<exists>tok nodes. fst (server_handle_request (\<lambda>_. 0) wit_crypto wit_stores 0 (\<lambda>_. 0) (rt_new (id_of [])) (sock_addr_new 1 2)
      \<lparr>requester_id = id_of [], request_type = GetValueRequest
         \<lparr>gvq_target = mi_target (wit_item 3), gvq_seq = Some 3, gvq_salt = None\<rparr>\<rparr>
      (wit_server\<lparr>mutable_values := (1000, [(mi_target (wit_item 3), wit_item 4)])\<rparr>)) =
     Some (Response (GetMutableResponse \<lparr>gmr_responder_id = id_of [], gmr_token = tok, gmr_nodes = nodes, gmr_v = [1],
        gmr_k = replicate 32 7, gmr_seq = 4, gmr_sig = mi_signature (wit_item 4)\<rparr>))"
proof -
  let ?rt = "rt_new (id_of [])" and ?a = "sock_addr_new 1 2"
  let ?args = "put_mutable_args_from (wit_item 4) (Some 3)"
  let ?get = "\<lparr>requester_id = id_of [], request_type = GetValueRequest
         \<lparr>gvq_target = mi_target (wit_item 3), gvq_seq = Some 3, gvq_salt = None\<rparr>\<rparr>"
  note put = wit_put_mutable [of ?rt ?a, unfolded Let_def]
  have "pm_seq ?args = 4" "pm_v ?args = [1]" "pm_k ?args = replicate 32 7" "pm_sig ?args = mi_signature (wit_item 4)"
    "pm_target ?args = mi_target (wit_item 3)" "rt_id ?rt = id_of []"
    using wit_target [of 4]
    by (simp_all add: put_mutable_args_from_def mutable_item_new_def new_signed_unchecked_def rt_new_def wit_crypto_def)
  then show ?thesis
    using put_then_get [OF wit_stores_ok wit_server_inv _ conjunct1 [OF put] conjunct2 [OF put, symmetric],
        where get = ?get and p = "\<lparr>put_token = [0, 0, 0, 0], put_request_type = PutMutable ?args\<rparr>" and
          g = "\<lparr>gvq_target = mi_target (wit_item 3), gvq_seq = Some 3, gvq_salt = None\<rparr>" and
          ?from2.0 = ?a and ?now2.0 = 0 and ?r2.0 = "\<lambda>_. 0" and ?rt2.0 = ?rt]
    by (simp add: wit_put_def wit_server_simps default_filter_def)
qed

theorem server_stores_only_valid_witness:
  "\<exists>srv. server_inv wit_crypto wit_stores srv \<and> immutable_values srv = (1000, [(hash_immutable wit_crypto [1], [1])])"
proof -
  let ?new = "fst (server_new wit_stores 0 (\<lambda>_. 0) server_settings_default)"
  let ?put = "wit_put (PutImmutable \<lparr>pi_target = hash_immutable wit_crypto [1], pi_v = [1]\<rparr>)"
  let ?srv = "fst (snd (server_handle_request (\<lambda>_. 0) wit_crypto wit_stores 0 (\<lambda>_. 0) (rt_new (id_of [])) (sock_addr_new 1 2) ?put ?new))"
  have "srv_filter ?new = default_filter" "tokens_refresh 0 r (srv_tokens ?new) = (srv_tokens ?new, r)" "immutable_values ?new = (1000, [])" for r
    using wit_server_simps(1,2,5) by (simp_all add: wit_server_def)
  then have "immutable_values ?srv = (1000, [(hash_immutable wit_crypto [1], [1])])"
    by (simp add: server_handle_request_def wit_put_def default_filter_def handle_put_def handle_put_immutable_def wit_server_simps(3)
        validate_immutable_def wit_stores_def list_lru_def without_def Let_def)
  moreover have "server_inv wit_crypto wit_stores ?srv" by (rule server_stores_only_valid [OF server_request [OF server_start] wit_stores_ok])
  ultimately show ?thesis by blast
qed

end
