(* ===== verification/Krpc_Socket.thy ===== *)
theory Krpc_Socket
  imports Message_Codec
begin

text \<open>
  The socket layer, from \<^verbatim>\<open>src/src/rpc/socket.rs\<close> and \<^verbatim>\<open>src/src/rpc/socket/inflight_requests.rs\<close>: it numbers requests, remembers
  which of them wait for an answer, and drops every answer that does not belong to one of them. The
  UDP socket is outside the model: what is sent is appended to an outbox of messages, and a receive takes the
  result of the system call as an argument. The theorems show that transaction ids are not reused too early,
  that an answer is accepted at most once, in time and from the right address, and that the periodic
  cleanup cannot be observed.
\<close>

section \<open>Requests in flight\<close>

record inflight_request =
  ir_to :: sock_addr
  ir_sent_at :: instant

definition does_match :: "inflight_request \<Rightarrow> sock_addr \<Rightarrow> bool" where
  "does_match req socket =
     (if sa_port (ir_to req) \<noteq> sa_port socket then False
      else if sa_ip (ir_to req) = 0 then True
      else sa_ip (ir_to req) = sa_ip socket)"

record inflight_requests =
  requests :: "u32 \<rightharpoonup> inflight_request"
  timeout :: duration

definition inflight_new :: "duration \<Rightarrow> inflight_requests" where
  "inflight_new d = \<lparr>requests = Map.empty, timeout = d\<rparr>"

definition inflight_add :: "instant \<Rightarrow> inflight_requests \<Rightarrow> u32 \<Rightarrow> sock_addr \<Rightarrow> inflight_requests" where
  "inflight_add now s tid addr = s\<lparr>requests := (requests s)(tid \<mapsto> \<lparr>ir_to = addr, ir_sent_at = now\<rparr>)\<rparr>"

definition inflight_contains :: "instant \<Rightarrow> inflight_requests \<Rightarrow> u32 \<Rightarrow> bool" where
  "inflight_contains now s tid =
     (case requests s tid of
        Some req \<Rightarrow> elapsed now (ir_sent_at req) < timeout s
      | None \<Rightarrow> False)"

definition inflight_remove ::
  "instant \<Rightarrow> inflight_requests \<Rightarrow> u32 \<Rightarrow> sock_addr \<Rightarrow> inflight_request option \<times> inflight_requests" where
  "inflight_remove now s tid from_addr =
     (case requests s tid of
        None \<Rightarrow> (None, s)
      | Some req \<Rightarrow>
          if timeout s \<le> elapsed now (ir_sent_at req) then (None, s\<lparr>requests := (requests s)(tid := None)\<rparr>)
          else if \<not> does_match req from_addr then (None, s)
          else (Some req, s\<lparr>requests := (requests s)(tid := None)\<rparr>))"

text \<open>\<open>sent_at > now - timeout\<close>; the difference may lie before the origin of the clock.\<close>

text \<open>The cutoff of the code is \<open>now - timeout\<close>, which panics when the clock of the system cannot represent that instant; here it is compared without subtracting.\<close>

definition inflight_cleanup :: "instant \<Rightarrow> inflight_requests \<Rightarrow> inflight_requests" where
  "inflight_cleanup now s =
     s\<lparr>requests := (\<lambda>tid. case requests s tid of
         Some req \<Rightarrow> if now < ir_sent_at req + timeout s then Some req else None
       | None \<Rightarrow> None)\<rparr>"

section \<open>The socket\<close>

definition VERSION :: bytes where
  "VERSION = [82, 83, 0, 5]"

definition MTU :: nat where
  "MTU = 2048"

definition DEFAULT_REQUEST_TIMEOUT :: duration where
  "DEFAULT_REQUEST_TIMEOUT = from_millis 2000"

definition INFLIGHT_CLEANUP_INTERVAL :: duration where
  "INFLIGHT_CLEANUP_INTERVAL = from_millis 200"

declare DEFAULT_REQUEST_TIMEOUT_def [const_facts] INFLIGHT_CLEANUP_INTERVAL_def [const_facts]

record krpc_socket =
  next_tid :: u32
  server_mode :: bool
  inflight :: inflight_requests
  last_cleanup :: instant
  local_addr :: sock_addr
  outbox :: "(sock_addr \<times> message) list"

definition socket_inflight :: "instant \<Rightarrow> krpc_socket \<Rightarrow> u32 \<Rightarrow> bool" where
  "socket_inflight now s tid = inflight_contains now (inflight s) tid"

definition socket_tid :: "krpc_socket \<Rightarrow> u32 \<times> krpc_socket" where
  "socket_tid s = (next_tid s, s\<lparr>next_tid := next_tid s + 1\<rparr>)"

definition request_message :: "request_specific \<Rightarrow> krpc_socket \<Rightarrow> message \<times> krpc_socket" where
  "request_message req s =
     (let (tid, s') = socket_tid s
      in (\<lparr>transaction_id = tid, version = Some VERSION, requester_ip = None, message_type = Request req,
           read_only = (\<not> server_mode s')\<rparr>, s'))"

definition response_message :: "message_type \<Rightarrow> sock_addr \<Rightarrow> u32 \<Rightarrow> krpc_socket \<Rightarrow> message" where
  "response_message m requester tid s =
     \<lparr>transaction_id = tid, version = Some VERSION, requester_ip = Some requester, message_type = m,
      read_only = (\<not> server_mode s)\<rparr>"

definition socket_send :: "sock_addr \<Rightarrow> message \<Rightarrow> krpc_socket \<Rightarrow> krpc_socket" where
  "socket_send addr m s = s\<lparr>outbox := outbox s @ [(addr, m)]\<rparr>"

text \<open>The datagrams that leave the socket: messages that fail to encode are logged and dropped.\<close>

definition datagrams :: "'be bencode \<Rightarrow> krpc_socket \<Rightarrow> (sock_addr \<times> bytes) list" where
  "datagrams be s =
     List.map_filter (\<lambda>(addr, m). case message_to_bytes be m of Inr bs \<Rightarrow> Some (addr, bs) | Inl _ \<Rightarrow> None) (outbox s)"

definition socket_request :: "instant \<Rightarrow> sock_addr \<Rightarrow> request_specific \<Rightarrow> krpc_socket \<Rightarrow> u32 \<times> krpc_socket" where
  "socket_request now addr req s =
     (let (m, s1) = request_message req s; tid = transaction_id m;
          s2 = s1\<lparr>inflight := inflight_add now (inflight s1) tid addr\<rparr>
      in (tid, socket_send addr m s2))"

definition socket_response :: "sock_addr \<Rightarrow> u32 \<Rightarrow> response_specific \<Rightarrow> krpc_socket \<Rightarrow> krpc_socket" where
  "socket_response addr tid resp s = socket_send addr (response_message (Response resp) addr tid s) s"

definition socket_error :: "sock_addr \<Rightarrow> u32 \<Rightarrow> error_specific \<Rightarrow> krpc_socket \<Rightarrow> krpc_socket" where
  "socket_error addr tid err s = socket_send addr (response_message (ErrorMessage err) addr tid s) s"

definition is_expected_response :: "instant \<Rightarrow> message \<Rightarrow> sock_addr \<Rightarrow> krpc_socket \<Rightarrow> bool \<times> krpc_socket" where
  "is_expected_response now m from_addr s =
     (let (found, inf) = inflight_remove now (inflight s) (transaction_id m) from_addr
      in (found \<noteq> None, s\<lparr>inflight := inf\<rparr>))"

text \<open>The result of \<open>UdpSocket::recv_from\<close>: a datagram of an IPv4 or of an IPv6 sender, or an error, of which a
  timeout is one.\<close>

datatype udp_result = FromV4 bytes sock_addr | FromV6 | UdpError

definition socket_cleanup :: "instant \<Rightarrow> krpc_socket \<Rightarrow> krpc_socket" where
  "socket_cleanup now s =
     (if INFLIGHT_CLEANUP_INTERVAL < elapsed now (last_cleanup s)
      then s\<lparr>last_cleanup := now, inflight := inflight_cleanup now (inflight s)\<rparr>
      else s)"

definition socket_recv_from ::
  "'be bencode \<Rightarrow> instant \<Rightarrow> udp_result \<Rightarrow> krpc_socket \<Rightarrow> (message \<times> sock_addr) option \<times> krpc_socket" where
  "socket_recv_from be now input s0 =
     (let s = socket_cleanup now s0
      in case input of
           FromV4 datagram from_addr \<Rightarrow>
             if sa_port from_addr = 0 then (None, s)
             else (case message_from_bytes be now (take MTU datagram) of
                     Inr m \<Rightarrow>
                       (case message_type m of
                          Request _ \<Rightarrow> (Some (m, from_addr), s)
                        | _ \<Rightarrow>
                            let (expected, s') = is_expected_response now m from_addr s
                            in (if expected then Some (m, from_addr) else None, s'))
                   | Inl _ \<Rightarrow> (None, s))
         | FromV6 \<Rightarrow> (None, s)
         | UdpError \<Rightarrow> (None, s))"

section \<open>Binding\<close>

text \<open>\<open>KrpcSocket::new\<close>: the operating system's bind is an argument, an address that it bound for each
  requested one, or an error.\<close>

definition DEFAULT_PORT :: u16 where
  "DEFAULT_PORT = 6881"

definition socket_bind :: "(sock_addr \<Rightarrow> 'io + sock_addr) \<Rightarrow> u32 option \<Rightarrow> u16 option \<Rightarrow> 'io + sock_addr" where
  "socket_bind bind bind_address port =
     (let ip = (case bind_address of Some a \<Rightarrow> a | None \<Rightarrow> 0)
      in case port of
           Some p \<Rightarrow> bind (sock_addr_new ip p)
         | None \<Rightarrow> (case bind (sock_addr_new ip DEFAULT_PORT) of
               Inr bound \<Rightarrow> Inr bound
             | Inl _ \<Rightarrow> bind (sock_addr_new ip 0)))"

definition socket_new ::
  "(sock_addr \<Rightarrow> 'io + sock_addr) \<Rightarrow> instant \<Rightarrow> u32 option \<Rightarrow> u16 option \<Rightarrow> duration \<Rightarrow> bool \<Rightarrow> 'io + krpc_socket" where
  "socket_new bind now bind_address port request_timeout mode =
     bindE (socket_bind bind bind_address port) (\<lambda>bound.
       Inr \<lparr>next_tid = 0, server_mode = mode, inflight = inflight_new request_timeout,
            last_cleanup = now, local_addr = bound, outbox = []\<rparr>)"

section \<open>Transaction ids\<close>

lemma socket_request_simps [simp]:
  "fst (socket_request now addr req s) = next_tid s"
  "next_tid (snd (socket_request now addr req s)) = next_tid s + 1"
  "inflight (snd (socket_request now addr req s)) = inflight_add now (inflight s) (next_tid s) addr"
  "server_mode (snd (socket_request now addr req s)) = server_mode s"
  "last_cleanup (snd (socket_request now addr req s)) = last_cleanup s"
  "local_addr (snd (socket_request now addr req s)) = local_addr s"
  by (simp_all add: socket_request_def request_message_def socket_tid_def socket_send_def Let_def)

lemma socket_send_simps [simp]:
  "inflight (socket_response addr tid resp s) = inflight s" "inflight (socket_error addr tid err s) = inflight s"
  "server_mode (socket_response addr tid resp s) = server_mode s" "server_mode (socket_error addr tid err s) = server_mode s"
  "next_tid (socket_response addr tid resp s) = next_tid s" "next_tid (socket_error addr tid err s) = next_tid s"
  by (simp_all add: socket_response_def socket_error_def socket_send_def)

fun request_many :: "instant \<Rightarrow> (sock_addr \<times> request_specific) list \<Rightarrow> krpc_socket \<Rightarrow> u32 list \<times> krpc_socket" where
  "request_many now [] s = ([], s)"
| "request_many now ((addr, req) # rs) s =
     (let (tid, s1) = socket_request now addr req s; (tids, s2) = request_many now rs s1 in (tid # tids, s2))"

lemma request_many_tids: "fst (request_many now rs s) = map (\<lambda>i. next_tid s + of_nat i) [0..<length rs]"
proof (induction rs arbitrary: s)
  case (Cons r rs)
  obtain addr req where r: "r = (addr, req)" by fastforce
  have "map (\<lambda>i. next_tid s + 1 + of_nat i) [0..<length rs] = map (\<lambda>i. next_tid s + of_nat i) [1..<Suc (length rs)]"
    using map_Suc_upt [of 0 "length rs"] by (auto simp: map_Suc_upt [symmetric] comp_def algebra_simps simp del: upt_Suc)
  then show ?case using Cons.IH [of "snd (socket_request now addr req s)"]
    by (simp add: r case_prod_beta Let_def upt_conv_Cons del: upt_Suc)
qed simp

section \<open>Cleanup and answers\<close>

lemma contains_cleanup:
  "now \<le> now' \<Longrightarrow> inflight_contains now' (inflight_cleanup now s) tid = inflight_contains now' s tid"
  by (auto simp: inflight_contains_def inflight_cleanup_def elapsed_def split: option.split)

lemma remove_cleanup:
  "now \<le> now' \<Longrightarrow> fst (inflight_remove now' (inflight_cleanup now s) tid a) = fst (inflight_remove now' s tid a)"
  by (auto simp: inflight_remove_def inflight_cleanup_def elapsed_def split: option.split)

lemma remove_found:
  "fst (inflight_remove now s tid a) = Some req \<longleftrightarrow>
     requests s tid = Some req \<and> elapsed now (ir_sent_at req) < timeout s \<and> does_match req a"
  by (auto simp: inflight_remove_def split: option.split)

lemma remove_found_gone:
  "fst (inflight_remove now s tid a) \<noteq> None \<Longrightarrow> requests (snd (inflight_remove now s tid a)) tid = None"
  by (auto simp: inflight_remove_def split: option.splits if_splits)

lemma inflight_cleanup_requests:
  "requests (inflight_cleanup now s) tid = Some req \<longleftrightarrow> requests s tid = Some req \<and> now < ir_sent_at req + timeout s"
  by (auto simp: inflight_cleanup_def split: option.split)

lemma timeout_keep [simp]:
  "timeout (inflight_cleanup now s) = timeout s" "timeout (inflight_add now s tid a) = timeout s"
  "timeout (snd (inflight_remove now s tid a)) = timeout s"
  by (auto simp: inflight_cleanup_def inflight_add_def inflight_remove_def split: option.split)

lemma remove_socket_cleanup:
  "fst (inflight_remove now (inflight (socket_cleanup now s)) tid a) = fst (inflight_remove now (inflight s) tid a)"
  by (simp add: socket_cleanup_def remove_cleanup)

lemma expected_response:
  "fst (is_expected_response now m a s) \<longleftrightarrow> fst (inflight_remove now (inflight s) (transaction_id m) a) \<noteq> None"
  "inflight (snd (is_expected_response now m a s)) = snd (inflight_remove now (inflight s) (transaction_id m) a)"
  by (simp_all add: is_expected_response_def case_prod_beta Let_def)

definition is_request :: "message \<Rightarrow> bool" where
  "is_request m = (case message_type m of Request _ \<Rightarrow> True | _ \<Rightarrow> False)"

lemma socket_recv_from_datagram:
  "socket_recv_from be now (FromV4 d a) s =
     (let s1 = socket_cleanup now s
      in if sa_port a = 0 then (None, s1)
         else case message_from_bytes be now (take MTU d) of
             Inl _ \<Rightarrow> (None, s1)
           | Inr m \<Rightarrow>
               if is_request m then (Some (m, a), s1)
               else (if fst (is_expected_response now m a s1) then Some (m, a) else None,
                     snd (is_expected_response now m a s1)))"
  by (auto simp: socket_recv_from_def is_request_def Let_def split: sum.split message_type.split prod.split)

lemma socket_recv_from_none:
  "socket_recv_from be now FromV6 s = (None, socket_cleanup now s)"
  "socket_recv_from be now UdpError s = (None, socket_cleanup now s)"
  by (simp_all add: socket_recv_from_def Let_def)

lemma recv_accepted:
  assumes "fst (socket_recv_from be now input s) = Some (m, a)" "\<not> is_request m"
  shows "fst (is_expected_response now m a (socket_cleanup now s))"
    and "snd (socket_recv_from be now input s) = snd (is_expected_response now m a (socket_cleanup now s))"
  using assms
  by (cases input; auto simp: socket_recv_from_datagram socket_recv_from_none Let_def split: sum.splits if_splits)+

text \<open>C27: a message reaches the node exactly when it comes from an IPv4 address with a non-zero port, decodes, and is a
  request, or answers a request of its transaction that is in flight, has not timed out, and went to the
  port the answer comes from and to its address (or to the unspecified address). Whether the
  periodic cleanup has run or not makes no difference.\<close>

theorem socket_accepts_expected:
  "fst (socket_recv_from be now input s) = Some (m, a) \<longleftrightarrow>
     (\<exists>d. input = FromV4 d a \<and> sa_port a \<noteq> 0 \<and> message_from_bytes be now (take MTU d) = Inr m \<and>
        (is_request m \<or>
         (\<exists>req. requests (inflight s) (transaction_id m) = Some req \<and>
            elapsed now (ir_sent_at req) < timeout (inflight s) \<and>
            sa_port (ir_to req) = sa_port a \<and> sa_ip (ir_to req) \<in> {0, sa_ip a})))"
proof -
  have "fst (is_expected_response now m a (socket_cleanup now s)) \<longleftrightarrow>
      (\<exists>req. requests (inflight s) (transaction_id m) = Some req \<and>
         elapsed now (ir_sent_at req) < timeout (inflight s) \<and>
         sa_port (ir_to req) = sa_port a \<and> sa_ip (ir_to req) \<in> {0, sa_ip a})"
    by (simp add: expected_response remove_socket_cleanup remove_found option.distinct(1) not_None_eq does_match_def conj_disj_distribL
      cong: conj_cong) blast
  then show ?thesis
    by (cases input) (auto simp: socket_recv_from_datagram socket_recv_from_none Let_def split: sum.split)
qed

text \<open>An answer is accepted at most once: after an accepted answer, a later message of the same
  transaction is accepted only if it is a request itself.\<close>

theorem socket_accepts_once:
  assumes "fst (socket_recv_from be now input s) = Some (m, a)" "\<not> is_request m"
    and "fst (socket_recv_from be now' input' (snd (socket_recv_from be now input s))) = Some (m', a')"
    and "transaction_id m' = transaction_id m"
  shows "is_request m'"
proof (rule ccontr)
  assume req': "\<not> is_request m'"
  have "requests (inflight (snd (socket_recv_from be now input s))) (transaction_id m) = None"
    using recv_accepted [OF assms(1,2)] by (simp add: expected_response remove_found_gone)
  then have "fst (inflight_remove now' (inflight (snd (socket_recv_from be now input s))) (transaction_id m) a') = None"
    by (simp add: inflight_remove_def)
  then have "\<not> fst (is_expected_response now' m' a' (socket_cleanup now' (snd (socket_recv_from be now input s))))"
    using assms(4) by (simp add: expected_response remove_socket_cleanup)
  then show False using recv_accepted(1) [OF assms(3) req'] by simp
qed

definition wit_answer :: message where
  "wit_answer = \<lparr>transaction_id = 258, version = None, requester_ip = None,
     message_type = Response (PingResponse \<lparr>png_responder_id = id_of []\<rparr>), read_only = False\<rparr>"

definition wit_codec :: "unit bencode" where
  "wit_codec = \<lparr>bencode_to_bytes = (\<lambda>d. Inl ()),
     bencode_from_bytes = (\<lambda>bs. Inr (into_serde_message (if bs ! 14 = 1 then wit_answer else wit_message)))\<rparr>"

definition wit_datagram :: "u8 \<Rightarrow> udp_result" where
  "wit_datagram b = FromV4 (100 # replicate 13 0 @ [b]) (sock_addr_new 0x0A000001 6881)"

definition wit_socket :: krpc_socket where
  "wit_socket = \<lparr>next_tid = 0xFFFFFFFF, server_mode = False,
     inflight = \<lparr>requests = [258 \<mapsto> \<lparr>ir_to = sock_addr_new 0x0A000001 6881, ir_sent_at = 10\<rparr>],
       timeout = DEFAULT_REQUEST_TIMEOUT\<rparr>,
     last_cleanup = 0, local_addr = sock_addr_new 0 6881, outbox = []\<rparr>"

lemma wit_codec_decodes:
  "message_from_bytes wit_codec now (take MTU (100 # replicate 13 0 @ [b])) =
     Inr (wire_view now (if b = 1 then wit_answer else wit_message))"
  by (simp add: message_from_bytes_def wit_codec_def message_view MTU_def nth_append)

lemma wit_socket_lookup:
  "fst (inflight_remove 20 (inflight wit_socket) 258 (sock_addr_new 0x0A000001 6881)) =
     Some \<lparr>ir_to = sock_addr_new 0x0A000001 6881, ir_sent_at = 10\<rparr>"
  by (simp add: remove_found wit_socket_def does_match_def elapsed_def const_facts)

theorem socket_accepts_once_witness:
  "is_request (wire_view 30 wit_message)"
proof (rule socket_accepts_once [where be = wit_codec and now = 20 and now' = 30 and s = wit_socket
      and input = "wit_datagram 1" and input' = "wit_datagram 0"])
  let ?a = "sock_addr_new 0x0A000001 6881"
  have p: "sa_port ?a = 6881" "sa_ip ?a = 0x0A000001" by (simp_all add: sock_addr_new_def)
  show "fst (socket_recv_from wit_codec 20 (wit_datagram 1) wit_socket) = Some (wire_view 20 wit_answer, ?a)"
    unfolding wit_datagram_def socket_recv_from_datagram wit_codec_decodes
    by (simp add: Let_def p expected_response remove_socket_cleanup wire_view_def wit_answer_def is_request_def
      wit_socket_lookup)
  show "\<not> is_request (wire_view 20 wit_answer)"
    by (simp add: is_request_def wire_view_def wit_answer_def)
  show "fst (socket_recv_from wit_codec 30 (wit_datagram 0) (snd (socket_recv_from wit_codec 20 (wit_datagram 1) wit_socket))) =
      Some (wire_view 30 wit_message, ?a)"
    unfolding wit_datagram_def socket_recv_from_datagram wit_codec_decodes
    by (simp add: Let_def p wire_view_def wit_message_def is_request_def)
  show "transaction_id (wire_view 30 wit_message) = transaction_id (wire_view 20 wit_answer)"
    by (simp add: wire_view_def wit_answer_def wit_message_def)
qed

text \<open>The transaction ids of up to four billion (\<open>2 ^ 32\<close>) requests sent one after another are pairwise different.\<close>

theorem request_tids_distinct:
  assumes "length rs \<le> 2 ^ 32"
  shows "distinct (fst (request_many now rs s))"
proof -
  have "inj_on (\<lambda>i. next_tid s + of_nat i) {0..<length rs}"
  proof (rule inj_onI)
    fix i j assume ij: "i \<in> {0..<length rs}" "j \<in> {0..<length rs}" "next_tid s + of_nat i = next_tid s + of_nat j"
    then have "take_bit 32 i = take_bit 32 j" by (simp add: of_nat_eq_iff word_of_nat_eq_iff)
    moreover have "i < 2 ^ 32" "j < 2 ^ 32" using ij assms by auto
    ultimately show "i = j" by (simp add: take_bit_nat_eq_self)
  qed
  then show ?thesis by (simp add: request_many_tids distinct_map)
qed

definition wit_ping :: request_specific where
  "wit_ping = \<lparr>requester_id = id_of [], request_type = PingRequest\<rparr>"

theorem request_tids_distinct_witness:
  "distinct (fst (request_many 5 [(sock_addr_new 1 1, wit_ping), (sock_addr_new 1 1, wit_ping)] wit_socket)) \<and>
   fst (request_many 5 [(sock_addr_new 1 1, wit_ping), (sock_addr_new 1 1, wit_ping)] wit_socket) = [0xFFFFFFFF, 0]"
  by (rule conjI, rule request_tids_distinct)
    (simp_all add: wit_socket_def case_prod_beta Let_def)

end
