(* ===== verification/Iterative_Query.thy ===== *)
theory Iterative_Query
  imports Krpc_Socket Closest_Nodes
begin

text \<open>
  Iterative queries, from \<^verbatim>\<open>src/src/rpc/iterative_query.rs\<close>: the walk towards a target that asks the closest known
  nodes, learns closer ones from their answers, and ends when nothing is in flight. The hash set of
  visited addresses is a list without duplicates and the hash map of votes an association list, whose order stands for the
  map's unspecified iteration order. The counters wrap, as in a release build. The theorems show which nodes a tick visits, that a query
  ends once its requests have timed out, and that the address with the most votes wins.
\<close>

section \<open>Outcome of a mutable get\<close>

record get_mutable_outcome =
  gmo_queried :: u32
  gmo_values :: u32
  gmo_no_values :: u32
  gmo_no_more_recent :: u32
  gmo_invalid_values :: u32
  gmo_invalid_responses :: u32
  gmo_krpc_errors :: u32

definition outcome_default :: get_mutable_outcome where
  "outcome_default = \<lparr>gmo_queried = 0, gmo_values = 0, gmo_no_values = 0, gmo_no_more_recent = 0,
     gmo_invalid_values = 0, gmo_invalid_responses = 0, gmo_krpc_errors = 0\<rparr>"

definition outcome_valid_responses :: "get_mutable_outcome \<Rightarrow> u32" where
  "outcome_valid_responses g = gmo_values g + gmo_no_values g + gmo_no_more_recent g"

definition outcome_responded :: "get_mutable_outcome \<Rightarrow> u32" where
  "outcome_responded g =
     outcome_valid_responses g + gmo_invalid_values g + gmo_invalid_responses g + gmo_krpc_errors g"

text \<open>\<open>saturating_sub\<close>.\<close>

definition outcome_timed_out :: "get_mutable_outcome \<Rightarrow> u32" where
  "outcome_timed_out g =
     (if gmo_queried g \<le> outcome_responded g then 0 else gmo_queried g - outcome_responded g)"

definition outcome_record_value :: "get_mutable_outcome \<Rightarrow> get_mutable_outcome" where
  "outcome_record_value g = g\<lparr>gmo_values := gmo_values g + 1\<rparr>"

definition outcome_record_no_values :: "get_mutable_outcome \<Rightarrow> get_mutable_outcome" where
  "outcome_record_no_values g = g\<lparr>gmo_no_values := gmo_no_values g + 1\<rparr>"

definition outcome_record_no_more_recent :: "get_mutable_outcome \<Rightarrow> get_mutable_outcome" where
  "outcome_record_no_more_recent g = g\<lparr>gmo_no_more_recent := gmo_no_more_recent g + 1\<rparr>"

definition outcome_record_invalid_value :: "get_mutable_outcome \<Rightarrow> get_mutable_outcome" where
  "outcome_record_invalid_value g = g\<lparr>gmo_invalid_values := gmo_invalid_values g + 1\<rparr>"

definition outcome_record_invalid_response :: "get_mutable_outcome \<Rightarrow> get_mutable_outcome" where
  "outcome_record_invalid_response g = g\<lparr>gmo_invalid_responses := gmo_invalid_responses g + 1\<rparr>"

definition outcome_record_krpc_error :: "get_mutable_outcome \<Rightarrow> get_mutable_outcome" where
  "outcome_record_krpc_error g = g\<lparr>gmo_krpc_errors := gmo_krpc_errors g + 1\<rparr>"

definition outcome_finish :: "u32 \<Rightarrow> get_mutable_outcome \<Rightarrow> get_mutable_outcome" where
  "outcome_finish queried g = g\<lparr>gmo_queried := queried\<rparr>"

section \<open>The query\<close>

datatype query_response =
    PeersFound "sock_addr list"
  | ImmutableFound bytes
  | MutableFound mutable_item

record iterative_query =
  iq_request :: request_specific
  iq_closest :: closest_nodes
  iq_responders :: closest_nodes
  iq_inflight_requests :: "u32 list"
  iq_query_requests :: "u32 list"
  iq_visited :: "sock_addr list"
  iq_responses :: "query_response list"
  iq_mutable_outcome :: get_mutable_outcome
  iq_votes :: "(sock_addr \<times> u16) list"

datatype get_request_specific =
    GetFindNode find_node_request_args
  | GetGetPeers get_peers_request_args
  | GetGetValue get_value_request_args

fun get_request_target :: "get_request_specific \<Rightarrow> id" where
  "get_request_target (GetFindNode args) = fnq_target args"
| "get_request_target (GetGetPeers args) = gpq_info_hash args"
| "get_request_target (GetGetValue args) = gvq_target args"

definition query_new :: "id \<Rightarrow> id \<Rightarrow> get_request_specific \<Rightarrow> iterative_query" where
  "query_new rid target request =
     (let type = (case request of
            GetFindNode s \<Rightarrow> FindNodeRequest s
          | GetGetPeers s \<Rightarrow> GetPeersRequest s
          | GetGetValue s \<Rightarrow> GetValueRequest s)
      in \<lparr>iq_request = \<lparr>requester_id = rid, request_type = type\<rparr>,
          iq_closest = closest_new target, iq_responders = closest_new target,
          iq_inflight_requests = [], iq_query_requests = [], iq_visited = [], iq_responses = [],
          iq_mutable_outcome = outcome_default, iq_votes = []\<rparr>)"

definition query_target :: "iterative_query \<Rightarrow> id" where
  "query_target q = cn_target (iq_responders q)"

definition query_mutable_outcome :: "iterative_query \<Rightarrow> get_mutable_outcome" where
  "query_mutable_outcome q = outcome_finish (of_nat (length (iq_visited q))) (iq_mutable_outcome q)"

text \<open>The loop of \<open>best_address\<close> keeps the best entry seen so far.\<close>

fun best_vote :: "u16 \<Rightarrow> sock_addr option \<Rightarrow> (sock_addr \<times> u16) list \<Rightarrow> sock_addr option" where
  "best_vote m best [] = best"
| "best_vote m best ((a, c) # vs) = (if m < c then best_vote c (Some a) vs else best_vote m best vs)"

definition best_address :: "iterative_query \<Rightarrow> sock_addr option" where
  "best_address q = best_vote 0 None (iq_votes q)"

definition add_candidate :: "crc32c \<Rightarrow> node \<Rightarrow> iterative_query \<Rightarrow> iterative_query" where
  "add_candidate crc n q = q\<lparr>iq_closest := closest_add crc (iq_closest q) n\<rparr>"

fun bump_vote :: "sock_addr \<Rightarrow> (sock_addr \<times> u16) list \<Rightarrow> (sock_addr \<times> u16) list" where
  "bump_vote a [] = [(a, 1)]"
| "bump_vote a ((b, c) # vs) = (if a = b then (b, c + 1) # vs else (b, c) # bump_vote a vs)"

definition add_address_vote :: "sock_addr \<Rightarrow> iterative_query \<Rightarrow> iterative_query" where
  "add_address_vote a q = q\<lparr>iq_votes := bump_vote a (iq_votes q)\<rparr>"

definition query_visit ::
  "instant \<Rightarrow> sock_addr \<Rightarrow> iterative_query \<times> krpc_socket \<times> rng \<Rightarrow> iterative_query \<times> krpc_socket \<times> rng" where
  "query_visit now addr = (\<lambda>(q, s, r).
     let (tid, s1) = socket_request now addr (iq_request q) s;
         q1 = q\<lparr>iq_inflight_requests := iq_inflight_requests q @ [tid],
                iq_query_requests := iq_query_requests q @ [tid]\<rparr>;
         (rid, r1) = id_random r;
         (ping_tid, s2) = socket_request now addr \<lparr>requester_id = rid, request_type = PingRequest\<rparr> s1
     in (q1\<lparr>iq_inflight_requests := iq_inflight_requests q1 @ [ping_tid],
            iq_visited := List.insert addr (iq_visited q1)\<rparr>, s2, r1))"

definition query_is_inflight :: "iterative_query \<Rightarrow> u32 \<Rightarrow> bool" where
  "query_is_inflight q tid \<longleftrightarrow> tid \<in> set (iq_inflight_requests q)"

definition is_inflight_query_request :: "iterative_query \<Rightarrow> u32 \<Rightarrow> bool" where
  "is_inflight_query_request q tid \<longleftrightarrow> tid \<in> set (iq_query_requests q)"

definition add_responding_node :: "crc32c \<Rightarrow> node \<Rightarrow> iterative_query \<Rightarrow> iterative_query" where
  "add_responding_node crc n q = q\<lparr>iq_responders := closest_add crc (iq_responders q) n\<rparr>"

definition query_add_response :: "query_response \<Rightarrow> iterative_query \<Rightarrow> iterative_query" where
  "query_add_response resp q = q\<lparr>iq_responses := iq_responses q @ [resp]\<rparr>"

text \<open>The methods \<open>record_*\<close> of the query, each of which applies the method of the outcome.\<close>

definition query_record :: "(get_mutable_outcome \<Rightarrow> get_mutable_outcome) \<Rightarrow> iterative_query \<Rightarrow> iterative_query" where
  "query_record f q = q\<lparr>iq_mutable_outcome := f (iq_mutable_outcome q)\<rparr>"

definition to_visit :: "iterative_query \<Rightarrow> sock_addr list" where
  "to_visit q =
     map node_address (filter (\<lambda>n. node_address n \<notin> set (iq_visited q))
       (take MAX_BUCKET_SIZE_K (cn_nodes (iq_closest q))))"

definition visit_closest ::
  "instant \<Rightarrow> iterative_query \<times> krpc_socket \<times> rng \<Rightarrow> iterative_query \<times> krpc_socket \<times> rng" where
  "visit_closest now st = fold (query_visit now) (to_visit (fst st)) st"

definition query_start ::
  "instant \<Rightarrow> iterative_query \<times> krpc_socket \<times> rng \<Rightarrow> iterative_query \<times> krpc_socket \<times> rng" where
  "query_start now st = visit_closest now st"

definition query_tick ::
  "instant \<Rightarrow> iterative_query \<times> krpc_socket \<times> rng \<Rightarrow> bool \<times> iterative_query \<times> krpc_socket \<times> rng" where
  "query_tick now st =
     (let (q, s, r) = visit_closest now st
      in (\<not> list_ex (socket_inflight now s) (iq_inflight_requests q), q, s, r))"

section \<open>What a tick does\<close>

lemma socket_request_outbox:
  "outbox (snd (socket_request now a req s)) =
     outbox s @ [(a, \<lparr>transaction_id = next_tid s, version = Some VERSION, requester_ip = None, message_type = Request req,
       read_only = (\<not> server_mode s)\<rparr>)]"
  by (simp add: socket_request_def request_message_def socket_tid_def socket_send_def Let_def)

lemma query_visit_query:
  "fst (query_visit now a (q, s, r)) =
     q\<lparr>iq_inflight_requests := iq_inflight_requests q @ [next_tid s, next_tid s + 1],
       iq_query_requests := iq_query_requests q @ [next_tid s],
       iq_visited := List.insert a (iq_visited q)\<rparr>"
  by (simp add: query_visit_def case_prod_beta Let_def)

lemma query_visit_socket:
  "fst (snd (query_visit now a (q, s, r))) =
     snd (socket_request now a \<lparr>requester_id = fst (id_random r), request_type = PingRequest\<rparr>
       (snd (socket_request now a (iq_request q) s)))"
  by (simp add: query_visit_def case_prod_beta Let_def)

text \<open>Requests that a socket tracks, all sent at or before an instant.\<close>

definition sent_by :: "instant \<Rightarrow> krpc_socket \<Rightarrow> bool" where
  "sent_by now s \<longleftrightarrow> (\<forall>tid req. requests (inflight s) tid = Some req \<longrightarrow> ir_sent_at req \<le> now)"

lemma sent_by_request: "sent_by now s \<Longrightarrow> sent_by now (snd (socket_request now a req s))"
  by (auto simp: sent_by_def inflight_add_def)

lemma sent_by_timed_out:
  assumes "sent_by now s" "now + timeout (inflight s) \<le> now'"
    and "timeout (inflight s') = timeout (inflight s)" "requests (inflight s') tid \<in> {None, requests (inflight s) tid}"
  shows "\<not> socket_inflight now' s' tid"
proof (cases "requests (inflight s') tid")
  case (Some req)
  then have "ir_sent_at req \<le> now" using assms(1,4) by (auto simp: sent_by_def)
  then show ?thesis using assms(2,3) Some by (simp add: socket_inflight_def inflight_contains_def elapsed_def)
qed (simp add: socket_inflight_def inflight_contains_def)

definition same_walk :: "iterative_query \<Rightarrow> iterative_query \<Rightarrow> bool" where
  "same_walk q q' \<longleftrightarrow> iq_request q' = iq_request q \<and> iq_closest q' = iq_closest q \<and>
     iq_responders q' = iq_responders q \<and> iq_responses q' = iq_responses q \<and>
     iq_mutable_outcome q' = iq_mutable_outcome q \<and> iq_votes q' = iq_votes q"

text \<open>Each visited address is sent the request of the query and a ping, and is remembered.\<close>

definition asked :: "(sock_addr \<times> message) list \<Rightarrow> (sock_addr \<times> request_type_specific option) list" where
  "asked out = map (\<lambda>(a, m). (a, case message_type m of Request req \<Rightarrow> Some (request_type req) | _ \<Rightarrow> None)) out"

lemma visits_effect:
  assumes "fold (query_visit now) as (q, s, r) = (q', s', r')"
  shows "same_walk q q' \<and> set (iq_visited q') = set (iq_visited q) \<union> set as \<and>
    asked (outbox s') = asked (outbox s) @
      concat (map (\<lambda>a. [(a, Some (request_type (iq_request q))), (a, Some PingRequest)]) as) \<and>
    (sent_by now s \<longrightarrow> sent_by now s') \<and> timeout (inflight s') = timeout (inflight s) \<and>
    length (iq_query_requests q') = length (iq_query_requests q) + length as"
  using assms
proof (induction as arbitrary: q s r)
  case Nil
  then show ?case by (simp add: same_walk_def)
next
  case (Cons a as)
  obtain q1 s1 r1 where v: "query_visit now a (q, s, r) = (q1, s1, r1)" by (metis prod_cases3)
  have q1: "q1 = fst (query_visit now a (q, s, r))" and s1: "s1 = fst (snd (query_visit now a (q, s, r)))"
    using v by simp_all
  have step: "same_walk q q1" "set (iq_visited q1) = insert a (set (iq_visited q))"
    "asked (outbox s1) = asked (outbox s) @ [(a, Some (request_type (iq_request q))), (a, Some PingRequest)]"
    "sent_by now s \<longrightarrow> sent_by now s1" "timeout (inflight s1) = timeout (inflight s)"
    "length (iq_query_requests q1) = Suc (length (iq_query_requests q))"
    unfolding q1 s1 query_visit_query query_visit_socket
    by (simp_all add: same_walk_def asked_def socket_request_outbox sent_by_request)
  have "fold (query_visit now) as (q1, s1, r1) = (q', s', r')" using Cons.prems v by simp
  from Cons.IH [OF this] step show ?case by (auto simp: same_walk_def)
qed

lemma to_visit_alt:
  "to_visit q = filter (\<lambda>a. a \<notin> set (iq_visited q)) (map node_address (take 20 (cn_nodes (iq_closest q))))"
  by (simp add: to_visit_def MAX_BUCKET_SIZE_K_def filter_map comp_def)

lemma query_tick_fold:
  "query_tick now (q, s, r) = (is_done, q', s', r') \<Longrightarrow> fold (query_visit now) (to_visit q) (q, s, r) = (q', s', r')"
  by (simp add: query_tick_def visit_closest_def split: prod.splits)

text \<open>C29: one tick of a query sends its request and a ping to exactly those of the twenty closest
  known nodes that it has not visited, remembers them as visited, changes nothing else of the query, and reports
  the query done exactly when none of its requests is in flight any more.\<close>

theorem query_tick_visits:
  "case query_tick now (q, s, r) of (is_done, q', s', r') \<Rightarrow>
     set (iq_visited q') = set (iq_visited q) \<union> node_address ` set (take 20 (cn_nodes (iq_closest q))) \<and>
     asked (outbox s') = asked (outbox s) @
       concat (map (\<lambda>a. [(a, Some (request_type (iq_request q))), (a, Some PingRequest)])
         (filter (\<lambda>a. a \<notin> set (iq_visited q)) (map node_address (take 20 (cn_nodes (iq_closest q)))))) \<and>
     same_walk q q' \<and>
     is_done = (\<not> (\<exists>tid. query_is_inflight q' tid \<and> socket_inflight now s' tid))"
proof -
  obtain is_done q' s' r' where e: "query_tick now (q, s, r) = (is_done, q', s', r')" by (metis prod_cases4)
  then have d: "is_done = (\<not> list_ex (socket_inflight now s') (iq_inflight_requests q'))"
    by (simp add: query_tick_def split: prod.splits)
  show ?thesis using visits_effect [OF query_tick_fold [OF e]]
    by (auto simp: e d to_visit_alt list_ex_iff query_is_inflight_def)
qed

text \<open>A query ends: when for the request timeout after a tick nothing is heard that concerns it (no new
  candidate and no new request; its requests may be answered or cleaned up), the next tick sends nothing and reports it done.\<close>

theorem query_ends_after_timeout:
  assumes "query_tick now (q, s, r) = (is_done, q1, s1, r1)" "sent_by now s" "now + timeout (inflight s) \<le> now'"
    and "iq_closest q2 = iq_closest q1" "iq_visited q2 = iq_visited q1" "iq_inflight_requests q2 = iq_inflight_requests q1"
    and "timeout (inflight s2) = timeout (inflight s1)"
    and "list_all (\<lambda>tid. requests (inflight s2) tid \<in> {None, requests (inflight s1) tid}) (iq_inflight_requests q1)"
  shows "query_tick now' (q2, s2, r2) = (True, q2, s2, r2)"
proof -
  note e = visits_effect [OF query_tick_fold [OF assms(1)]]
  have "to_visit q2 = []"
    using e assms(4,5) by (auto simp: to_visit_alt same_walk_def filter_empty_conv)
  moreover have "\<not> socket_inflight now' s2 tid" if "tid \<in> set (iq_inflight_requests q2)" for tid
    using e assms(2,3,6-8) that by (intro sent_by_timed_out [of now s1]) (auto simp: list_all_iff)
  ultimately show ?thesis by (auto simp: query_tick_def visit_closest_def list_ex_iff)
qed

definition wit_query :: iterative_query where
  "wit_query = add_candidate (\<lambda>_. 0) (wit_node 1 0x0A000001)
     (query_new (id_of []) (id_of []) (GetFindNode \<lparr>fnq_target = id_of []\<rparr>))"

theorem query_ends_after_timeout_witness:
  "fst (query_tick 20 (wit_query, wit_socket, \<lambda>_. 7)) = False \<and>
   fst (query_tick (20 + DEFAULT_REQUEST_TIMEOUT) (snd (query_tick 20 (wit_query, wit_socket, \<lambda>_. 7)))) = True"
proof
  have n: "cn_nodes (iq_closest wit_query) = [wit_node 1 0x0A000001]" "iq_visited wit_query = []"
    by (simp_all add: wit_query_def add_candidate_def query_new_def closest_new_def closest_add_def
      already_exists_def binary_search_by_def)
  show "fst (query_tick 20 (wit_query, wit_socket, \<lambda>_. 7)) = False"
    by (simp add: query_tick_def visit_closest_def to_visit_alt n query_visit_def case_prod_beta Let_def
      socket_inflight_def inflight_contains_def inflight_add_def elapsed_def wit_socket_def const_facts)
  obtain d q1 s1 r1 where e: "query_tick 20 (wit_query, wit_socket, \<lambda>_. 7) = (d, q1, s1, r1)" by (metis prod_cases4)
  have "query_tick (20 + DEFAULT_REQUEST_TIMEOUT) (q1, s1, r1) = (True, q1, s1, r1)"
    by (rule query_ends_after_timeout [OF e]) (simp_all add: sent_by_def wit_socket_def list_all_iff)
  then show "fst (query_tick (20 + DEFAULT_REQUEST_TIMEOUT) (snd (query_tick 20 (wit_query, wit_socket, \<lambda>_. 7)))) = True"
    by (simp add: e)
qed

section \<open>Votes\<close>

lemma best_vote_greatest:
  "(\<exists>v \<in> set vs. m < snd v \<and> best_vote m best vs = Some (fst v) \<and> (\<forall>w \<in> set vs. snd w \<le> snd v)) \<or>
   best_vote m best vs = best \<and> (\<forall>w \<in> set vs. snd w \<le> m)"
proof (induction vs arbitrary: m best)
  case (Cons v vs)
  show ?case
  proof (cases "m < snd v")
    case True
    then have b: "best_vote m best (v # vs) = best_vote (snd v) (Some (fst v)) vs" by (cases v) simp
    from Cons.IH [of "snd v" "Some (fst v)"] show ?thesis
    proof
      assume "\<exists>x \<in> set vs. snd v < snd x \<and> best_vote (snd v) (Some (fst v)) vs = Some (fst x) \<and> (\<forall>w \<in> set vs. snd w \<le> snd x)"
      then obtain x where "x \<in> set vs" "snd v < snd x" "best_vote (snd v) (Some (fst v)) vs = Some (fst x)"
        "\<forall>w \<in> set vs. snd w \<le> snd x" by blast
      then have "x \<in> set (v # vs)" "m < snd x" "best_vote m best (v # vs) = Some (fst x)"
        "\<forall>w \<in> set (v # vs). snd w \<le> snd x" using True b by auto
      then show ?thesis by blast
    qed (use True b in auto)
  next
    case False
    then have "best_vote m best (v # vs) = best_vote m best vs" "snd v \<le> m" by (cases v, simp)+
    then show ?thesis using Cons.IH [of m best] by (auto intro: order_trans less_imp_le)
  qed
qed simp

lemma bump_vote_map_of:
  "map_of (bump_vote a vs) b = (if a = b then Some (case map_of vs a of Some c \<Rightarrow> c + 1 | None \<Rightarrow> 1) else map_of vs b)"
  by (induction vs) auto

lemma bump_vote_keys: "distinct (map fst vs) \<Longrightarrow> distinct (map fst (bump_vote a vs)) \<and> fst ` set (bump_vote a vs) = insert a (fst ` set vs)"
proof (induction vs)
  case (Cons v vs)
  then show ?case by (cases v) (auto simp: insert_commute)
qed simp

definition tally :: "sock_addr list \<Rightarrow> (sock_addr \<times> u16) list" where
  "tally as = fold bump_vote as []"

lemma tally_snoc: "tally (as @ [a]) = bump_vote a (tally as)"
  by (simp add: tally_def)

lemma tally_counts:
  "distinct (map fst (tally as)) \<and>
   map_of (tally as) a = (if a \<in> set as then Some (of_nat (count_list as a)) else None)"
proof (induction as arbitrary: a rule: rev_induct)
  case (snoc x xs)
  then show ?case using bump_vote_keys [of "tally xs" x]
    by (auto simp: tally_snoc bump_vote_map_of count_list_0_iff)
qed (simp add: tally_def)

lemma tally_entry: "(a, c) \<in> set (tally as) \<longleftrightarrow> a \<in> set as \<and> c = of_nat (count_list as a)"
  using tally_counts [of as a] map_of_eq_Some_iff [of "tally as" a c] by (auto split: if_splits)

text \<open>Of fewer than 65536 votes, \<open>best_address\<close> returns an address that has at least as many as any
  other, whatever the order in which the votes are kept.\<close>

theorem best_address_most_voted:
  assumes "as \<noteq> []" "length as < 2 ^ 16" "mset (iq_votes q) = mset (iq_votes (fold add_address_vote as (query_new rid t req)))"
  shows "\<exists>a. best_address q = Some a \<and> a \<in> set as \<and> (\<forall>b. count_list as b \<le> count_list as a)"
proof -
  have "iq_votes (fold add_address_vote as q0) = fold bump_vote as (iq_votes q0)" for q0
    by (induction as arbitrary: q0) (auto simp: add_address_vote_def)
  then have "set (iq_votes q) = set (tally as)"
    using assms(3) by (metis (no_types, lifting) mset_eq_setD query_new_def iterative_query.select_convs(9) tally_def)
  then have e: "(a, c) \<in> set (iq_votes q) \<longleftrightarrow> a \<in> set as \<and> c = of_nat (count_list as a)" for a c
    by (simp add: tally_entry)
  have u: "unat (of_nat (count_list as a) :: u16) = count_list as a" for a
    using assms(2) count_le_length [of as a] by (simp add: unat_of_nat take_bit_nat_eq_self)
  obtain x where x: "x \<in> set as" using assms(1) by (cases as) auto
  have "0 < count_list as x" using x by (metis count_list_0_iff neq0_conv)
  then have "\<not> (of_nat (count_list as x) :: u16) \<le> 0" using u [of x] by (simp add: word_le_nat_alt)
  then have "\<not> (\<forall>w \<in> set (iq_votes q). snd w \<le> 0)" using x e [of x] by fastforce
  then obtain v where v: "v \<in> set (iq_votes q)" "best_address q = Some (fst v)" "\<forall>w \<in> set (iq_votes q). snd w \<le> snd v"
    using best_vote_greatest [of "iq_votes q" 0 None] unfolding best_address_def by blast
  define a where "a = fst v"
  have a: "a \<in> set as" "snd v = of_nat (count_list as a)" "best_address q = Some a"
    using v e [of a "snd v"] by (simp_all add: a_def)
  have "count_list as b \<le> count_list as a" for b
  proof (cases "b \<in> set as")
    case True
    then have "(of_nat (count_list as b) :: u16) \<le> of_nat (count_list as a)" using a(2) e [of b] v(3) by fastforce
    then show ?thesis using u by (simp add: word_le_nat_alt)
  qed (simp add: count_list_0_iff)
  with a show ?thesis by blast
qed

theorem best_address_most_voted_witness:
  "\<exists>a. best_address (fold add_address_vote [sock_addr_new 1 1, sock_addr_new 2 2, sock_addr_new 2 2]
      (query_new (id_of []) (id_of []) (GetFindNode \<lparr>fnq_target = id_of []\<rparr>))) = Some a \<and>
    a \<in> set [sock_addr_new 1 1, sock_addr_new 2 2, sock_addr_new 2 2] \<and>
    (\<forall>b. count_list [sock_addr_new 1 1, sock_addr_new 2 2, sock_addr_new 2 2] b \<le>
         count_list [sock_addr_new 1 1, sock_addr_new 2 2, sock_addr_new 2 2] a)"
  by (rule best_address_most_voted) simp_all

end
