(* ===== verification/Put_Query.thy ===== *)
theory Put_Query
  imports Iterative_Query
begin

text \<open>
  Put queries, from \<^verbatim>\<open>src/src/rpc/put_query.rs\<close>: the second half of a store, which sends the value to the closest nodes
  with the tokens they gave and counts acknowledgements and errors. Where the code panics (its
  assertions) the model returns \<open>None\<close>; the error counters are bytes that wrap, as in a release build. The theorems show that the
  error list is ordered by how often each error occurred, what a finished query reports, that every started
  query finishes, and that one without tokens never does.
\<close>

section \<open>Errors and outcome\<close>

datatype concurrency_error = ConflictRisk | NotMostRecent | CasFailed

datatype put_query_error = NoClosestNodes | ErrorResponse error_specific | Timeout

datatype put_error = PutErrorQuery put_query_error | PutErrorConcurrency concurrency_error

record put_outcome =
  po_target :: id
  po_stored_at :: u32

section \<open>The query\<close>

record put_query =
  pq_target :: id
  pq_stored_at :: u32
  pq_inflight_requests :: "u32 list"
  pq_request :: put_request_specific
  pq_errors :: "(u8 \<times> error_specific) list"
  pq_extra_nodes :: "node list"

definition put_query_new :: "id \<Rightarrow> put_request_specific \<Rightarrow> node list option \<Rightarrow> put_query" where
  "put_query_new t request extra_nodes =
     \<lparr>pq_target = t, pq_stored_at = 0, pq_inflight_requests = [], pq_request = request, pq_errors = [],
      pq_extra_nodes = (case extra_nodes of Some ns \<Rightarrow> ns | None \<Rightarrow> [])\<rparr>"

definition put_started :: "put_query \<Rightarrow> bool" where
  "put_started q \<longleftrightarrow> pq_inflight_requests q \<noteq> []"

definition put_inflight :: "put_query \<Rightarrow> u32 \<Rightarrow> bool" where
  "put_inflight q tid \<longleftrightarrow> tid \<in> set (pq_inflight_requests q)"

text \<open>The body of the loop of \<open>start\<close>: a node without a token is skipped.\<close>

definition put_send :: "instant \<Rightarrow> node \<Rightarrow> put_query \<times> krpc_socket \<times> rng \<Rightarrow> put_query \<times> krpc_socket \<times> rng" where
  "put_send now n = (\<lambda>(q, s, r).
     case node_token n of
       None \<Rightarrow> (q, s, r)
     | Some token \<Rightarrow>
         let (rid, r1) = id_random r;
             (tid, s1) = socket_request now (node_address n)
               \<lparr>requester_id = rid,
                request_type = PutRequestOf \<lparr>put_token = token, put_request_type = pq_request q\<rparr>\<rparr> s
         in (q\<lparr>pq_inflight_requests := pq_inflight_requests q @ [tid]\<rparr>, s1, r1))"

definition put_start ::
  "instant \<Rightarrow> node list \<Rightarrow> put_query \<times> krpc_socket \<times> rng \<Rightarrow> ((put_error + unit) \<times> put_query \<times> krpc_socket \<times> rng) option" where
  "put_start now closest_nodes st =
     (if put_started (fst st) then None
      else if closest_nodes = [] then Some (Inl (PutErrorQuery NoClosestNodes), st)
      else if 255 < length closest_nodes then None
      else Some (Inr (), fold (put_send now) (closest_nodes @ pq_extra_nodes (fst st)) st))"

definition put_on_success :: "put_query \<Rightarrow> put_query" where
  "put_on_success q = q\<lparr>pq_stored_at := pq_stored_at q + 1\<rparr>"

text \<open>The loop of \<open>error\<close> that moves the entry at an index towards the front.\<close>

fun move_up :: "nat \<Rightarrow> (u8 \<times> error_specific) list \<Rightarrow> (u8 \<times> error_specific) list" where
  "move_up 0 es = es"
| "move_up (Suc i) es =
     (if fst (es ! i) < fst (es ! Suc i) then move_up i (es[Suc i := es ! i, i := es ! Suc i]) else es)"

fun error_position :: "i32 \<Rightarrow> (u8 \<times> error_specific) list \<Rightarrow> nat option" where
  "error_position code [] = None"
| "error_position code ((c, err) # es) =
     (if code = err_code err then Some 0 else map_option Suc (error_position code es))"

definition put_on_error :: "error_specific \<Rightarrow> put_query \<Rightarrow> put_query" where
  "put_on_error err q =
     q\<lparr>pq_errors :=
       (case error_position (err_code err) (pq_errors q) of
          Some pos \<Rightarrow> move_up pos ((pq_errors q)[pos := (fst (pq_errors q ! pos) + 1, snd (pq_errors q ! pos))])
        | None \<Rightarrow> pq_errors q @ [(1, err)])\<rparr>"

definition most_common_error :: "put_query \<Rightarrow> (u8 \<times> put_error) option" where
  "most_common_error q =
     (case pq_errors q of
        [] \<Rightarrow> None
      | (c, err) # _ \<Rightarrow>
          if err_code err = 301 then Some (c, PutErrorConcurrency CasFailed)
          else if err_code err = 302 then Some (c, PutErrorConcurrency NotMostRecent)
          else None)"

definition majority_rejected :: "put_query \<Rightarrow> concurrency_error option" where
  "majority_rejected q =
     (case pq_request q of
        PutMutable _ \<Rightarrow>
          (case most_common_error q of
             None \<Rightarrow> None
           | Some (c, err) \<Rightarrow>
               if c < of_nat (length (pq_inflight_requests q) div 2 + 1) then None
               else (case err of PutErrorConcurrency e \<Rightarrow> Some e | PutErrorQuery _ \<Rightarrow> None))
      | _ \<Rightarrow> None)"

definition put_is_done :: "instant \<Rightarrow> krpc_socket \<Rightarrow> put_query \<Rightarrow> bool" where
  "put_is_done now s q = list_all (\<lambda>tid. \<not> socket_inflight now s tid) (pq_inflight_requests q)"

definition poll_completion :: "instant \<Rightarrow> krpc_socket \<Rightarrow> put_query \<Rightarrow> put_error + put_outcome option" where
  "poll_completion now s q =
     (if \<not> put_started q then Inr None
      else case majority_rejected q of
          Some err \<Rightarrow> Inl (PutErrorConcurrency err)
        | None \<Rightarrow>
            if put_is_done now s q then
              if pq_stored_at q = 0 then
                Inl (case most_common_error q of Some (_, err) \<Rightarrow> err | None \<Rightarrow> PutErrorQuery Timeout)
              else Inr (Some \<lparr>po_target = pq_target q, po_stored_at = pq_stored_at q\<rparr>)
            else Inr None)"

section \<open>The error list\<close>

lemma error_position_Some:
  "error_position code es = Some i \<Longrightarrow> i < length es \<and> err_code (snd (es ! i)) = code"
  by (induction es arbitrary: i rule: error_position.induct) (auto split: if_splits simp: nth_Cons')

lemma error_position_None: "error_position code es = None \<longleftrightarrow> code \<notin> (\<lambda>e. err_code (snd e)) ` set es"
  by (induction es rule: error_position.induct) auto

lemma move_up_insertion:
  "move_up (length as) (as @ x # bs) =
     rev (dropWhile (\<lambda>y. fst y < fst x) (rev as)) @ x # rev (takeWhile (\<lambda>y. fst y < fst x) (rev as)) @ bs"
proof (induction as arbitrary: bs rule: rev_induct)
  case (snoc a as)
  have "(as @ a # x # bs)[Suc (length as) := a, length as := x] = as @ x # a # bs"
    by (simp add: list_update_append)
  then show ?case using snoc.IH [of "a # bs"] by (simp add: nth_append)
qed simp

text \<open>The counters decrease along the list, and no two entries have the same code.\<close>

definition errors_sorted :: "(u8 \<times> error_specific) list \<Rightarrow> bool" where
  "errors_sorted es \<longleftrightarrow> sorted_wrt (\<lambda>a b. fst b \<le> fst a) es \<and> distinct (map (\<lambda>e. err_code (snd e)) es)"

lemma move_up_mset: "i < length es \<Longrightarrow> mset (move_up i es) = mset es"
proof (induction i es rule: move_up.induct)
  case (2 i es)
  have "mset (es[Suc i := es ! i, i := es ! Suc i]) = mset es" using "2.prems"
    by (metis Suc_lessD list_update_swap mset_swap nat_neq_iff lessI)
  then show ?case using 2 by simp
qed simp

lemma move_up_sorted:
  assumes "sorted_wrt (\<lambda>a b. fst b \<le> fst a) (as @ bs)" "\<And>b. b \<in> set bs \<Longrightarrow> fst b \<le> fst x"
  shows "sorted_wrt (\<lambda>a b. fst b \<le> fst a) (move_up (length as) (as @ x # bs))"
proof -
  let ?P = "\<lambda>y. fst y < fst x"
  have r: "sorted_wrt (\<lambda>a b. fst a \<le> fst b) (rev as)"
    using assms(1) by (simp add: sorted_wrt_append sorted_wrt_rev)
  have split: "as = rev (dropWhile ?P (rev as)) @ rev (takeWhile ?P (rev as))"
    by (metis rev_append rev_rev_ident takeWhile_dropWhile_id)
  have front: "fst x \<le> fst y" if "y \<in> set (dropWhile ?P (rev as))" for y
  proof -
    have "dropWhile ?P (rev as) \<noteq> []" using that by (metis empty_iff empty_set)
    then obtain z zs where z: "dropWhile ?P (rev as) = z # zs" by (metis neq_Nil_conv)
    then have "\<not> ?P z" by (metis hd_dropWhile list.discI list.sel(1))
    moreover have "sorted_wrt (\<lambda>a b. fst a \<le> fst b) (z # zs)"
      using r z by (metis sorted_wrt_append takeWhile_dropWhile_id)
    ultimately show ?thesis using that z by auto
  qed
  have "sorted_wrt (\<lambda>a b. fst b \<le> fst a) (rev (dropWhile ?P (rev as)) @ rev (takeWhile ?P (rev as)) @ bs)"
    using assms(1) by (subst (asm) split) simp
  then show ?thesis unfolding move_up_insertion using front assms(2)
    by (auto simp: sorted_wrt_append dest: set_takeWhileD)
qed

definition occurrences :: "error_specific list \<Rightarrow> i32 \<Rightarrow> nat" where
  "occurrences es code = length (filter (\<lambda>e. err_code e = code) es)"

lemma occurrences_simps [simp]:
  "occurrences [] code = 0"
  "occurrences (es @ [e]) code = occurrences es code + (if err_code e = code then 1 else 0)"
  by (simp_all add: occurrences_def)

lemma occurrences_le: "occurrences es code \<le> length es"
  by (simp add: occurrences_def)

definition errors_counted :: "error_specific list \<Rightarrow> (u8 \<times> error_specific) list \<Rightarrow> bool" where
  "errors_counted es errs \<longleftrightarrow>
     (\<forall>x \<in> set errs. unat (fst x) = occurrences es (err_code (snd x))) \<and>
     (\<lambda>x. err_code (snd x)) ` set errs = err_code ` set es"

lemma put_on_error_counted:
  assumes "errors_sorted (pq_errors q)" "errors_counted es (pq_errors q)" "length es < 255"
  shows "errors_sorted (pq_errors (put_on_error e q)) \<and> errors_counted (es @ [e]) (pq_errors (put_on_error e q))"
proof (cases "error_position (err_code e) (pq_errors q)")
  case None
  then have new: "err_code e \<notin> (\<lambda>x. err_code (snd x)) ` set (pq_errors q)" by (simp add: error_position_None)
  then have zero: "occurrences es (err_code e) = 0"
    using assms(2) by (auto simp: errors_counted_def occurrences_def filter_empty_conv) (metis image_eqI)
  have pos: "1 \<le> fst x" if "x \<in> set (pq_errors q)" for x
  proof -
    have "err_code (snd x) \<in> err_code ` set es" using that assms(2) unfolding errors_counted_def by blast
    then have "0 < occurrences es (err_code (snd x))"
      by (auto simp: occurrences_def filter_empty_conv)
    then have "0 < unat (fst x)" using that assms(2) by (simp add: errors_counted_def)
    then show ?thesis by (simp add: word_le_nat_alt)
  qed
  have "errors_sorted (pq_errors q @ [(1, e)])"
    using assms(1) new pos by (auto simp: errors_sorted_def sorted_wrt_append)
  moreover have "errors_counted (es @ [e]) (pq_errors q @ [(1, e)])"
    using assms(2) new zero by (auto simp: errors_counted_def)
  ultimately show ?thesis using None by (simp add: put_on_error_def)
next
  case (Some i)
  then have i: "i < length (pq_errors q)" "err_code (snd (pq_errors q ! i)) = err_code e"
    by (simp_all add: error_position_Some)
  define as x bs where asbs: "as = take i (pq_errors q)" "x = pq_errors q ! i" "bs = drop (Suc i) (pq_errors q)"
  have code: "err_code (snd x) = err_code e" using i(2) by (simp add: asbs)
  have q: "pq_errors q = as @ x # bs" and len: "length as = i"
    using i by (simp_all add: asbs id_take_nth_drop [symmetric])
  let ?x = "(fst x + 1, snd x)"
  have errs: "pq_errors (put_on_error e q) = move_up (length as) (as @ ?x # bs)"
    using Some by (simp add: put_on_error_def q len [symmetric])
  have c: "unat (fst x) = occurrences es (err_code e)"
    using assms(2) by (simp add: errors_counted_def q code)
  then have "unat (fst x) < 255" using occurrences_le [of es "err_code e"] assms(3) by simp
  then have up: "unat (fst x + 1) = unat (fst x) + 1" by (simp add: unat_word_ariths)
  have "sorted_wrt (\<lambda>a b. fst b \<le> fst a) (move_up (length as) (as @ ?x # bs))"
    using assms(1) up by (intro move_up_sorted) (auto simp: errors_sorted_def q sorted_wrt_append word_le_nat_alt)
  moreover have m: "mset (move_up (length as) (as @ ?x # bs)) = mset (as @ ?x # bs)" by (rule move_up_mset) simp
  moreover have codes: "distinct (map (\<lambda>e. err_code (snd e)) (as @ x # bs))" using assms(1) by (simp add: errors_sorted_def q)
  then have "distinct (map (\<lambda>e. err_code (snd e)) (move_up (length as) (as @ ?x # bs)))"
    using m by (subst mset_eq_imp_distinct_iff [of _ "map (\<lambda>e. err_code (snd e)) (as @ ?x # bs)"]) (simp_all only: mset_map m, simp)
  moreover have "errors_counted (es @ [e]) (as @ ?x # bs)"
    using assms(2) codes c up code unfolding errors_counted_def q by (auto simp: image_Un)
  then have "errors_counted (es @ [e]) (move_up (length as) (as @ ?x # bs))"
    using mset_eq_setD [OF m] by (simp add: errors_counted_def)
  ultimately show ?thesis by (simp add: errs errors_sorted_def)
qed

text \<open>After at most 255 error answers to a put query, the error list has one entry per code, in the
  order of decreasing counts, and each count is the number of errors of its code that arrived. So the first entry is a most
  common error.\<close>

theorem put_errors_ranked:
  assumes "length es \<le> 255"
  shows "let errs = pq_errors (fold put_on_error es (put_query_new t req extra)) in
    sorted_wrt (\<lambda>a b. fst b \<le> fst a) errs \<and> distinct (map (\<lambda>x. err_code (snd x)) errs) \<and>
    (\<forall>x \<in> set errs. unat (fst x) = occurrences es (err_code (snd x))) \<and>
    (\<lambda>x. err_code (snd x)) ` set errs = err_code ` set es"
proof -
  have "errors_sorted (pq_errors (fold put_on_error es (put_query_new t req extra))) \<and>
      errors_counted es (pq_errors (fold put_on_error es (put_query_new t req extra)))"
    using assms
  proof (induction es rule: rev_induct)
    case Nil
    then show ?case by (simp add: put_query_new_def errors_sorted_def errors_counted_def)
  next
    case (snoc e es)
    then show ?case using put_on_error_counted [of "fold put_on_error es (put_query_new t req extra)" es e] by simp
  qed
  then show ?thesis by (simp add: Let_def errors_sorted_def errors_counted_def)
qed

definition wit_error :: "i32 \<Rightarrow> error_specific" where
  "wit_error code = \<lparr>err_code = code, err_description = []\<rparr>"

definition wit_put_request :: put_request_specific where
  "wit_put_request = PutImmutable \<lparr>pi_target = id_of [], pi_v = [1]\<rparr>"

theorem put_errors_ranked_witness:
  "pq_errors (fold put_on_error [wit_error 203, wit_error 301, wit_error 301] (put_query_new (id_of []) wit_put_request None)) =
     [(2, wit_error 301), (1, wit_error 203)] \<and>
   (let errs = pq_errors (fold put_on_error [wit_error 203, wit_error 301, wit_error 301]
       (put_query_new (id_of []) wit_put_request None)) in
    sorted_wrt (\<lambda>a b. fst b \<le> fst a) errs \<and> distinct (map (\<lambda>x. err_code (snd x)) errs) \<and>
    (\<forall>x \<in> set errs. unat (fst x) = occurrences [wit_error 203, wit_error 301, wit_error 301] (err_code (snd x))) \<and>
    (\<lambda>x. err_code (snd x)) ` set errs = err_code ` set [wit_error 203, wit_error 301, wit_error 301])"
  by (rule conjI, simp add: put_on_error_def put_query_new_def wit_error_def, rule put_errors_ranked) simp

section \<open>Completion\<close>

text \<open>Answers to a put query: an acknowledgement or an error.\<close>

fun put_answer :: "error_specific option \<Rightarrow> put_query \<Rightarrow> put_query" where
  "put_answer None q = put_on_success q"
| "put_answer (Some e) q = put_on_error e q"

lemma put_answers_keep:
  "pq_inflight_requests (fold put_answer evs q) = pq_inflight_requests q \<and> pq_target (fold put_answer evs q) = pq_target q \<and>
   pq_request (fold put_answer evs q) = pq_request q \<and>
   pq_stored_at (fold put_answer evs q) = pq_stored_at q + of_nat (length (filter Option.is_none evs))"
proof (induction evs arbitrary: q)
  case (Cons e evs)
  then show ?case by (cases e) (simp_all add: put_on_success_def put_on_error_def)
qed simp

lemma put_sends_effect:
  assumes "fold (put_send now) ns (q, s, r) = (q', s', r')"
  shows "length (pq_inflight_requests q') = length (pq_inflight_requests q) + length (filter (\<lambda>n. node_token n \<noteq> None) ns) \<and>
    q' = q\<lparr>pq_inflight_requests := pq_inflight_requests q'\<rparr> \<and>
    (sent_by now s \<longrightarrow> sent_by now s') \<and> timeout (inflight s') = timeout (inflight s) \<and>
    asked (outbox s') = asked (outbox s) @ List.map_filter (\<lambda>n. map_option (\<lambda>t. (node_address n,
      Some (PutRequestOf \<lparr>put_token = t, put_request_type = pq_request q\<rparr>))) (node_token n)) ns"
  using assms
proof (induction ns arbitrary: q s r)
  case Nil
  then show ?case by (simp add: List.map_filter_def)
next
  case (Cons n ns)
  obtain q1 s1 r1 where v: "put_send now n (q, s, r) = (q1, s1, r1)" by (metis prod_cases3)
  then have f: "fold (put_send now) ns (q1, s1, r1) = (q', s', r')" using Cons.prems by simp
  show ?case
  proof (cases "node_token n")
    case None
    then have "q1 = q" "s1 = s" using v by (simp_all add: put_send_def)
    then show ?thesis using Cons.IH [OF f] None by (simp add: List.map_filter_def)
  next
    case (Some t)
    then have q1: "q1 = q\<lparr>pq_inflight_requests := pq_inflight_requests q @ [next_tid s]\<rparr>"
      and s1: "s1 = snd (socket_request now (node_address n) \<lparr>requester_id = fst (id_random r),
          request_type = PutRequestOf \<lparr>put_token = t, put_request_type = pq_request q\<rparr>\<rparr> s)"
      using v by (auto simp: put_send_def case_prod_beta Let_def)
    show ?thesis using Cons.IH [OF f] Some
      by (simp add: q1 s1 sent_by_request asked_def socket_request_outbox List.map_filter_def)
  qed
qed

lemma put_start_Ok:
  assumes "put_start now ns (q, s, r) = Some (Inr (), q1, s1, r1)"
  shows "pq_inflight_requests q = []" "fold (put_send now) (ns @ pq_extra_nodes q) (q, s, r) = (q1, s1, r1)"
  using assms by (auto simp: put_start_def put_started_def split: if_splits)

text \<open>C28: a put query that sent at least one request ends: once the request timeout has passed, polling it
  reports a concurrency conflict, or a timeout when no node acknowledged, or success with the number of nodes that
  acknowledged; it neither stays pending nor reports the error the nodes answered with.\<close>

theorem put_finishes:
  assumes "put_start now ns (put_query_new t req extra, s, r) = Some (Inr (), q1, s1, r1)"
    and "list_ex (\<lambda>n. node_token n \<noteq> None) (ns @ (case extra of Some e \<Rightarrow> e | None \<Rightarrow> []))"
    and "sent_by now s" "now + timeout (inflight s) \<le> now'"
    and "timeout (inflight s2) = timeout (inflight s1)"
    and "list_all (\<lambda>tid. requests (inflight s2) tid \<in> {None, requests (inflight s1) tid}) (pq_inflight_requests q1)"
    and "length evs < 2 ^ 32"
  shows "let acks = length (filter Option.is_none evs); result = poll_completion now' s2 (fold put_answer evs q1) in
    (\<exists>e. result = Inl (PutErrorConcurrency e)) \<or>
    acks = 0 \<and> result = Inl (PutErrorQuery Timeout) \<or>
    0 < acks \<and> result = Inr (Some \<lparr>po_target = t, po_stored_at = of_nat acks\<rparr>)"
proof -
  let ?q = "fold put_answer evs q1" and ?acks = "length (filter Option.is_none evs)"
  note e = put_sends_effect [OF put_start_Ok(2) [OF assms(1)]]
  have started: "put_started ?q"
    using e assms(2) put_answers_keep [of evs q1]
    by (auto simp: put_started_def put_query_new_def list_ex_iff filter_empty_conv)
  have "\<not> socket_inflight now' s2 tid" if "tid \<in> set (pq_inflight_requests q1)" for tid
    using e assms(3-6) that by (intro sent_by_timed_out [of now s1]) (auto simp: list_all_iff)
  then have d: "put_is_done now' s2 ?q" using put_answers_keep [of evs q1] by (auto simp: put_is_done_def list_all_iff)
  have q1: "q1 = (put_query_new t req extra)\<lparr>pq_inflight_requests := pq_inflight_requests q1\<rparr>" using e by blast
  have "pq_target q1 = t" "pq_stored_at q1 = 0" by (subst q1, simp add: put_query_new_def)+
  then have t: "pq_target ?q = t" "pq_stored_at ?q = of_nat ?acks" using put_answers_keep [of evs q1] by simp_all
  have "?acks < 2 ^ 32" using assms(7) length_filter_le [of Option.is_none evs] by linarith
  then have z: "pq_stored_at ?q = 0 \<longleftrightarrow> ?acks = 0"
    by (simp only: t word_of_nat_eq_0_iff) (auto dest: dvd_imp_le)
  have c: "most_common_error ?q = Some (k, err) \<Longrightarrow> \<exists>e. err = PutErrorConcurrency e" for k err
    by (auto simp: most_common_error_def split: list.splits if_splits prod.splits)
  show ?thesis using started d t z c
    by (auto simp: poll_completion_def Let_def split: option.split)
qed

text \<open>C37: a put query started on nodes without tokens reports success of the start, sends nothing, and then stays
  pending for ever, whatever arrives.\<close>

theorem put_without_tokens_hangs:
  assumes "0 < length ns" "length ns \<le> 255" "list_all (\<lambda>n. node_token n = None) ns"
  shows "put_start now ns (put_query_new t req None, s, r) = Some (Inr (), put_query_new t req None, s, r) \<and>
    poll_completion now' s' (fold put_answer evs (put_query_new t req None)) = Inr None"
proof
  have "fold (put_send now) ns (put_query_new t req None, s, r) = (put_query_new t req None, s, r)"
    using assms(3) by (induction ns) (auto simp: put_send_def)
  then show "put_start now ns (put_query_new t req None, s, r) = Some (Inr (), put_query_new t req None, s, r)"
    using assms(1,2) by (auto simp: put_start_def put_started_def put_query_new_def)
  show "poll_completion now' s' (fold put_answer evs (put_query_new t req None)) = Inr None"
    using put_answers_keep [of evs "put_query_new t req None"]
    by (simp add: poll_completion_def put_started_def) (simp add: put_query_new_def)
qed

definition wit_token_node :: node where
  "wit_token_node = node_new_with_token 0 (id_of []) (sock_addr_new 0x0A000001 6881) [1, 2]"

definition wit_put_started :: "put_query \<times> krpc_socket \<times> rng" where
  "wit_put_started = snd (the (put_start 20 [wit_token_node] (put_query_new (id_of []) wit_put_request None, wit_socket, \<lambda>_. 7)))"

theorem put_finishes_witness:
  "let acks = length (filter Option.is_none [None, Some (wit_error 203)]);
       result = poll_completion (20 + DEFAULT_REQUEST_TIMEOUT) (fst (snd wit_put_started))
         (fold put_answer [None, Some (wit_error 203)] (fst wit_put_started)) in
    (\<exists>e. result = Inl (PutErrorConcurrency e)) \<or>
    acks = 0 \<and> result = Inl (PutErrorQuery Timeout) \<or>
    0 < acks \<and> result = Inr (Some \<lparr>po_target = id_of [], po_stored_at = of_nat acks\<rparr>)"
proof (rule put_finishes)
  show "put_start 20 [wit_token_node] (put_query_new (id_of []) wit_put_request None, wit_socket, \<lambda>_. 7) =
      Some (Inr (), fst wit_put_started, fst (snd wit_put_started), snd (snd wit_put_started))"
    by (simp add: wit_put_started_def put_start_def put_started_def put_query_new_def)
  show "list_ex (\<lambda>n. node_token n \<noteq> None) ([wit_token_node] @ (case None of Some e \<Rightarrow> e | None \<Rightarrow> []))"
    by (simp add: wit_token_node_def node_new_with_token_def)
  show "sent_by 20 wit_socket" "20 + timeout (inflight wit_socket) \<le> 20 + DEFAULT_REQUEST_TIMEOUT"
    by (simp_all add: sent_by_def wit_socket_def)
qed (simp_all add: list_all_iff)

theorem put_without_tokens_hangs_witness:
  "put_start 20 [wit_node 1 0x0A000001] (put_query_new (id_of []) wit_put_request None, wit_socket, \<lambda>_. 7) =
     Some (Inr (), put_query_new (id_of []) wit_put_request None, wit_socket, \<lambda>_. 7) \<and>
   poll_completion 1000000000000 wit_socket (fold put_answer [] (put_query_new (id_of []) wit_put_request None)) = Inr None"
  by (rule put_without_tokens_hangs) (simp_all add: wit_node_def node_new_def)

end
