(* ===== verification/Rpc.thy ===== *)
theory Rpc
  imports Server Put_Query "HOL-Library.AList"
begin

text \<open>
  The node itself, from \<^verbatim>\<open>src/src/rpc.rs\<close>, \<^verbatim>\<open>src/src/rpc/config.rs\<close> and \<^verbatim>\<open>src/src/rpc/info.rs\<close>: routing table, socket, server, running
  queries and the cache of finished ones, with the handlers that one \<open>tick\<close> composes. The hash maps of running
  queries are association lists whose order stands for the unspecified iteration order. The clock is an
  argument of each handler, the random supply is a component of the state, and third-party functions
  are in the environment record. Where the code panics the handler returns \<open>None\<close>. Logging is left out.
\<close>

section \<open>State\<close>

definition REFRESH_TABLE_INTERVAL :: duration where
  "REFRESH_TABLE_INTERVAL = from_secs (15 * 60)"

definition PING_TABLE_INTERVAL :: duration where
  "PING_TABLE_INTERVAL = from_secs (5 * 60)"

definition MAX_CACHED_ITERATIVE_QUERIES :: nat where
  "MAX_CACHED_ITERATIVE_QUERIES = 1000"

declare REFRESH_TABLE_INTERVAL_def [const_facts] PING_TABLE_INTERVAL_def [const_facts]
  MAX_CACHED_ITERATIVE_QUERIES_def [const_facts]

definition DEFAULT_BOOTSTRAP_NODES :: "bytes list" where
  "DEFAULT_BOOTSTRAP_NODES =
     [ascii ''router.bittorrent.com:6881'', ascii ''dht.transmissionbt.com:6881'',
      ascii ''dht.libtorrent.org:25401'', ascii ''relay.pkarr.org:6881'']"

record cached_query =
  cq_closest_responding_nodes :: "node list"
  cq_dht_size_estimate :: f64
  cq_responders_dht_size_estimate :: f64
  cq_subnets :: nat
  cq_is_find_node :: bool

record ('pc, 'ic, 'im, 'mu, 'q, 'be) rpc_env =
  env_crc :: crc32c
  env_crypto :: crypto
  env_stores :: "('pc, 'ic, 'im, 'mu) stores"
  env_cache :: "(id, cached_query, 'q) lru_ops"
  env_bencode :: "'be bencode"
  env_powf :: "f64 \<Rightarrow> f64 \<Rightarrow> f64"

record ('ic, 'im, 'mu, 'q) rpc =
  bootstrap :: "sock_addr list"
  socket :: krpc_socket
  routing_table :: routing_table
  last_table_refresh :: instant
  last_table_ping :: instant
  cached_iterative_queries :: 'q
  iterative_queries :: "(id \<times> iterative_query) list"
  put_queries :: "(id \<times> put_query) list"
  dht_size_estimates_sum :: f64
  responders_based_dht_size_estimates_sum :: f64
  responders_based_dht_size_estimates_count :: nat
  subnets_sum :: nat
  rpc_server :: "('ic, 'im, 'mu) server"
  public_address :: "sock_addr option"
  firewalled :: bool
  rpc_rng :: rng

record get_query_outcome =
  go_id :: id
  go_closest_nodes :: "node list"
  go_mutable_outcome :: "get_mutable_outcome option"

record rpc_tick_report =
  done_get_queries :: "get_query_outcome list"
  done_put_queries :: "(id \<times> (put_error + put_outcome)) list"
  new_query_response :: "(id \<times> query_response) option"

record config =
  cfg_bootstrap :: "sock_addr list option"
  cfg_port :: "u16 option"
  cfg_request_timeout :: duration
  cfg_server_settings :: server_settings
  cfg_server_mode :: bool
  cfg_public_ip :: "u32 option"
  cfg_bind_address :: "u32 option"

definition config_default :: config where
  "config_default = \<lparr>cfg_bootstrap = None, cfg_port = None, cfg_request_timeout = DEFAULT_REQUEST_TIMEOUT,
     cfg_server_settings = server_settings_default, cfg_server_mode = False, cfg_public_ip = None,
     cfg_bind_address = None\<rparr>"

text \<open>\<open>ToSocketAddrs\<close> (name resolution) is an argument; a name that does not resolve contributes nothing.\<close>

definition to_socket_address :: "('a \<Rightarrow> 'io + (ip_addr \<times> u16) list) \<Rightarrow> 'a list \<Rightarrow> sock_addr list" where
  "to_socket_address resolve names =
     concat (map (\<lambda>name. case resolve name of
         Inr addrs \<Rightarrow> List.map_filter (\<lambda>(ip, port). case ip of IpV4 a \<Rightarrow> Some (sock_addr_new a port) | IpV6 _ \<Rightarrow> None) addrs
       | Inl _ \<Rightarrow> []) names)"

definition rpc_new ::
  "('pc, 'ic, 'im, 'mu, 'q, 'be) rpc_env \<Rightarrow> (sock_addr \<Rightarrow> 'io + sock_addr) \<Rightarrow> (bytes \<Rightarrow> 'io + (ip_addr \<times> u16) list) \<Rightarrow>
     instant \<Rightarrow> rng \<Rightarrow> config \<Rightarrow> 'io + ('ic, 'im, 'mu, 'q) rpc" where
  "rpc_new env bind resolve now r cfg =
     (let (a, r1) = (case cfg_public_ip cfg of Some ip \<Rightarrow> from_ipv4 (env_crc env) ip r | None \<Rightarrow> id_random r)
      in bindE (socket_new bind now (cfg_bind_address cfg) (cfg_port cfg) (cfg_request_timeout cfg) (cfg_server_mode cfg)) (\<lambda>s.
           let (srv, r2) = server_new (env_stores env) now r1 (cfg_server_settings cfg)
           in Inr \<lparr>bootstrap = (case cfg_bootstrap cfg of
                     Some addrs \<Rightarrow> addrs | None \<Rightarrow> to_socket_address resolve DEFAULT_BOOTSTRAP_NODES),
                   socket = s, routing_table = rt_new a, last_table_refresh = now, last_table_ping = now,
                   cached_iterative_queries = lru_new (env_cache env) MAX_CACHED_ITERATIVE_QUERIES,
                   iterative_queries = [], put_queries = [], dht_size_estimates_sum = Fin 0,
                   responders_based_dht_size_estimates_sum = Fin 1000000,
                   responders_based_dht_size_estimates_count = 0, subnets_sum = 20,
                   rpc_server = srv, public_address = None, firewalled = True, rpc_rng = r2\<rparr>))"

section \<open>Getters\<close>

definition rpc_id :: "('ic, 'im, 'mu, 'q) rpc \<Rightarrow> id" where
  "rpc_id p = rt_id (routing_table p)"

definition rpc_local_addr :: "('ic, 'im, 'mu, 'q) rpc \<Rightarrow> sock_addr" where
  "rpc_local_addr p = local_addr (socket p)"

definition rpc_server_mode :: "('ic, 'im, 'mu, 'q) rpc \<Rightarrow> bool" where
  "rpc_server_mode p = server_mode (socket p)"

definition cached_len :: "('pc, 'ic, 'im, 'mu, 'q, 'be) rpc_env \<Rightarrow> ('ic, 'im, 'mu, 'q) rpc \<Rightarrow> nat" where
  "cached_len env p = lru_len (env_cache env) (cached_iterative_queries p)"

definition rpc_dht_size_estimate :: "('pc, 'ic, 'im, 'mu, 'q, 'be) rpc_env \<Rightarrow> ('ic, 'im, 'mu, 'q) rpc \<Rightarrow> nat \<times> f64" where
  "rpc_dht_size_estimate env p =
     (f64_to_uint USIZE_MAX (dht_size_estimates_sum p) div max (cached_len env p) 1,
      f64_mul (round_f64 (281 / 1000)) (env_powf env (f64_of_nat (cached_len env p)) (f64_neg (round_f64 (529 / 1000)))))"

definition responders_based_dht_size_estimate :: "('ic, 'im, 'mu, 'q) rpc \<Rightarrow> nat" where
  "responders_based_dht_size_estimate p =
     f64_to_uint USIZE_MAX (responders_based_dht_size_estimates_sum p) div
       max (responders_based_dht_size_estimates_count p) 1"

definition average_subnets :: "('pc, 'ic, 'im, 'mu, 'q, 'be) rpc_env \<Rightarrow> ('ic, 'im, 'mu, 'q) rpc \<Rightarrow> nat" where
  "average_subnets env p = subnets_sum p div max (cached_len env p) 1"

record info =
  info_id :: id
  info_local_addr :: sock_addr
  info_public_address :: "sock_addr option"
  info_firewalled :: bool
  info_dht_size_estimate :: "nat \<times> f64"
  info_server_mode :: bool

definition rpc_info :: "('pc, 'ic, 'im, 'mu, 'q, 'be) rpc_env \<Rightarrow> ('ic, 'im, 'mu, 'q) rpc \<Rightarrow> info" where
  "rpc_info env p = \<lparr>info_id = rpc_id p, info_local_addr = rpc_local_addr p, info_public_address = public_address p,
     info_firewalled = firewalled p, info_dht_size_estimate = rpc_dht_size_estimate env p,
     info_server_mode = rpc_server_mode p\<rparr>"

section \<open>Requests of the node\<close>

definition rpc_request :: "instant \<Rightarrow> sock_addr \<Rightarrow> request_specific \<Rightarrow> ('ic, 'im, 'mu, 'q) rpc \<Rightarrow> u32 \<times> ('ic, 'im, 'mu, 'q) rpc" where
  "rpc_request now addr req p = (let (tid, s) = socket_request now addr req (socket p) in (tid, p\<lparr>socket := s\<rparr>))"

definition rpc_response :: "sock_addr \<Rightarrow> u32 \<Rightarrow> response_specific \<Rightarrow> ('ic, 'im, 'mu, 'q) rpc \<Rightarrow> ('ic, 'im, 'mu, 'q) rpc" where
  "rpc_response addr tid resp p = p\<lparr>socket := socket_response addr tid resp (socket p)\<rparr>"

definition rpc_error :: "sock_addr \<Rightarrow> u32 \<Rightarrow> error_specific \<Rightarrow> ('ic, 'im, 'mu, 'q) rpc \<Rightarrow> ('ic, 'im, 'mu, 'q) rpc" where
  "rpc_error addr tid err p = p\<lparr>socket := socket_error addr tid err (socket p)\<rparr>"

definition rpc_ping :: "instant \<Rightarrow> sock_addr \<Rightarrow> ('ic, 'im, 'mu, 'q) rpc \<Rightarrow> ('ic, 'im, 'mu, 'q) rpc" where
  "rpc_ping now addr p = snd (rpc_request now addr \<lparr>requester_id = rpc_id p, request_type = PingRequest\<rparr> p)"

text \<open>\<open>get\<close>: the state of a query under construction is the query, the socket and the random supply.\<close>

definition rpc_get ::
  "('pc, 'ic, 'im, 'mu, 'q, 'be) rpc_env \<Rightarrow> instant \<Rightarrow> get_request_specific \<Rightarrow> sock_addr list option \<Rightarrow>
     ('ic, 'im, 'mu, 'q) rpc \<Rightarrow> query_response list option \<times> ('ic, 'im, 'mu, 'q) rpc" where
  "rpc_get env now request extra_nodes p =
     (let target = get_request_target request
      in case map_of (iterative_queries p) target of
           Some query \<Rightarrow> (Some (iq_responses query), p)
         | None \<Rightarrow>
             let q0 = query_new (rpc_id p) target request;
                 closest = rt_closest_secure (env_crc env) (routing_table p) target
                   (responders_based_dht_size_estimate p) (average_subnets env p);
                 st0 = (q0, socket p, rpc_rng p);
                 st1 = (if closest = [] \<or> length closest < length (bootstrap p)
                        then fold (query_visit now) (bootstrap p) st0 else st0);
                 st2 = (case extra_nodes of Some extra \<Rightarrow> fold (query_visit now) extra st1 | None \<Rightarrow> st1);
                 (found, cache) = lru_get (env_cache env) (cached_iterative_queries p) target;
                 q3 = fold (add_candidate (env_crc env)) closest (fst st2);
                 q4 = (case found of
                         Some cached \<Rightarrow> fold (add_candidate (env_crc env)) (cq_closest_responding_nodes cached) q3
                       | None \<Rightarrow> q3);
                 (q5, s, r) = query_start now (q4, snd st2)
             in (None, p\<lparr>socket := s, rpc_rng := r, cached_iterative_queries := cache,
                        iterative_queries := AList.update target q5 (iterative_queries p)\<rparr>))"

text \<open>The check of \<open>put\<close> against a mutable put in flight: stop with a result, or go on, after removing the
  query in flight or not.\<close>

datatype put_decision = StopWith "put_error + unit" | Replace | NoConflict

definition put_conflict :: "(id \<times> put_query) list \<Rightarrow> put_request_specific \<Rightarrow> put_decision" where
  "put_conflict queries request =
     (case request of
        PutMutable new \<Rightarrow>
          (case map_option pq_request (map_of queries (pm_target new)) of
             Some (PutMutable inflight_request) \<Rightarrow>
               if pm_sig new = pm_sig inflight_request then StopWith (Inr ())
               else if pm_seq new < pm_seq inflight_request then StopWith (Inl (PutErrorConcurrency NotMostRecent))
               else (case pm_cas new of
                   Some cas \<Rightarrow>
                     if cas = pm_seq inflight_request then Replace
                     else StopWith (Inl (PutErrorConcurrency CasFailed))
                 | None \<Rightarrow> StopWith (Inl (PutErrorConcurrency ConflictRisk)))
           | _ \<Rightarrow> NoConflict)
      | _ \<Rightarrow> NoConflict)"

definition rpc_put_start ::
  "('pc, 'ic, 'im, 'mu, 'q, 'be) rpc_env \<Rightarrow> instant \<Rightarrow> put_request_specific \<Rightarrow> node list option \<Rightarrow>
     ('ic, 'im, 'mu, 'q) rpc \<Rightarrow> ((put_error + unit) \<times> ('ic, 'im, 'mu, 'q) rpc) option" where
  "rpc_put_start env now request extra_nodes p0 =
     (let target = put_target request;
          query = put_query_new target request extra_nodes;
          (found, cache) = lru_get (env_cache env) (cached_iterative_queries p0) target;
          p = p0\<lparr>cached_iterative_queries := cache\<rparr>;
          usable = (case found of
              Some cached \<Rightarrow>
                let nodes = cq_closest_responding_nodes cached
                in if nodes \<noteq> [] \<and> list_ex (valid_token now) nodes then Some nodes else None
            | None \<Rightarrow> None)
      in case usable of
           Some nodes \<Rightarrow>
             (case put_start now nodes (query, socket p, rpc_rng p) of
                None \<Rightarrow> None
              | Some (result, query', s, r) \<Rightarrow>
                  let p' = p\<lparr>socket := s, rpc_rng := r\<rparr>
                  in Some (case result of
                       Inl err \<Rightarrow> (Inl err, p')
                     | Inr _ \<Rightarrow> (Inr (), p'\<lparr>put_queries := AList.update target query' (put_queries p')\<rparr>)))
         | None \<Rightarrow>
             let salt = (case request of PutMutable args \<Rightarrow> pm_salt args | _ \<Rightarrow> None);
                 p' = snd (rpc_get env now (GetGetValue \<lparr>gvq_target = target, gvq_seq = None, gvq_salt = salt\<rparr>) None p)
             in Some (Inr (), p'\<lparr>put_queries := AList.update target query (put_queries p')\<rparr>))"

definition rpc_put ::
  "('pc, 'ic, 'im, 'mu, 'q, 'be) rpc_env \<Rightarrow> instant \<Rightarrow> put_request_specific \<Rightarrow> node list option \<Rightarrow>
     ('ic, 'im, 'mu, 'q) rpc \<Rightarrow> ((put_error + unit) \<times> ('ic, 'im, 'mu, 'q) rpc) option" where
  "rpc_put env now request extra_nodes p =
     (case put_conflict (put_queries p) request of
        StopWith result \<Rightarrow> Some (result, p)
      | Replace \<Rightarrow> rpc_put_start env now request extra_nodes
          (p\<lparr>put_queries := AList.delete (put_target request) (put_queries p)\<rparr>)
      | NoConflict \<Rightarrow> rpc_put_start env now request extra_nodes p)"

section \<open>Incoming messages\<close>

definition rpc_handle_request ::
  "('pc, 'ic, 'im, 'mu, 'q, 'be) rpc_env \<Rightarrow> instant \<Rightarrow> sock_addr \<Rightarrow> u32 \<Rightarrow> request_specific \<Rightarrow>
     ('ic, 'im, 'mu, 'q) rpc \<Rightarrow> ('ic, 'im, 'mu, 'q) rpc" where
  "rpc_handle_request env now from_addr tid request p0 =
     (let p1 = (if bootstrap p0 = [] then
                  (case request_type request of
                     FindNodeRequest param \<Rightarrow>
                       p0\<lparr>routing_table := fst (rt_add (env_crc env) now (routing_table p0) (node_new now (fnq_target param) from_addr))\<rparr>
                   | _ \<Rightarrow> p0)
                else p0);
          is_ping = (case request_type request of PingRequest \<Rightarrow> True | _ \<Rightarrow> False);
          p2 = (if rpc_server_mode p1 then
                  let (answer, srv, r) = server_handle_request (env_crc env) (env_crypto env) (env_stores env) now (rpc_rng p1)
                        (routing_table p1) from_addr request (rpc_server p1);
                      p' = p1\<lparr>rpc_server := srv, rpc_rng := r\<rparr>
                  in (case answer of
                        Some (ErrorMessage err) \<Rightarrow> rpc_error from_addr tid err p'
                      | Some (Response resp) \<Rightarrow> rpc_response from_addr tid resp p'
                      | _ \<Rightarrow> p')
                else p1)
      in case public_address p2 of
           Some our_address \<Rightarrow>
             if from_addr = our_address \<and> is_ping then
               let p3 = p2\<lparr>firewalled := False\<rparr>
               in if is_valid_for_ip (env_crc env) (rpc_id p3) (sa_ip our_address) then p3
                  else let (new_id, r) = from_ipv4 (env_crc env) (sa_ip our_address) (rpc_rng p3);
                           p4 = snd (rpc_get env now (GetFindNode \<lparr>fnq_target = new_id\<rparr>) None (p3\<lparr>rpc_rng := r\<rparr>))
                       in p4\<lparr>routing_table := rt_new new_id\<rparr>
             else p2
         | None \<Rightarrow> p2)"

text \<open>What a response changes in the query it belongs to, and the value it delivers.\<close>

definition query_learn ::
  "('pc, 'ic, 'im, 'mu, 'q, 'be) rpc_env \<Rightarrow> instant \<Rightarrow> sock_addr \<Rightarrow> message \<Rightarrow> iterative_query \<Rightarrow> iterative_query" where
  "query_learn env now from_addr m q0 =
     (let q1 = (case get_closer_nodes m of
              Some nodes \<Rightarrow> fold (add_candidate (env_crc env)) nodes q0 | None \<Rightarrow> q0);
          q2 = (case get_token m of
              Some (rid, token) \<Rightarrow> add_responding_node (env_crc env) (node_new_with_token now rid from_addr token) q1
            | None \<Rightarrow> q1)
      in case requester_ip m of Some proposed \<Rightarrow> add_address_vote proposed q2 | None \<Rightarrow> q2)"

definition query_salt :: "iterative_query \<Rightarrow> bytes option" where
  "query_salt q = (case request_type (iq_request q) of GetValueRequest args \<Rightarrow> gvq_salt args | _ \<Rightarrow> None)"

definition query_deliver ::
  "crypto \<Rightarrow> message_type \<Rightarrow> bool \<Rightarrow> iterative_query \<Rightarrow> iterative_query \<times> query_response option" where
  "query_deliver cr mt is_mutable_get q =
     (let note = (\<lambda>f q. if is_mutable_get then query_record f q else q)
      in case mt of
           Response (GetPeersResponse a) \<Rightarrow>
             (query_add_response (PeersFound (gpr_values a)) (note outcome_record_invalid_response q),
              Some (PeersFound (gpr_values a)))
         | Response (GetImmutableResponse a) \<Rightarrow>
             (let q' = note outcome_record_invalid_response q
              in if validate_immutable cr (gir_v a) (query_target q')
                 then (query_add_response (ImmutableFound (gir_v a)) q', Some (ImmutableFound (gir_v a)))
                 else (q', None))
         | Response (GetMutableResponse a) \<Rightarrow>
             (case from_dht_message cr (query_target q) (gmr_k a) (gmr_v a) (gmr_seq a) (gmr_sig a) (query_salt q) of
                Inr item \<Rightarrow>
                  (query_add_response (MutableFound item) (note outcome_record_value q), Some (MutableFound item))
              | Inl _ \<Rightarrow> (note outcome_record_invalid_value q, None))
         | Response (NoMoreRecentResponse a) \<Rightarrow> (note outcome_record_no_more_recent q, None)
         | Response (NoValuesResponse a) \<Rightarrow> (note outcome_record_no_values q, None)
         | ErrorMessage _ \<Rightarrow> (note outcome_record_krpc_error q, None)
         | Response (PingResponse a) \<Rightarrow> (note outcome_record_invalid_response q, None)
         | Response (FindNodeResponse a) \<Rightarrow> (note outcome_record_invalid_response q, None)
         | Request _ \<Rightarrow> (note outcome_record_invalid_response q, None))"

definition find_value :: "('v \<Rightarrow> bool) \<Rightarrow> ('k \<times> 'v) list \<Rightarrow> ('k \<times> 'v) option" where
  "find_value P kvs = find (\<lambda>kv. P (snd kv)) kvs"

definition rpc_handle_response ::
  "('pc, 'ic, 'im, 'mu, 'q, 'be) rpc_env \<Rightarrow> instant \<Rightarrow> sock_addr \<Rightarrow> message \<Rightarrow> ('ic, 'im, 'mu, 'q) rpc \<Rightarrow>
     (id \<times> query_response) option \<times> ('ic, 'im, 'mu, 'q) rpc" where
  "rpc_handle_response env now from_addr m p =
     (if read_only m then
        (None, case find_value (\<lambda>q. is_inflight_query_request q (transaction_id m)) (iterative_queries p) of
           Some (k, q) \<Rightarrow> p\<lparr>iterative_queries :=
             AList.update k (query_record outcome_record_invalid_response q) (iterative_queries p)\<rparr>
         | None \<Rightarrow> p)
      else case find_value (\<lambda>q. put_inflight q (transaction_id m)) (put_queries p) of
        Some (k, q) \<Rightarrow>
          (None, p\<lparr>put_queries := AList.update k
             (case message_type m of
                Response (PingResponse _) \<Rightarrow> put_on_success q
              | ErrorMessage err \<Rightarrow> put_on_error err q
              | _ \<Rightarrow> q) (put_queries p)\<rparr>)
      | None \<Rightarrow>
          (case find_value (\<lambda>q. query_is_inflight q (transaction_id m)) (iterative_queries p) of
             Some (k, q) \<Rightarrow>
               let is_mutable_get = is_inflight_query_request q (transaction_id m) \<and>
                     (case request_type (iq_request q) of GetValueRequest _ \<Rightarrow> True | _ \<Rightarrow> False);
                   (q', found) = query_deliver (env_crypto env) (message_type m) is_mutable_get (query_learn env now from_addr m q);
                   p' = p\<lparr>iterative_queries := AList.update k q' (iterative_queries p)\<rparr>
               in (case found of
                     Some resp \<Rightarrow> (Some (query_target q, resp), p')
                   | None \<Rightarrow>
                       (None, case get_author_id m of
                          Some a \<Rightarrow> p'\<lparr>routing_table := fst (rt_add (env_crc env) now (routing_table p') (node_new now a from_addr))\<rparr>
                        | None \<Rightarrow> p'))
           | None \<Rightarrow> (None, p)))"

definition rpc_handle_message ::
  "('pc, 'ic, 'im, 'mu, 'q, 'be) rpc_env \<Rightarrow> instant \<Rightarrow> udp_result \<Rightarrow> ('ic, 'im, 'mu, 'q) rpc \<Rightarrow>
     (id \<times> query_response) option \<times> ('ic, 'im, 'mu, 'q) rpc" where
  "rpc_handle_message env now input p0 =
     (let (received, s) = socket_recv_from (env_bencode env) now input (socket p0); p = p0\<lparr>socket := s\<rparr>
      in case received of
           None \<Rightarrow> (None, p)
         | Some (m, from_addr) \<Rightarrow>
             (case message_type m of
                Request request \<Rightarrow> (None, rpc_handle_request env now from_addr (transaction_id m) request p)
              | _ \<Rightarrow> rpc_handle_response env now from_addr m p))"

section \<open>Maintenance\<close>

definition try_switching_to_server_mode :: "('ic, 'im, 'mu, 'q) rpc \<Rightarrow> ('ic, 'im, 'mu, 'q) rpc" where
  "try_switching_to_server_mode p =
     (if \<not> rpc_server_mode p \<and> \<not> firewalled p then p\<lparr>socket := (socket p)\<lparr>server_mode := True\<rparr>\<rparr> else p)"

definition purge_and_ping_candidates :: "instant \<Rightarrow> ('ic, 'im, 'mu, 'q) rpc \<Rightarrow> id list \<times> sock_addr list" where
  "purge_and_ping_candidates now p =
     (let nodes = rt_nodes (routing_table p)
      in (map node_id (filter (is_stale now) nodes),
          map node_address (filter (\<lambda>n. \<not> is_stale now n \<and> should_ping now n) nodes)))"

definition purge_nodes :: "id list \<Rightarrow> ('ic, 'im, 'mu, 'q) rpc \<Rightarrow> ('ic, 'im, 'mu, 'q) rpc" where
  "purge_nodes ids p = p\<lparr>routing_table := foldl rt_remove (routing_table p) ids\<rparr>"

definition ping_nodes :: "instant \<Rightarrow> sock_addr list \<Rightarrow> ('ic, 'im, 'mu, 'q) rpc \<Rightarrow> ('ic, 'im, 'mu, 'q) rpc" where
  "ping_nodes now addrs p = fold (rpc_ping now) addrs p"

definition ping_and_purge :: "instant \<Rightarrow> ('ic, 'im, 'mu, 'q) rpc \<Rightarrow> ('ic, 'im, 'mu, 'q) rpc" where
  "ping_and_purge now p0 =
     (let p = p0\<lparr>last_table_ping := now\<rparr>; (to_purge, to_ping) = purge_and_ping_candidates now p
      in ping_nodes now to_ping (purge_nodes to_purge p))"

definition populate ::
  "('pc, 'ic, 'im, 'mu, 'q, 'be) rpc_env \<Rightarrow> instant \<Rightarrow> ('ic, 'im, 'mu, 'q) rpc \<Rightarrow> ('ic, 'im, 'mu, 'q) rpc" where
  "populate env now p0 =
     (let p = p0\<lparr>last_table_refresh := now\<rparr>
      in if bootstrap p = [] then p
         else snd (rpc_get env now (GetFindNode \<lparr>fnq_target = rpc_id p\<rparr>) None p))"

definition periodic_node_maintenance ::
  "('pc, 'ic, 'im, 'mu, 'q, 'be) rpc_env \<Rightarrow> instant \<Rightarrow> ('ic, 'im, 'mu, 'q) rpc \<Rightarrow> ('ic, 'im, 'mu, 'q) rpc" where
  "periodic_node_maintenance env now p =
     (let refresh_is_due = REFRESH_TABLE_INTERVAL \<le> elapsed now (last_table_refresh p);
          ping_is_due = PING_TABLE_INTERVAL \<le> elapsed now (last_table_ping p);
          should_populate = rt_is_empty (routing_table p) \<or> refresh_is_due;
          p1 = (if refresh_is_due then try_switching_to_server_mode p else p);
          p2 = (if ping_is_due then ping_and_purge now p1 else p1)
      in if should_populate then populate env now p2 else p2)"

section \<open>Finished queries\<close>

definition update_address_votes :: "instant \<Rightarrow> iterative_query \<Rightarrow> ('ic, 'im, 'mu, 'q) rpc \<Rightarrow> ('ic, 'im, 'mu, 'q) rpc" where
  "update_address_votes now query p =
     (case best_address query of
        None \<Rightarrow> p
      | Some new_address \<Rightarrow>
          let p1 = (if public_address p \<noteq> Some new_address
                    then rpc_ping now new_address (p\<lparr>firewalled := True\<rparr>) else p)
          in p1\<lparr>public_address := Some new_address\<rparr>)"

text \<open>\<open>-=\<close> on \<open>usize\<close>, which wraps around in a release build.\<close>

definition usize_sub :: "nat \<Rightarrow> nat \<Rightarrow> nat" where
  "usize_sub a b = (if b \<le> a then a - b else a + 2 ^ 64 - b)"

definition decrement_cached_stats :: "cached_query option \<Rightarrow> ('ic, 'im, 'mu, 'q) rpc \<Rightarrow> ('ic, 'im, 'mu, 'q) rpc" where
  "decrement_cached_stats query p =
     (case query of
        None \<Rightarrow> p
      | Some c \<Rightarrow>
          p\<lparr>dht_size_estimates_sum := f64_sub (dht_size_estimates_sum p) (cq_dht_size_estimate c),
            responders_based_dht_size_estimates_sum :=
              f64_sub (responders_based_dht_size_estimates_sum p) (cq_responders_dht_size_estimate c),
            subnets_sum := usize_sub (subnets_sum p) (cq_subnets c),
            responders_based_dht_size_estimates_count :=
              (if cq_is_find_node c then responders_based_dht_size_estimates_count p
               else usize_sub (responders_based_dht_size_estimates_count p) 1)\<rparr>)"

definition query_is_find_node :: "iterative_query \<Rightarrow> bool" where
  "query_is_find_node q = (case request_type (iq_request q) of FindNodeRequest _ \<Rightarrow> True | _ \<Rightarrow> False)"

definition cache_iterative_query ::
  "('pc, 'ic, 'im, 'mu, 'q, 'be) rpc_env \<Rightarrow> iterative_query \<Rightarrow> node list \<Rightarrow>
     ('ic, 'im, 'mu, 'q) rpc \<Rightarrow> ('ic, 'im, 'mu, 'q) rpc" where
  "cache_iterative_query env query closest_responding_nodes p =
     (let p1 = (if MAX_CACHED_ITERATIVE_QUERIES \<le> cached_len env p then
                  let (evicted, cache) = lru_pop (env_cache env) (cached_iterative_queries p)
                  in decrement_cached_stats (map_option snd evicted) (p\<lparr>cached_iterative_queries := cache\<rparr>)
                else p)
      in if closest_is_empty (iq_closest query) then p1
         else
           let estimate = closest_dht_size_estimate (iq_closest query);
               responders_estimate = closest_dht_size_estimate (iq_responders query);
               subnets = subnets_count (iq_closest query);
               (previous, cache) = lru_put (env_cache env) (cached_iterative_queries p1) (query_target query)
                 \<lparr>cq_closest_responding_nodes = closest_responding_nodes, cq_dht_size_estimate = estimate,
                  cq_responders_dht_size_estimate = responders_estimate, cq_subnets = subnets,
                  cq_is_find_node = query_is_find_node query\<rparr>;
               p2 = decrement_cached_stats previous (p1\<lparr>cached_iterative_queries := cache\<rparr>)
           in p2\<lparr>dht_size_estimates_sum := f64_add (dht_size_estimates_sum p2) estimate,
                 responders_based_dht_size_estimates_sum :=
                   f64_add (responders_based_dht_size_estimates_sum p2) responders_estimate,
                 subnets_sum := subnets_sum p2 + subnets,
                 responders_based_dht_size_estimates_count := responders_based_dht_size_estimates_count p2 + 1\<rparr>)"

definition tick_put_queries :: "instant \<Rightarrow> ('ic, 'im, 'mu, 'q) rpc \<Rightarrow> (id \<times> (put_error + put_outcome)) list" where
  "tick_put_queries now p =
     List.map_filter (\<lambda>(k, query). case poll_completion now (socket p) query of
         Inr (Some outcome) \<Rightarrow> Some (k, Inr outcome)
       | Inr None \<Rightarrow> None
       | Inl err \<Rightarrow> Some (k, Inl err)) (put_queries p)"

definition query_outcome :: "nat \<Rightarrow> nat \<Rightarrow> id \<Rightarrow> iterative_query \<Rightarrow> get_query_outcome" where
  "query_outcome estimate subnets k query =
     \<lparr>go_id = k,
      go_closest_nodes =
        (if query_is_find_node query then take MAX_BUCKET_SIZE_K (cn_nodes (iq_closest query))
         else take_until_secure (iq_responders query) estimate subnets),
      go_mutable_outcome =
        (case request_type (iq_request query) of GetValueRequest _ \<Rightarrow> Some (query_mutable_outcome query) | _ \<Rightarrow> None)\<rparr>"

fun tick_queries ::
  "instant \<Rightarrow> id \<Rightarrow> nat \<Rightarrow> nat \<Rightarrow> (id \<times> iterative_query) list \<Rightarrow> bool \<Rightarrow> krpc_socket \<times> rng \<Rightarrow>
     (id \<times> iterative_query) list \<times> get_query_outcome list \<times> bool \<times> krpc_socket \<times> rng" where
  "tick_queries now self_id estimate subnets [] finished st = ([], [], finished, st)"
| "tick_queries now self_id estimate subnets ((k, query) # rest) finished st =
     (let (is_done, query', st') = query_tick now (query, st);
          finished' = (if is_done \<and> query_is_find_node query' then k = self_id else finished);
          (rest', outcomes, finished'', st'') = tick_queries now self_id estimate subnets rest finished' st'
      in ((k, query') # rest',
          (if is_done then [query_outcome estimate subnets k query'] else []) @ outcomes, finished'', st''))"

definition tick_get_queries ::
  "('pc, 'ic, 'im, 'mu, 'q, 'be) rpc_env \<Rightarrow> instant \<Rightarrow> ('ic, 'im, 'mu, 'q) rpc \<Rightarrow>
     get_query_outcome list \<times> bool \<times> ('ic, 'im, 'mu, 'q) rpc" where
  "tick_get_queries env now p =
     (let (queries, outcomes, finished, s, r) =
        tick_queries now (rpc_id p) (responders_based_dht_size_estimate p) (average_subnets env p)
          (iterative_queries p) False (socket p, rpc_rng p)
      in (outcomes, finished, p\<lparr>iterative_queries := queries, socket := s, rpc_rng := r\<rparr>))"

text \<open>The body of the loop of \<open>cleanup_done_queries\<close>; the list of finished puts grows by those that fail to start.\<close>

definition cleanup_done_get ::
  "('pc, 'ic, 'im, 'mu, 'q, 'be) rpc_env \<Rightarrow> instant \<Rightarrow> get_query_outcome \<Rightarrow>
     (id \<times> (put_error + put_outcome)) list \<times> ('ic, 'im, 'mu, 'q) rpc \<Rightarrow>
     ((id \<times> (put_error + put_outcome)) list \<times> ('ic, 'im, 'mu, 'q) rpc) option" where
  "cleanup_done_get env now outcome = (\<lambda>(done_put, p0).
     case map_of (iterative_queries p0) (go_id outcome) of
       None \<Rightarrow> Some (done_put, p0)
     | Some query \<Rightarrow>
         let p = cache_iterative_query env query (go_closest_nodes outcome)
               (update_address_votes now query (p0\<lparr>iterative_queries := AList.delete (go_id outcome) (iterative_queries p0)\<rparr>))
         in if query_is_find_node query then Some (done_put, p)
            else case map_of (put_queries p) (go_id outcome) of
                None \<Rightarrow> Some (done_put, p)
              | Some put_query \<Rightarrow>
                  if put_started put_query then Some (done_put, p)
                  else case put_start now (go_closest_nodes outcome) (put_query, socket p, rpc_rng p) of
                      None \<Rightarrow> None
                    | Some (result, put_query', s, r) \<Rightarrow>
                        let p' = p\<lparr>socket := s, rpc_rng := r,
                                   put_queries := AList.update (go_id outcome) put_query' (put_queries p)\<rparr>
                        in Some (case result of
                             Inl err \<Rightarrow> (done_put @ [(go_id outcome, Inl err)], p')
                           | Inr _ \<Rightarrow> (done_put, p')))"

fun cleanup_done_gets ::
  "('pc, 'ic, 'im, 'mu, 'q, 'be) rpc_env \<Rightarrow> instant \<Rightarrow> get_query_outcome list \<Rightarrow>
     (id \<times> (put_error + put_outcome)) list \<times> ('ic, 'im, 'mu, 'q) rpc \<Rightarrow>
     ((id \<times> (put_error + put_outcome)) list \<times> ('ic, 'im, 'mu, 'q) rpc) option" where
  "cleanup_done_gets env now [] st = Some st"
| "cleanup_done_gets env now (outcome # outcomes) st =
     (case cleanup_done_get env now outcome st of
        None \<Rightarrow> None
      | Some st' \<Rightarrow> cleanup_done_gets env now outcomes st')"

definition cleanup_done_queries ::
  "('pc, 'ic, 'im, 'mu, 'q, 'be) rpc_env \<Rightarrow> instant \<Rightarrow> get_query_outcome list \<Rightarrow>
     (id \<times> (put_error + put_outcome)) list \<Rightarrow> ('ic, 'im, 'mu, 'q) rpc \<Rightarrow>
     ((id \<times> (put_error + put_outcome)) list \<times> ('ic, 'im, 'mu, 'q) rpc) option" where
  "cleanup_done_queries env now done_get done_put p =
     map_option (\<lambda>(done_put', p'). (done_put', p'\<lparr>put_queries := fold (\<lambda>(k, _). AList.delete k) done_put' (put_queries p')\<rparr>))
       (cleanup_done_gets env now done_get (done_put, p))"

text \<open>One tick. The datagram of \<open>recv_from\<close> arrives at an instant of its own, after the other steps.\<close>

definition rpc_tick ::
  "('pc, 'ic, 'im, 'mu, 'q, 'be) rpc_env \<Rightarrow> instant \<Rightarrow> instant \<Rightarrow> udp_result \<Rightarrow> ('ic, 'im, 'mu, 'q) rpc \<Rightarrow>
     (rpc_tick_report \<times> ('ic, 'im, 'mu, 'q) rpc) option" where
  "rpc_tick env now received_at input p =
     (let done_put = tick_put_queries now p; (done_get, finished_self_findnode, p1) = tick_get_queries env now p
      in case cleanup_done_queries env now done_get done_put p1 of
           None \<Rightarrow> None
         | Some (done_put', p2) \<Rightarrow>
             let p3 = periodic_node_maintenance env now p2;
                 (response, p4) = rpc_handle_message env received_at input p3
             in Some (\<lparr>done_get_queries = done_get, done_put_queries = done_put', new_query_response = response\<rparr>, p4))"

end
