(* ===== verification/Rpc_Invariant.thy ===== *)
theory Rpc_Invariant
  imports Rpc
begin

text \<open>
  The invariant of a node over every sequence of ticks, gets and puts: the routing table and the
  server keep theirs, each running query is filed under its target, keeps its candidates sorted and
  has collected only values that verify, and the statistics of the query cache follow a ledger in which
  exactly the cached queries are open. The subtractions on them never wrap.
\<close>

section \<open>The invariant\<close>

definition response_ok :: "crypto \<Rightarrow> id \<Rightarrow> query_response \<Rightarrow> bool" where
  "response_ok cr t resp =
     (case resp of
        PeersFound _ \<Rightarrow> True
      | ImmutableFound v \<Rightarrow> validate_immutable cr v t
      | MutableFound item \<Rightarrow>
          from_dht_message cr t (mi_key item) (mi_value item) (mi_seq item) (mi_signature item) (mi_salt item) = Inr item)"

definition report_ok :: "crypto \<Rightarrow> (id \<times> query_response) option \<Rightarrow> bool" where
  "report_ok cr found = (case found of Some (t, resp) \<Rightarrow> response_ok cr t resp | None \<Rightarrow> True)"

lemma report_ok_None [simp]: "report_ok cr None"
  by (simp add: report_ok_def)

definition query_ok :: "crc32c \<Rightarrow> crypto \<Rightarrow> id \<Rightarrow> iterative_query \<Rightarrow> bool" where
  "query_ok crc cr k q \<longleftrightarrow>
     cn_target (iq_closest q) = k \<and> cn_target (iq_responders q) = k \<and>
     closest_inv crc (iq_closest q) \<and> closest_inv crc (iq_responders q) \<and>
     list_all (response_ok cr k) (iq_responses q)"

definition filed :: "('k \<Rightarrow> 'v \<Rightarrow> bool) \<Rightarrow> ('k \<times> 'v) list \<Rightarrow> bool" where
  "filed P kvs \<longleftrightarrow> distinct (map fst kvs) \<and> list_all (\<lambda>kv. P (fst kv) (snd kv)) kvs"

text \<open>The statistics of the cache, and what filing a query and dropping one does to them. The estimates are sums in double precision, so they depend on
  the order of the events; the counter is not decremented for \<open>find_node\<close> queries.\<close>

record cache_stats =
  stat_estimates :: f64
  stat_responders :: f64
  stat_gets :: nat
  stat_subnets :: nat

definition stats_start :: cache_stats where
  "stats_start = \<lparr>stat_estimates = Fin 0, stat_responders = Fin 1000000, stat_gets = 0, stat_subnets = 20\<rparr>"

definition stats_file :: "cached_query \<Rightarrow> cache_stats \<Rightarrow> cache_stats" where
  "stats_file c s =
     \<lparr>stat_estimates = f64_add (stat_estimates s) (cq_dht_size_estimate c),
      stat_responders = f64_add (stat_responders s) (cq_responders_dht_size_estimate c),
      stat_gets = stat_gets s + 1, stat_subnets = stat_subnets s + cq_subnets c\<rparr>"

definition stats_drop :: "cached_query \<Rightarrow> cache_stats \<Rightarrow> cache_stats" where
  "stats_drop c s =
     \<lparr>stat_estimates = f64_sub (stat_estimates s) (cq_dht_size_estimate c),
      stat_responders = f64_sub (stat_responders s) (cq_responders_dht_size_estimate c),
      stat_gets = (if cq_is_find_node c then stat_gets s else stat_gets s - 1), stat_subnets = stat_subnets s - cq_subnets c\<rparr>"

text \<open>\<open>ledger s cs\<close>: the statistics are \<open>s\<close> after filing and dropping queries one by one, and exactly those of \<open>cs\<close> were filed and not yet dropped.\<close>

inductive ledger :: "cache_stats \<Rightarrow> cached_query multiset \<Rightarrow> bool" where
  ledger_start: "ledger stats_start {#}"
| ledger_file: "ledger s cs \<Longrightarrow> size cs < MAX_CACHED_ITERATIVE_QUERIES \<Longrightarrow> ledger (stats_file c s) (add_mset c cs)"
| ledger_drop: "ledger s cs \<Longrightarrow> c \<in># cs \<Longrightarrow> ledger (stats_drop c s) (cs - {#c#})"

definition stats_of :: "('ic, 'im, 'mu, 'q) rpc \<Rightarrow> cache_stats" where
  "stats_of p = \<lparr>stat_estimates = dht_size_estimates_sum p, stat_responders = responders_based_dht_size_estimates_sum p,
     stat_gets = responders_based_dht_size_estimates_count p, stat_subnets = subnets_sum p\<rparr>"

definition cached_set :: "(id, cached_query, 'q) lru_ops \<Rightarrow> 'q \<Rightarrow> cached_query multiset" where
  "cached_set ops c = image_mset snd (mset (lru_iter ops c))"

definition cache_ok :: "(id, cached_query, 'q) lru_ops \<Rightarrow> 'q \<Rightarrow> cache_stats \<Rightarrow> bool" where
  "cache_ok ops c s \<longleftrightarrow> lru_ok ops c \<and> lru_cap ops c = MAX_CACHED_ITERATIVE_QUERIES \<and> ledger s (cached_set ops c)"

definition rpc_inv :: "('pc, 'ic, 'im, 'mu, 'q, 'be) rpc_env \<Rightarrow> ('ic, 'im, 'mu, 'q) rpc \<Rightarrow> bool" where
  "rpc_inv env p \<longleftrightarrow>
     rt_inv (env_crc env) (routing_table p) \<and>
     server_inv (env_crypto env) (env_stores env) (rpc_server p) \<and>
     filed (query_ok (env_crc env) (env_crypto env)) (iterative_queries p) \<and>
     filed (\<lambda>k q. pq_target q = k) (put_queries p) \<and>
     cache_ok (env_cache env) (cached_iterative_queries p) (stats_of p)"

definition env_ok :: "('pc, 'ic, 'im, 'mu, 'q, 'be) rpc_env \<Rightarrow> bool" where
  "env_ok env \<longleftrightarrow> stores_ok (env_stores env) \<and> lru_cache (env_cache env)"

section \<open>Maps\<close>

lemma filed_Nil [simp]: "filed P []"
  by (simp add: filed_def)

lemma set_update_subset: "set (AList.update k v kvs) \<subseteq> insert (k, v) (set kvs)"
  by (induction kvs) auto

lemma filed_update: "filed P kvs \<Longrightarrow> P k v \<Longrightarrow> filed P (AList.update k v kvs)"
  using set_update_subset [of k v kvs] by (auto simp: filed_def list_all_iff distinct_update)

lemma filed_delete: "filed P kvs \<Longrightarrow> filed P (AList.delete k kvs)"
  by (auto simp: filed_def list_all_iff AList.delete_eq distinct_map_filter)

lemma filed_lookup: "filed P kvs \<Longrightarrow> map_of kvs k = Some v \<Longrightarrow> P k v"
  by (auto simp: filed_def list_all_iff dest: map_of_SomeD)

lemma find_value_Some: "find_value Q kvs = Some (k, v) \<Longrightarrow> (k, v) \<in> set kvs \<and> Q v"
  unfolding find_value_def find_Some_iff by (metis nth_mem snd_conv)

lemma filed_find: "filed P kvs \<Longrightarrow> find_value Q kvs = Some (k, v) \<Longrightarrow> P k v \<and> Q v"
  using find_value_Some [of Q kvs k v] by (auto simp: filed_def list_all_iff)

section \<open>Queries\<close>

lemma query_ok_new: "query_ok crc cr k (query_new rid k req)"
  by (simp add: query_ok_def query_new_def Let_def)

lemma query_ok_same_walk: "same_walk q q' \<Longrightarrow> query_ok crc cr k q' \<longleftrightarrow> query_ok crc cr k q"
  by (simp add: query_ok_def same_walk_def)

lemma query_ok_visits: "query_ok crc cr k (fst (fold (query_visit now) as st)) \<longleftrightarrow> query_ok crc cr k (fst st)"
  using visits_effect [of now as "fst st" "fst (snd st)" "snd (snd st)"]
  by (cases "fold (query_visit now) as st") (simp add: query_ok_same_walk)

lemma query_ok_add_candidate: "query_ok crc cr k q \<Longrightarrow> query_ok crc cr k (add_candidate crc n q)"
  by (simp add: query_ok_def add_candidate_def closest_inv_add)

lemma query_ok_add_candidates: "query_ok crc cr k q \<Longrightarrow> query_ok crc cr k (fold (add_candidate crc) ns q)"
  by (induction ns arbitrary: q) (simp_all add: query_ok_add_candidate)

lemma query_ok_responding: "query_ok crc cr k q \<Longrightarrow> query_ok crc cr k (add_responding_node crc n q)"
  by (simp add: query_ok_def add_responding_node_def closest_inv_add)

lemma query_ok_vote [simp]: "query_ok crc cr k (add_address_vote a q) \<longleftrightarrow> query_ok crc cr k q"
  by (simp add: query_ok_def add_address_vote_def)

lemma query_ok_record [simp]: "query_ok crc cr k (query_record f q) \<longleftrightarrow> query_ok crc cr k q"
  by (simp add: query_ok_def query_record_def)

lemma query_ok_response:
  "query_ok crc cr k q \<Longrightarrow> response_ok cr k resp \<Longrightarrow> query_ok crc cr k (query_add_response resp q)"
  by (simp add: query_ok_def query_add_response_def)

lemma query_ok_target: "query_ok crc cr k q \<Longrightarrow> query_target q = k"
  by (simp add: query_ok_def query_target_def)

lemma query_ok_learn: "query_ok (env_crc env) cr k q \<Longrightarrow> query_ok (env_crc env) cr k (query_learn env now a m q)"
  by (auto simp: query_learn_def Let_def query_ok_add_candidates query_ok_responding split: option.split)

lemma from_dht_message_fields:
  "from_dht_message cr t key v seq sig salt = Inr item \<Longrightarrow>
     from_dht_message cr t (mi_key item) (mi_value item) (mi_seq item) (mi_signature item) (mi_salt item) = Inr item"
  by (auto simp: from_dht_message_def split: if_splits)

text \<open>A value that a query delivers verifies, and the query stays well-formed.\<close>

lemma query_ok_deliver:
  assumes "query_ok crc cr k q"
  shows "query_ok crc cr k (fst (query_deliver cr mt g q)) \<and>
    (case snd (query_deliver cr mt g q) of Some resp \<Rightarrow> response_ok cr k resp | None \<Rightarrow> True)"
proof -
  have t: "query_target q = k" "query_target (query_record f q) = k" for f
    using assms query_ok_target by (simp_all add: query_record_def query_target_def query_ok_def)
  show ?thesis using assms t
    by (auto simp: query_deliver_def Let_def response_ok_def intro!: query_ok_response dest: from_dht_message_fields
      split: message_type.split response_specific.split sum.split)
qed

section \<open>The cache of finished queries\<close>

text \<open>What the ledger determines of the statistics.\<close>

lemma ledger_sums:
  "ledger s cs \<Longrightarrow> stat_subnets s = 20 + (\<Sum>c\<in>#cs. cq_subnets c) \<and> size (filter_mset (\<lambda>c. \<not> cq_is_find_node c) cs) \<le> stat_gets s"
proof (induction rule: ledger.induct)
  case (ledger_drop s cs c)
  then obtain ds where "cs = add_mset c ds" by (metis multi_member_split)
  then show ?case using ledger_drop.IH by (auto simp: stats_drop_def)
qed (auto simp: stats_start_def stats_file_def)

abbreviation bag :: "'a option \<Rightarrow> 'a multiset" where
  "bag c \<equiv> (case c of Some c \<Rightarrow> {#c#} | None \<Rightarrow> {#})"

text \<open>The subtractions of the code do not wrap when the query that leaves was filed.\<close>

lemma decrement_ledger:
  assumes "ledger (stats_of p) cs" "bag c \<subseteq># cs"
  shows "ledger (stats_of (decrement_cached_stats c p)) (cs - bag c)"
proof (cases c)
  case (Some q)
  then have q: "q \<in># cs" using assms(2) by simp
  then obtain ds where "cs = add_mset q ds" by (metis multi_member_split)
  then have "cq_subnets q \<le> subnets_sum p" "\<not> cq_is_find_node q \<longrightarrow> 1 \<le> responders_based_dht_size_estimates_count p"
    using ledger_sums [OF assms(1)] by (auto simp: stats_of_def)
  then have "stats_of (decrement_cached_stats c p) = stats_drop q (stats_of p)"
    by (simp add: Some stats_of_def decrement_cached_stats_def stats_drop_def usize_sub_def)
  then show ?thesis using ledger_drop [OF assms(1) q] by (simp add: Some)
qed (use assms in \<open>simp add: decrement_cached_stats_def\<close>)

lemma decrement_keeps [simp]:
  "cached_iterative_queries (decrement_cached_stats c p) = cached_iterative_queries p"
  "iterative_queries (decrement_cached_stats c p) = iterative_queries p"
  "put_queries (decrement_cached_stats c p) = put_queries p"
  "routing_table (decrement_cached_stats c p) = routing_table p"
  "rpc_server (decrement_cached_stats c p) = rpc_server p"
  by (simp_all add: decrement_cached_stats_def split: option.split)

text \<open>How the operations of the cache change the queries in it.\<close>

lemma mset_without:
  "distinct (map fst es) \<Longrightarrow> mset es = image_mset (Pair k) (bag (map_of es k)) + mset (without k es)"
proof (induction es)
  case (Cons e es)
  show ?case
  proof (cases "fst e = k")
    case True
    then have "without k es = es" using Cons.prems unfolding without_def by (auto simp: filter_id_conv image_iff)
    then show ?thesis using True by (cases e) (simp add: without_def)
  next
    case False
    then show ?thesis using Cons by (cases e) (auto simp: without_def)
  qed
qed (simp add: without_def)

lemma cached_get:
  assumes "lru_cache ops" "lru_ok ops c"
  shows "cached_set ops (snd (lru_get ops c k)) = cached_set ops c"
  using lru_cache.get [OF assms(1), of c k "fst (lru_get ops c k)" "snd (lru_get ops c k)"] mset_without [of "lru_iter ops c" k] assms(2)
  by (auto simp: cached_set_def lru_ok_def split: option.splits)

lemma cached_pop:
  assumes "lru_cache ops" "lru_pop ops c = (e, c')"
  shows "bag (map_option snd e) \<subseteq># cached_set ops c \<and> cached_set ops c' = cached_set ops c - bag (map_option snd e) \<and>
    lru_iter ops c' = butlast (lru_iter ops c) \<and> lru_cap ops c' = lru_cap ops c"
proof (cases "lru_iter ops c = []")
  case False
  then have "mset (lru_iter ops c) = add_mset (last (lru_iter ops c)) (mset (butlast (lru_iter ops c)))"
    by (metis append_butlast_last_id mset.simps(2) mset_append union_mset_add_mset_right add.right_neutral mset.simps(1))
  then show ?thesis using False lru_cache.pop [OF assms] by (auto simp: cached_set_def)
qed (use lru_cache.pop [OF assms] in \<open>auto simp: cached_set_def\<close>)

lemma cached_put:
  assumes "lru_cache ops" "lru_ok ops c" "length (lru_iter ops c) < lru_cap ops c" "lru_put ops c k v = (previous, c')"
  shows "bag previous \<subseteq># cached_set ops c \<and> cached_set ops c' = add_mset v (cached_set ops c - bag previous) \<and> lru_cap ops c' = lru_cap ops c"
proof -
  have "length (without k (lru_iter ops c)) \<le> length (lru_iter ops c)" by (simp add: without_def)
  then have put: "previous = map_of (lru_iter ops c) k" "lru_iter ops c' = (k, v) # without k (lru_iter ops c)" "lru_cap ops c' = lru_cap ops c"
    using lru_cache.put [OF assms(1,4)] assms(3) by auto
  have "cached_set ops c = bag previous + image_mset snd (mset (without k (lru_iter ops c)))"
    using mset_without [of "lru_iter ops c" k] assms(2) by (auto simp: cached_set_def lru_ok_def put(1) split: option.splits)
  then show ?thesis using put by (simp add: cached_set_def)
qed

lemma cache_get_ok:
  "lru_cache ops \<Longrightarrow> cache_ok ops c s \<Longrightarrow> cache_ok ops (snd (lru_get ops c k)) s"
  by (simp add: cache_ok_def cached_get lru_cache.ok_get lru_cache.get_cap)

lemma rpc_inv_cache:
  "rpc_inv env p \<Longrightarrow> cache_ok (env_cache env) (cached_iterative_queries p') (stats_of p') \<Longrightarrow> routing_table p' = routing_table p \<Longrightarrow>
     rpc_server p' = rpc_server p \<Longrightarrow> iterative_queries p' = iterative_queries p \<Longrightarrow> put_queries p' = put_queries p \<Longrightarrow> rpc_inv env p'"
  by (simp add: rpc_inv_def)

definition make_room :: "('pc, 'ic, 'im, 'mu, 'q, 'be) rpc_env \<Rightarrow> ('ic, 'im, 'mu, 'q) rpc \<Rightarrow> ('ic, 'im, 'mu, 'q) rpc" where
  "make_room env p =
     (if MAX_CACHED_ITERATIVE_QUERIES \<le> cached_len env p then
        let (evicted, cache) = lru_pop (env_cache env) (cached_iterative_queries p)
        in decrement_cached_stats (map_option snd evicted) (p\<lparr>cached_iterative_queries := cache\<rparr>)
      else p)"

lemma make_room_inv:
  assumes "env_ok env" "rpc_inv env p"
  shows "rpc_inv env (make_room env p) \<and> cached_len env (make_room env p) < MAX_CACHED_ITERATIVE_QUERIES"
proof -
  have l: "lru_cache (env_cache env)" using assms(1) by (simp add: env_ok_def)
  have c: "cache_ok (env_cache env) (cached_iterative_queries p) (stats_of p)" using assms(2) by (simp add: rpc_inv_def)
  show ?thesis
  proof (cases "MAX_CACHED_ITERATIVE_QUERIES \<le> cached_len env p")
    case True
    obtain e c' where pop: "lru_pop (env_cache env) (cached_iterative_queries p) = (e, c')" by fastforce
    let ?p1 = "p\<lparr>cached_iterative_queries := c'\<rparr>"
    let ?p = "decrement_cached_stats (map_option snd e) ?p1"
    note r = cached_pop [OF l pop]
    have "stats_of ?p1 = stats_of p" by (simp add: stats_of_def)
    then have "ledger (stats_of ?p) (cached_set (env_cache env) c')"
      using decrement_ledger [of ?p1 "cached_set (env_cache env) (cached_iterative_queries p)" "map_option snd e"] r c by (simp add: cache_ok_def)
    moreover have "lru_ok (env_cache env) c'" "lru_cap (env_cache env) c' = MAX_CACHED_ITERATIVE_QUERIES"
      using r c by (auto simp: cache_ok_def lru_ok_def map_butlast distinct_butlast)
    ultimately have "rpc_inv env ?p" by (intro rpc_inv_cache [OF assms(2)]) (simp_all add: cache_ok_def)
    moreover have "cached_len env ?p < MAX_CACHED_ITERATIVE_QUERIES"
      using r c by (auto simp: cached_len_def lru_cache.len [OF l] cache_ok_def lru_ok_def MAX_CACHED_ITERATIVE_QUERIES_def)
    ultimately show ?thesis using True by (simp add: make_room_def pop)
  qed (use assms in \<open>simp add: make_room_def\<close>)
qed

lemma cache_iterative_query_inv:
  assumes "env_ok env" "rpc_inv env p"
  shows "rpc_inv env (cache_iterative_query env query nodes p)"
proof -
  have l: "lru_cache (env_cache env)" using assms(1) by (simp add: env_ok_def)
  let ?p = "make_room env p"
  have m: "rpc_inv env ?p" "cached_len env ?p < MAX_CACHED_ITERATIVE_QUERIES" using make_room_inv [OF assms] by auto
  then have c: "cache_ok (env_cache env) (cached_iterative_queries ?p) (stats_of ?p)" by (simp add: rpc_inv_def)
  let ?v = "\<lparr>cq_closest_responding_nodes = nodes, cq_dht_size_estimate = closest_dht_size_estimate (iq_closest query),
      cq_responders_dht_size_estimate = closest_dht_size_estimate (iq_responders query),
      cq_subnets = subnets_count (iq_closest query), cq_is_find_node = query_is_find_node query\<rparr>"
  obtain prev c' where put: "lru_put (env_cache env) (cached_iterative_queries ?p) (query_target query) ?v = (prev, c')" by fastforce
  let ?p1 = "?p\<lparr>cached_iterative_queries := c'\<rparr>"
  let ?p2 = "decrement_cached_stats prev ?p1" and ?old = "cached_set (env_cache env) (cached_iterative_queries ?p)"
  have len: "length (lru_iter (env_cache env) (cached_iterative_queries ?p)) < MAX_CACHED_ITERATIVE_QUERIES"
    using m(2) by (simp add: cached_len_def lru_cache.len [OF l])
  have r: "bag prev \<subseteq># ?old" "cached_set (env_cache env) c' = add_mset ?v (?old - bag prev)"
    "lru_ok (env_cache env) c'" "lru_cap (env_cache env) c' = MAX_CACHED_ITERATIVE_QUERIES"
    using cached_put [OF l _ _ put] lru_cache.ok_put [OF l, of "cached_iterative_queries ?p" "query_target query" ?v] c len put
    by (auto simp: cache_ok_def)
  have "stats_of ?p1 = stats_of ?p" by (simp add: stats_of_def)
  then have "ledger (stats_of ?p2) (?old - bag prev)" using decrement_ledger [of ?p1 ?old prev] r(1) c by (simp add: cache_ok_def)
  moreover have "size (?old - bag prev) < MAX_CACHED_ITERATIVE_QUERIES"
    using len size_mset_mono [OF diff_subset_eq_self, of ?old "bag prev"] by (simp add: cached_set_def)
  ultimately have new: "ledger (stats_file ?v (stats_of ?p2)) (cached_set (env_cache env) c')" unfolding r(2) by (rule ledger_file)
  show ?thesis
  proof (cases "closest_is_empty (iq_closest query)")
    case False
    show ?thesis unfolding cache_iterative_query_def unfolding make_room_def [symmetric] unfolding Let_def
      by (simp only: False if_False put prod.case)
        (rule rpc_inv_cache [OF m(1)], use new r(3,4) in \<open>simp_all add: cache_ok_def stats_of_def stats_file_def\<close>)
  next
    case True
    show ?thesis unfolding cache_iterative_query_def unfolding make_room_def [symmetric] unfolding Let_def
      by (simp only: True if_True m(1))
  qed
qed

section \<open>The operations keep the invariant\<close>

lemma rpc_inv_irrelevant [simp]:
  "rpc_inv env (p\<lparr>socket := s\<rparr>) \<longleftrightarrow> rpc_inv env p" "rpc_inv env (p\<lparr>rpc_rng := r\<rparr>) \<longleftrightarrow> rpc_inv env p"
  "rpc_inv env (p\<lparr>firewalled := b\<rparr>) \<longleftrightarrow> rpc_inv env p" "rpc_inv env (p\<lparr>public_address := a\<rparr>) \<longleftrightarrow> rpc_inv env p"
  "rpc_inv env (p\<lparr>last_table_refresh := n\<rparr>) \<longleftrightarrow> rpc_inv env p" "rpc_inv env (p\<lparr>last_table_ping := n\<rparr>) \<longleftrightarrow> rpc_inv env p"
  by (simp_all add: rpc_inv_def stats_of_def)

lemma stats_of_irrelevant [simp]:
  "stats_of (p\<lparr>routing_table := t\<rparr>) = stats_of p" "stats_of (p\<lparr>iterative_queries := qs\<rparr>) = stats_of p"
  "stats_of (p\<lparr>put_queries := ps\<rparr>) = stats_of p" "stats_of (p\<lparr>rpc_server := srv\<rparr>) = stats_of p"
  "stats_of (p\<lparr>cached_iterative_queries := c\<rparr>) = stats_of p" "stats_of (p\<lparr>socket := s\<rparr>) = stats_of p"
  "stats_of (p\<lparr>rpc_rng := r\<rparr>) = stats_of p"
  by (simp_all add: stats_of_def)

lemma rpc_inv_table:
  "rpc_inv env p \<Longrightarrow> rt_inv (env_crc env) t \<Longrightarrow> rpc_inv env (p\<lparr>routing_table := t\<rparr>)"
  by (simp add: rpc_inv_def)

lemma rpc_inv_queries:
  "rpc_inv env p \<Longrightarrow> filed (query_ok (env_crc env) (env_crypto env)) qs \<Longrightarrow> rpc_inv env (p\<lparr>iterative_queries := qs\<rparr>)"
  by (simp add: rpc_inv_def)

lemma rpc_inv_puts:
  "rpc_inv env p \<Longrightarrow> filed (\<lambda>k q. pq_target q = k) qs \<Longrightarrow> rpc_inv env (p\<lparr>put_queries := qs\<rparr>)"
  by (simp add: rpc_inv_def)

lemma rpc_inv_D:
  assumes "rpc_inv env p"
  shows "rt_inv (env_crc env) (routing_table p)" "server_inv (env_crypto env) (env_stores env) (rpc_server p)"
    "filed (query_ok (env_crc env) (env_crypto env)) (iterative_queries p)" "filed (\<lambda>k q. pq_target q = k) (put_queries p)"
  using assms by (simp_all add: rpc_inv_def)

lemma rpc_inv_add_node:
  "rpc_inv env p \<Longrightarrow> rpc_inv env (p\<lparr>routing_table := fst (rt_add (env_crc env) now (routing_table p) n)\<rparr>)"
  by (intro rpc_inv_table rt_inv_add rpc_inv_D)

lemma rpc_inv_cache_get:
  "env_ok env \<Longrightarrow> rpc_inv env p \<Longrightarrow>
     rpc_inv env (p\<lparr>cached_iterative_queries := snd (lru_get (env_cache env) (cached_iterative_queries p) k)\<rparr>)"
  by (simp add: rpc_inv_def env_ok_def cache_get_ok)

text \<open>A \<open>get\<close> of a new target adds one query, with every property that the steps of its construction keep.\<close>

lemma rpc_get_new:
  assumes "map_of (iterative_queries p) (get_request_target request) = None"
    and "Q (query_new (rpc_id p) (get_request_target request) request)"
    and "\<And>as st. Q (fst st) \<Longrightarrow> Q (fst (fold (query_visit now) as st))" "\<And>ns q. Q q \<Longrightarrow> Q (fold (add_candidate (env_crc env)) ns q)"
  obtains q s r where "Q q" "snd (rpc_get env now request extra p) = p\<lparr>socket := s, rpc_rng := r,
      cached_iterative_queries := snd (lru_get (env_cache env) (cached_iterative_queries p) (get_request_target request)),
      iterative_queries := AList.update (get_request_target request) q (iterative_queries p)\<rparr>"
proof -
  let ?t = "get_request_target request" and ?closest = "rt_closest_secure (env_crc env) (routing_table p)
      (get_request_target request) (responders_based_dht_size_estimate p) (average_subnets env p)"
  let ?st0 = "(query_new (rpc_id p) ?t request, socket p, rpc_rng p)"
  define st1 where "st1 = (if ?closest = [] \<or> length ?closest < length (bootstrap p)
      then fold (query_visit now) (bootstrap p) ?st0 else ?st0)"
  define st2 where "st2 = (case extra of Some extra \<Rightarrow> fold (query_visit now) extra st1 | None \<Rightarrow> st1)"
  define q3 where "q3 = fold (add_candidate (env_crc env)) ?closest (fst st2)"
  obtain found c where g: "lru_get (env_cache env) (cached_iterative_queries p) ?t = (found, c)" by fastforce
  define q4 where "q4 = (case found of
      Some cached \<Rightarrow> fold (add_candidate (env_crc env)) (cq_closest_responding_nodes cached) q3 | None \<Rightarrow> q3)"
  obtain q5 s r where v: "query_start now (q4, snd st2) = (q5, s, r)" by (metis prod_cases3)
  have st1: "Q (fst st1)" using assms(2) assms(3) [of ?st0] by (simp add: st1_def)
  have "Q (fst st2)" unfolding st2_def using st1 assms(3) [of st1] by (cases extra) simp_all
  then have q3: "Q q3" unfolding q3_def by (rule assms(4))
  have "Q q4" unfolding q4_def using q3 assms(4) by (cases found) simp_all
  then have "Q q5" using assms(3) [of "(q4, snd st2)" "to_visit q4"] v by (simp add: query_start_def visit_closest_def)
  moreover have "snd (rpc_get env now request extra p) = p\<lparr>socket := s, rpc_rng := r, cached_iterative_queries := c,
      iterative_queries := AList.update ?t q5 (iterative_queries p)\<rparr>"
    unfolding rpc_get_def Let_def assms(1) option.case g prod.case
    unfolding st1_def [symmetric] unfolding st2_def [symmetric] unfolding q3_def [symmetric] unfolding q4_def [symmetric] v
    by simp
  ultimately show thesis using that g by simp
qed

lemma rpc_get_inv:
  assumes "env_ok env" "rpc_inv env p"
  shows "rpc_inv env (snd (rpc_get env now request extra p))"
proof (cases "map_of (iterative_queries p) (get_request_target request)")
  case None
  let ?c = "snd (lru_get (env_cache env) (cached_iterative_queries p) (get_request_target request))"
  obtain q s r where q: "query_ok (env_crc env) (env_crypto env) (get_request_target request) q"
    "snd (rpc_get env now request extra p) = p\<lparr>socket := s, rpc_rng := r, cached_iterative_queries := ?c,
      iterative_queries := AList.update (get_request_target request) q (iterative_queries p)\<rparr>"
    by (rule rpc_get_new [OF None, where Q = "query_ok (env_crc env) (env_crypto env) (get_request_target request)"])
      (auto simp: query_ok_new query_ok_visits query_ok_add_candidates)
  moreover have "rpc_inv env (p\<lparr>cached_iterative_queries := ?c\<rparr>)" by (rule rpc_inv_cache_get [OF assms])
  ultimately show ?thesis by (simp add: rpc_inv_def filed_update)
qed (use assms in \<open>simp add: rpc_get_def Let_def\<close>)

lemma put_send_target: "pq_target (fst (put_send now n st)) = pq_target (fst st)"
  by (simp add: put_send_def case_prod_beta Let_def split: option.split)

lemma put_sends_target: "pq_target (fst (fold (put_send now) ms st)) = pq_target (fst st)"
  by (induction ms arbitrary: st) (simp_all add: put_send_target)

lemma put_start_target: "put_start now ns st = Some (result, st') \<Longrightarrow> pq_target (fst st') = pq_target (fst st)"
  by (auto simp: put_start_def put_sends_target split: if_splits)

lemma put_query_new_target [simp]: "pq_target (put_query_new t req extra) = t"
  by (simp add: put_query_new_def)

lemma rpc_inv_put_insert:
  "rpc_inv env p \<Longrightarrow> pq_target q = k \<Longrightarrow> rpc_inv env (p\<lparr>put_queries := AList.update k q (put_queries p)\<rparr>)"
  by (intro rpc_inv_puts filed_update rpc_inv_D)

lemma rpc_put_start_inv:
  assumes "env_ok env" "rpc_inv env p" "rpc_put_start env now request extra p = Some (result, p')"
  shows "rpc_inv env p'"
proof -
  let ?t = "put_target request"
  obtain found c where g: "lru_get (env_cache env) (cached_iterative_queries p) ?t = (found, c)" by fastforce
  let ?p = "p\<lparr>cached_iterative_queries := c\<rparr>"
  have i: "rpc_inv env ?p" using rpc_inv_cache_get [OF assms(1,2), of ?t] by (simp add: g)
  show ?thesis
  proof (cases "\<exists>cached. found = Some cached \<and> cq_closest_responding_nodes cached \<noteq> [] \<and>
      list_ex (valid_token now) (cq_closest_responding_nodes cached)")
    case True
    then obtain cached where c: "found = Some cached" "cq_closest_responding_nodes cached \<noteq> []"
      "list_ex (valid_token now) (cq_closest_responding_nodes cached)" by blast
    obtain res q s r where st: "put_start now (cq_closest_responding_nodes cached) (put_query_new ?t request extra, socket ?p, rpc_rng ?p) =
        Some (res, q, s, r)"
      using assms(3) c by (auto simp: rpc_put_start_def g Let_def split: option.splits)
    have "pq_target q = ?t" using put_start_target [OF st] by simp
    moreover have "rpc_inv env (?p\<lparr>socket := s, rpc_rng := r\<rparr>)" using i by simp
    ultimately have "rpc_inv env (?p\<lparr>socket := s, rpc_rng := r\<rparr>\<lparr>put_queries := AList.update ?t q (put_queries (?p\<lparr>socket := s, rpc_rng := r\<rparr>))\<rparr>)"
      by (rule rpc_inv_put_insert [rotated])
    then show ?thesis using assms(3) c st i by (auto simp: rpc_put_start_def g Let_def split: sum.splits)
  next
    case False
    let ?q = "\<lambda>salt. snd (rpc_get env now (GetGetValue \<lparr>gvq_target = ?t, gvq_seq = None, gvq_salt = salt\<rparr>) None ?p)"
    have "rpc_inv env ((?q salt)\<lparr>put_queries := AList.update ?t (put_query_new ?t request extra) (put_queries (?q salt))\<rparr>)" for salt
      using rpc_get_inv [OF assms(1) i] by (intro rpc_inv_put_insert) simp_all
    then show ?thesis using assms(3) False
      by (cases found) (auto simp: rpc_put_start_def g Let_def split: if_splits)
  qed
qed

lemma rpc_put_inv:
  assumes "env_ok env" "rpc_inv env p" "rpc_put env now request extra p = Some (result, p')"
  shows "rpc_inv env p'"
proof (cases "put_conflict (put_queries p) request")
  case Replace
  have "rpc_inv env (p\<lparr>put_queries := AList.delete (put_target request) (put_queries p)\<rparr>)"
    using assms(2) by (intro rpc_inv_puts filed_delete rpc_inv_D)
  from rpc_put_start_inv [OF assms(1) this] show ?thesis using assms(3) Replace by (simp add: rpc_put_def)
qed (use assms rpc_put_start_inv [OF assms(1,2)] in \<open>auto simp: rpc_put_def\<close>)

lemma rpc_request_inv [simp]: "rpc_inv env (snd (rpc_request now a req p)) \<longleftrightarrow> rpc_inv env p"
  by (simp add: rpc_request_def case_prod_beta Let_def)

lemma rpc_ping_inv [simp]: "rpc_inv env (rpc_ping now a p) \<longleftrightarrow> rpc_inv env p"
  by (simp add: rpc_ping_def)

lemma rpc_inv_server_answer:
  assumes "env_ok env" "rpc_inv env p"
  shows "rpc_inv env (p\<lparr>rpc_server := fst (snd (server_handle_request (env_crc env) (env_crypto env) (env_stores env) now r t a req
    (rpc_server p)))\<rparr>)"
  using assms server_inv_request [of "env_stores env" "env_crypto env" "rpc_server p" "env_crc env" now r t a req]
  by (simp add: rpc_inv_def env_ok_def)

text \<open>The ways a request can change a node: an insertion into the table, an answer of the server, and the switch to
  a new id.\<close>

lemma rpc_handle_request_cases:
  obtains p1 p2 where
    "p1 = p \<or> (\<exists>n. p1 = p\<lparr>routing_table := fst (rt_add (env_crc env) now (routing_table p) n)\<rparr>)"
    "p2 = p1 \<or> (\<exists>s r. p2 = p1\<lparr>rpc_server := fst (snd (server_handle_request (env_crc env) (env_crypto env) (env_stores env) now
        (rpc_rng p1) (routing_table p1) a req (rpc_server p1))), rpc_rng := r, socket := s\<rparr>)"
    "rpc_handle_request env now a tid req p = p2 \<or> rpc_handle_request env now a tid req p = p2\<lparr>firewalled := False\<rparr> \<or>
     (\<exists>g r n. rpc_handle_request env now a tid req p =
        (snd (rpc_get env now g None (p2\<lparr>firewalled := False, rpc_rng := r\<rparr>)))\<lparr>routing_table := rt_new n\<rparr>)"
proof -
  define p1 where "p1 = (if bootstrap p = [] then
      (case request_type req of
         FindNodeRequest param \<Rightarrow> p\<lparr>routing_table := fst (rt_add (env_crc env) now (routing_table p) (node_new now (fnq_target param) a))\<rparr>
       | _ \<Rightarrow> p) else p)"
  obtain ans srv r where h: "server_handle_request (env_crc env) (env_crypto env) (env_stores env) now (rpc_rng p1)
      (routing_table p1) a req (rpc_server p1) = (ans, srv, r)" by (metis prod_cases3)
  define p2 where "p2 = (if rpc_server_mode p1 then
      (case ans of Some (ErrorMessage err) \<Rightarrow> rpc_error a tid err (p1\<lparr>rpc_server := srv, rpc_rng := r\<rparr>)
        | Some (Response resp) \<Rightarrow> rpc_response a tid resp (p1\<lparr>rpc_server := srv, rpc_rng := r\<rparr>)
        | _ \<Rightarrow> p1\<lparr>rpc_server := srv, rpc_rng := r\<rparr>) else p1)"
  have eq: "rpc_handle_request env now a tid req p =
     (case public_address p2 of
        Some our_address \<Rightarrow>
          if a = our_address \<and> (case request_type req of PingRequest \<Rightarrow> True | _ \<Rightarrow> False) then
            if is_valid_for_ip (env_crc env) (rpc_id (p2\<lparr>firewalled := False\<rparr>)) (sa_ip our_address) then p2\<lparr>firewalled := False\<rparr>
            else case from_ipv4 (env_crc env) (sa_ip our_address) (rpc_rng (p2\<lparr>firewalled := False\<rparr>)) of
                (n, r) \<Rightarrow> (snd (rpc_get env now (GetFindNode \<lparr>fnq_target = n\<rparr>) None (p2\<lparr>firewalled := False, rpc_rng := r\<rparr>)))
                   \<lparr>routing_table := rt_new n\<rparr>
          else p2
      | None \<Rightarrow> p2)"
    unfolding rpc_handle_request_def Let_def unfolding p1_def [symmetric] unfolding h prod.case unfolding p2_def [symmetric] ..
  show thesis
  proof (rule that)
    show "p1 = p \<or> (\<exists>n. p1 = p\<lparr>routing_table := fst (rt_add (env_crc env) now (routing_table p) n)\<rparr>)"
      by (auto simp: p1_def split: request_type_specific.split)
    show "p2 = p1 \<or> (\<exists>s r. p2 = p1\<lparr>rpc_server := fst (snd (server_handle_request (env_crc env) (env_crypto env) (env_stores env) now
        (rpc_rng p1) (routing_table p1) a req (rpc_server p1))), rpc_rng := r, socket := s\<rparr>)"
    proof (cases "rpc_server_mode p1")
      case True
      have "p2 = p1\<lparr>rpc_server := srv, rpc_rng := r, socket := socket p2\<rparr>" using True
        by (auto simp: p2_def rpc_error_def rpc_response_def split: option.split message_type.split)
      then show ?thesis unfolding h by auto
    qed (simp add: p2_def)
    show "rpc_handle_request env now a tid req p = p2 \<or> rpc_handle_request env now a tid req p = p2\<lparr>firewalled := False\<rparr> \<or>
        (\<exists>g r n. rpc_handle_request env now a tid req p =
          (snd (rpc_get env now g None (p2\<lparr>firewalled := False, rpc_rng := r\<rparr>)))\<lparr>routing_table := rt_new n\<rparr>)"
      unfolding eq by (auto split: option.split prod.split)
  qed
qed

lemma rpc_handle_request_inv:
  assumes "env_ok env" "rpc_inv env p"
  shows "rpc_inv env (rpc_handle_request env now a tid req p)"
proof (rule rpc_handle_request_cases [of p env now a req tid])
  fix p1 p2
  assume p1: "p1 = p \<or> (\<exists>n. p1 = p\<lparr>routing_table := fst (rt_add (env_crc env) now (routing_table p) n)\<rparr>)"
    and p2: "p2 = p1 \<or> (\<exists>s r. p2 = p1\<lparr>rpc_server := fst (snd (server_handle_request (env_crc env) (env_crypto env) (env_stores env) now
        (rpc_rng p1) (routing_table p1) a req (rpc_server p1))), rpc_rng := r, socket := s\<rparr>)"
    and p3: "rpc_handle_request env now a tid req p = p2 \<or> rpc_handle_request env now a tid req p = p2\<lparr>firewalled := False\<rparr> \<or>
     (\<exists>g r n. rpc_handle_request env now a tid req p =
        (snd (rpc_get env now g None (p2\<lparr>firewalled := False, rpc_rng := r\<rparr>)))\<lparr>routing_table := rt_new n\<rparr>)"
  have i1: "rpc_inv env p1" using p1 assms(2) rpc_inv_add_node by blast
  have i2: "rpc_inv env p2" using p2 i1 rpc_inv_server_answer [OF assms(1) i1] by auto
  have "rpc_inv env ((snd (rpc_get env now g None (p2\<lparr>firewalled := False, rpc_rng := r\<rparr>)))\<lparr>routing_table := rt_new n\<rparr>)" for g r n
    using i2 by (intro rpc_inv_table rpc_get_inv assms(1)) simp_all
  then show ?thesis using p3 i2 by auto
qed

lemma rpc_handle_response_inv:
  assumes "rpc_inv env p"
  shows "rpc_inv env (snd (rpc_handle_response env now a m p)) \<and>
    report_ok (env_crypto env) (fst (rpc_handle_response env now a m p))"
proof -
  note f = rpc_inv_D [OF assms]
  have upd: "rpc_inv env (p\<lparr>iterative_queries := AList.update k q' (iterative_queries p)\<rparr>)"
    if "query_ok (env_crc env) (env_crypto env) k q'" for k q'
    using assms that f by (intro rpc_inv_queries filed_update)
  have put: "rpc_inv env (p\<lparr>put_queries := AList.update k q' (put_queries p)\<rparr>)" if "pq_target q' = k" for k q'
    using assms that by (rule rpc_inv_put_insert)
  have targets: "pq_target (put_on_success q) = pq_target q" "pq_target (put_on_error e q) = pq_target q" for q e
    by (simp_all add: put_on_success_def put_on_error_def)
  show ?thesis
  proof (cases "read_only m")
    case True
    then show ?thesis using assms upd filed_find [OF f(3)]
      by (auto simp: rpc_handle_response_def split: option.split)
  next
    case ro: False
    show ?thesis
    proof (cases "find_value (\<lambda>q. put_inflight q (transaction_id m)) (put_queries p)")
      case (Some kq)
      obtain k q where kq: "kq = (k, q)" by fastforce
      then have "pq_target q = k" using filed_find [OF f(4)] Some by blast
      then show ?thesis using ro Some kq
        by (auto simp: rpc_handle_response_def targets intro!: put split: message_type.split response_specific.split)
    next
      case no_put: None
      show ?thesis
      proof (cases "find_value (\<lambda>q. query_is_inflight q (transaction_id m)) (iterative_queries p)")
        case None
        then show ?thesis using ro no_put assms by (simp add: rpc_handle_response_def)
      next
        case (Some kq)
        obtain k q where kq: "kq = (k, q)" by fastforce
        have ok: "query_ok (env_crc env) (env_crypto env) k q" using filed_find [OF f(3)] Some kq by blast
        have d: "query_ok (env_crc env) (env_crypto env) k (fst (query_deliver (env_crypto env) mt g (query_learn env now a m q)))"
          "case snd (query_deliver (env_crypto env) mt g (query_learn env now a m q)) of
             Some resp \<Rightarrow> response_ok (env_crypto env) k resp | None \<Rightarrow> True" for mt g
          using query_ok_deliver [OF query_ok_learn [OF ok]] by auto
        have r: "response_ok (env_crypto env) k resp"
          if "snd (query_deliver (env_crypto env) mt g (query_learn env now a m q)) = Some resp" for mt g resp
          using d(2) [of mt g] that by simp
        show ?thesis using ro no_put Some kq r rpc_inv_add_node [OF upd [OF d(1)]] upd [OF d(1)] query_ok_target [OF ok]
          by (auto simp: rpc_handle_response_def Let_def case_prod_beta report_ok_def split: option.splits)
      qed
    qed
  qed
qed

lemma rpc_handle_message_inv:
  assumes "env_ok env" "rpc_inv env p"
  shows "rpc_inv env (snd (rpc_handle_message env now input p)) \<and>
    report_ok (env_crypto env) (fst (rpc_handle_message env now input p))"
proof -
  obtain received s where "socket_recv_from (env_bencode env) now input (socket p) = (received, s)" by fastforce
  moreover have i: "rpc_inv env (p\<lparr>socket := s\<rparr>)" using assms(2) by simp
  ultimately show ?thesis
    using rpc_handle_request_inv [OF assms(1) i] rpc_handle_response_inv [OF i]
    by (auto simp: rpc_handle_message_def Let_def split: option.split message_type.split)
qed

lemma rt_inv_removes: "rt_inv crc t \<Longrightarrow> rt_inv crc (foldl rt_remove t ids)"
  by (induction ids arbitrary: t) (simp_all add: rt_inv_remove)

lemma ping_nodes_inv [simp]: "rpc_inv env (ping_nodes now addrs p) \<longleftrightarrow> rpc_inv env p"
  unfolding ping_nodes_def by (induction addrs arbitrary: p) simp_all

lemma periodic_node_maintenance_inv:
  assumes "env_ok env" "rpc_inv env p"
  shows "rpc_inv env (periodic_node_maintenance env now p)"
proof -
  have sw: "rpc_inv env (try_switching_to_server_mode q) \<longleftrightarrow> rpc_inv env q" for q
    by (simp add: try_switching_to_server_mode_def)
  have pp: "rpc_inv env (ping_and_purge now q)" if "rpc_inv env q" for q
    using that rpc_inv_D(1) [OF that]
    by (auto simp: ping_and_purge_def Let_def case_prod_beta purge_nodes_def intro!: rpc_inv_table rt_inv_removes)
  have po: "rpc_inv env (populate env now q)" if "rpc_inv env q" for q
    using that by (auto simp: populate_def Let_def intro!: rpc_get_inv assms(1))
  show ?thesis unfolding periodic_node_maintenance_def Let_def using assms(2) sw pp po by simp
qed

lemma update_address_votes_inv: "rpc_inv env p \<Longrightarrow> rpc_inv env (update_address_votes now query p)"
  by (simp add: update_address_votes_def Let_def split: option.split)

lemma tick_queries_effect:
  assumes "tick_queries now self_id estimate subnets qs fin st = (qs', outcomes, fin', st')"
  shows "list_all2 (\<lambda>kq kq'. fst kq' = fst kq \<and> same_walk (snd kq) (snd kq')) qs qs' \<and> set (map go_id outcomes) \<subseteq> fst ` set qs"
  using assms
proof (induction qs arbitrary: fin st qs' outcomes fin' st')
  case (Cons kq qs)
  obtain k q where kq: "kq = (k, q)" by fastforce
  obtain d q1 s1 r1 where t: "query_tick now (q, st) = (d, q1, s1, r1)" by (metis prod_cases4)
  have w: "same_walk q q1" using visits_effect [OF query_tick_fold [of now q "fst st" "snd st"]] t by simp
  obtain qs1 o1 f1 st1 where r: "tick_queries now self_id estimate subnets qs (if d \<and> query_is_find_node q1 then k = self_id else fin) (s1, r1) =
      (qs1, o1, f1, st1)" by (metis prod_cases4)
  have "qs' = (k, q1) # qs1" "outcomes = (if d then [query_outcome estimate subnets k q1] else []) @ o1"
    using Cons.prems by (auto simp: kq t r Let_def)
  then show ?case using Cons.IH [OF r] w by (auto simp: kq query_outcome_def)
qed simp

lemma filed_walk:
  assumes "list_all2 (\<lambda>kq kq'. fst kq' = fst kq \<and> same_walk (snd kq) (snd kq')) qs qs'" "filed (query_ok crc cr) qs"
  shows "filed (query_ok crc cr) qs'"
proof -
  have "map fst qs' = map fst qs" using assms(1) by (induction rule: list_all2_induct) simp_all
  moreover have "list_all (\<lambda>kq. query_ok crc cr (fst kq) (snd kq)) qs'"
    if "list_all (\<lambda>kq. query_ok crc cr (fst kq) (snd kq)) qs"
    using assms(1) that by (induction rule: list_all2_induct) (auto simp: query_ok_same_walk)
  ultimately show ?thesis using assms(2) by (simp add: filed_def)
qed

lemma tick_get_queries_inv:
  assumes "rpc_inv env p"
  shows "rpc_inv env (snd (snd (tick_get_queries env now p)))"
proof -
  obtain qs os f s r where t: "tick_queries now (rpc_id p) (responders_based_dht_size_estimate p) (average_subnets env p)
      (iterative_queries p) False (socket p, rpc_rng p) = (qs, os, f, s, r)" by (metis prod_cases5)
  have "filed (query_ok (env_crc env) (env_crypto env)) qs"
    using tick_queries_effect [OF t] filed_walk rpc_inv_D(3) [OF assms] by blast
  then show ?thesis using assms by (simp add: tick_get_queries_def t rpc_inv_def)
qed

lemma cleanup_done_get_inv:
  assumes "env_ok env" "rpc_inv env p" "cleanup_done_get env now outcome (dp, p) = Some (dp', p')"
  shows "rpc_inv env p'"
proof (cases "map_of (iterative_queries p) (go_id outcome)")
  case (Some query)
  define p1 where "p1 = cache_iterative_query env query (go_closest_nodes outcome)
      (update_address_votes now query (p\<lparr>iterative_queries := AList.delete (go_id outcome) (iterative_queries p)\<rparr>))"
  have i: "rpc_inv env p1" unfolding p1_def
    by (intro cache_iterative_query_inv update_address_votes_inv rpc_inv_queries filed_delete assms rpc_inv_D)
  have eq: "cleanup_done_get env now outcome (dp, p) =
     (if query_is_find_node query then Some (dp, p1)
      else case map_of (put_queries p1) (go_id outcome) of
          None \<Rightarrow> Some (dp, p1)
        | Some pq \<Rightarrow>
            if put_started pq then Some (dp, p1)
            else case put_start now (go_closest_nodes outcome) (pq, socket p1, rpc_rng p1) of
                None \<Rightarrow> None
              | Some (result, pq', s, r) \<Rightarrow>
                  Some (case result of
                      Inl err \<Rightarrow> (dp @ [(go_id outcome, Inl err)], p1\<lparr>socket := s, rpc_rng := r,
                         put_queries := AList.update (go_id outcome) pq' (put_queries p1)\<rparr>)
                    | Inr _ \<Rightarrow> (dp, p1\<lparr>socket := s, rpc_rng := r,
                         put_queries := AList.update (go_id outcome) pq' (put_queries p1)\<rparr>)))"
    unfolding cleanup_done_get_def Let_def prod.case Some option.case unfolding p1_def [symmetric] ..
  have upd: "rpc_inv env (p1\<lparr>socket := s, rpc_rng := r, put_queries := AList.update (go_id outcome) pq' (put_queries p1)\<rparr>)"
    if "map_of (put_queries p1) (go_id outcome) = Some pq"
      "put_start now (go_closest_nodes outcome) (pq, socket p1, rpc_rng p1) = Some (result, pq', s, r)" for pq pq' s r result
  proof -
    have "pq_target pq' = go_id outcome"
      using put_start_target [OF that(2)] filed_lookup [OF rpc_inv_D(4) [OF i] that(1)] by simp
    then show ?thesis using i by (simp add: rpc_inv_def filed_update)
  qed
  show ?thesis using assms(3) i upd unfolding eq
    by (auto split: if_splits option.splits sum.splits)
qed (use assms in \<open>auto simp: cleanup_done_get_def\<close>)

lemma cleanup_done_gets_inv:
  assumes "env_ok env" "rpc_inv env p" "cleanup_done_gets env now outcomes (dp, p) = Some (dp', p')"
  shows "rpc_inv env p'"
  using assms(2,3)
proof (induction outcomes arbitrary: dp p)
  case (Cons outcome outcomes)
  then obtain dp1 p1 where "cleanup_done_get env now outcome (dp, p) = Some (dp1, p1)"
    "cleanup_done_gets env now outcomes (dp1, p1) = Some (dp', p')" by (auto split: option.splits)
  then show ?case using Cons.IH [of p1 dp1] cleanup_done_get_inv [OF assms(1) Cons.prems(1)] by blast
qed simp

lemma cleanup_done_queries_inv:
  assumes "env_ok env" "rpc_inv env p" "cleanup_done_queries env now dg dp p = Some (dp', p')"
  shows "rpc_inv env p'"
proof -
  obtain p1 where c: "cleanup_done_gets env now dg (dp, p) = Some (dp', p1)"
    "p' = p1\<lparr>put_queries := fold (\<lambda>(k, _). AList.delete k) dp' (put_queries p1)\<rparr>"
    using assms(3) by (auto simp: cleanup_done_queries_def)
  have "filed P (fold (\<lambda>(k, _). AList.delete k) ds qs)" if "filed P qs" for P and qs :: "(id \<times> put_query) list" and ds :: "(id \<times> (put_error + put_outcome)) list"
    using that by (induction ds arbitrary: qs) (auto simp: filed_delete)
  then show ?thesis using cleanup_done_gets_inv [OF assms(1,2) c(1)] c(2) by (simp add: rpc_inv_def)
qed

lemma rpc_tick_inv:
  assumes "env_ok env" "rpc_inv env p" "rpc_tick env now received_at input p = Some (report, p')"
  shows "rpc_inv env p' \<and> report_ok (env_crypto env) (new_query_response report)"
proof -
  obtain dg f p1 where g: "tick_get_queries env now p = (dg, f, p1)" by (metis prod_cases3)
  then have i1: "rpc_inv env p1" using tick_get_queries_inv [OF assms(2), of now] by simp
  obtain dp' p2 where c: "cleanup_done_queries env now dg (tick_put_queries now p) p1 = Some (dp', p2)"
    using assms(3) by (auto simp: rpc_tick_def g split: option.splits)
  have i3: "rpc_inv env (periodic_node_maintenance env now p2)"
    by (intro periodic_node_maintenance_inv assms(1) cleanup_done_queries_inv [OF assms(1) i1 c])
  show ?thesis using assms(3) rpc_handle_message_inv [OF assms(1) i3, of received_at input]
    by (auto simp: rpc_tick_def g c Let_def case_prod_beta)
qed

end
