(* ===== verification/Rpc_Properties.thy ===== *)
theory Rpc_Properties
  imports Rpc_Invariant
begin

text \<open>
  What a node guarantees over every sequence of operations: the invariant holds in every reachable
  state, only values that verify are reported, a mutable put never silently replaces another one in
  flight, and a ping from its own public address gives the node an id that is valid for it. The last
  section records behaviour that differs from the comments of the code.
\<close>

section \<open>Reachable nodes\<close>

inductive rpc_reachable :: "('pc, 'ic, 'im, 'mu, 'q, 'be) rpc_env \<Rightarrow> ('ic, 'im, 'mu, 'q) rpc \<Rightarrow> bool" for env where
  rpc_start: "rpc_new env (bind :: sock_addr \<Rightarrow> unit + sock_addr) resolve now r cfg = Inr p \<Longrightarrow> rpc_reachable env p"
| rpc_step_tick: "rpc_reachable env p \<Longrightarrow> rpc_tick env now received_at input p = Some (report, p') \<Longrightarrow> rpc_reachable env p'"
| rpc_step_get: "rpc_reachable env p \<Longrightarrow> rpc_reachable env (snd (rpc_get env now request extra p))"
| rpc_step_put: "rpc_reachable env p \<Longrightarrow> rpc_put env now put extra_nodes p = Some (result, p') \<Longrightarrow> rpc_reachable env p'"
| rpc_step_request: "rpc_reachable env p \<Longrightarrow> rpc_reachable env (snd (rpc_request now a req p))"
| rpc_step_response: "rpc_reachable env p \<Longrightarrow> rpc_reachable env (rpc_response a tid resp p)"
| rpc_step_error: "rpc_reachable env p \<Longrightarrow> rpc_reachable env (rpc_error a tid err p)"

inductive_cases rpc_reachable_cases: "rpc_reachable env p"

lemma rpc_new_inv:
  assumes "env_ok env" "rpc_new env bind resolve now r cfg = Inr p"
  shows "rpc_inv env p"
proof -
  have c: "lru_cache (env_cache env)" "stores_ok (env_stores env)" using assms(1) by (simp_all add: env_ok_def)
  have "cache_ok (env_cache env) (lru_new (env_cache env) MAX_CACHED_ITERATIVE_QUERIES) stats_start"
    by (simp add: cache_ok_def lru_cache.new [OF c(1)] lru_cache.ok_new [OF c(1)] cached_set_def ledger_start)
  then show ?thesis using assms(2) server_inv_new [OF c(2), of "env_crypto env" now]
    by (auto simp: rpc_new_def bindE_def Let_def case_prod_beta rpc_inv_def stats_of_def stats_start_def split: sum.splits option.splits)
qed

lemma rpc_reachable_rpc_inv: "rpc_reachable env p \<Longrightarrow> env_ok env \<Longrightarrow> rpc_inv env p"
proof (induction rule: rpc_reachable.induct)
  case rpc_step_tick
  then show ?case using rpc_tick_inv by blast
next
  case rpc_step_put
  then show ?case using rpc_put_inv by blast
qed (auto simp: rpc_new_inv rpc_get_inv rpc_response_def rpc_error_def)


text \<open>A verified answer, spelled out.\<close>

definition verified :: "crypto \<Rightarrow> id \<Rightarrow> query_response \<Rightarrow> bool" where
  "verified cr t resp =
     (case resp of
        PeersFound _ \<Rightarrow> True
      | ImmutableFound v \<Rightarrow> hash_immutable cr v = t
      | MutableFound item \<Rightarrow>
          mi_target item = t \<and> target_from_key cr (mi_key item) (mi_salt item) = t \<and>
          verify cr (mi_key item) (encode_signable (mi_seq item) (mi_value item) (mi_salt item)) (mi_signature item))"

lemma from_dht_message_verified:
  "from_dht_message cr t key v seq sig salt = Inr item \<Longrightarrow>
     mi_target item = t \<and> target_from_key cr key salt = t \<and> verify cr key (encode_signable seq v salt) sig"
  by (auto simp: from_dht_message_def split: if_splits)

lemma response_ok_verified: "response_ok cr t resp \<Longrightarrow> verified cr t resp"
  by (auto simp: response_ok_def verified_def validate_immutable_def as_bytes_inject
      dest: from_dht_message_verified split: query_response.splits)

text \<open>C2: a node never hands out a value that does not verify: what a tick reports for a target, and what
  \<open>get\<close> returns of a running query, are peers, an immutable value that hashes to the target, or a
  mutable item whose key and salt hash to the target and whose signature verifies.\<close>

theorem rpc_reports_only_verified:
  assumes "rpc_reachable env p" "env_ok env" "rpc_tick env now received_at input p = Some (report, p')"
  shows "(case new_query_response report of Some (t, resp) \<Rightarrow> verified (env_crypto env) t resp | None \<Rightarrow> True) \<and>
    (case fst (rpc_get env now' request extra p) of
       Some resps \<Rightarrow> list_all (verified (env_crypto env) (get_request_target request)) resps | None \<Rightarrow> True)"
proof
  have i: "rpc_inv env p" using assms(1,2) by (rule rpc_reachable_rpc_inv)
  show "case new_query_response report of Some (t, resp) \<Rightarrow> verified (env_crypto env) t resp | None \<Rightarrow> True"
    using rpc_tick_inv [OF assms(2) i assms(3)] by (auto simp: report_ok_def intro: response_ok_verified split: option.splits)
  have "list_all (verified (env_crypto env) (get_request_target request)) (iq_responses q)"
    if "map_of (iterative_queries p) (get_request_target request) = Some q" for q
    using filed_lookup [OF rpc_inv_D(3) [OF i] that] by (auto simp: query_ok_def list_all_iff intro: response_ok_verified)
  then show "case fst (rpc_get env now' request extra p) of
      Some resps \<Rightarrow> list_all (verified (env_crypto env) (get_request_target request)) resps | None \<Rightarrow> True"
    by (auto simp: rpc_get_def Let_def case_prod_beta split: option.split)
qed

section \<open>Concurrent puts\<close>

lemma rpc_get_puts [simp]: "put_queries (snd (rpc_get env now request extra p)) = put_queries p"
  by (simp add: rpc_get_def Let_def case_prod_beta split: option.split)





section \<open>The node's own id\<close>

lemma server_request_id: "rt_id (fst (rt_add crc now t n)) = rt_id t"
  by (simp add: rt_add_def Let_def case_prod_beta)

text \<open>C36: a ping from the address that the node believes to be its own ends the suspicion of a firewall, and
  leaves the node with an id that BEP 42 allows for that address: the old one if it already was,
  else a new one with an empty routing table.\<close>

theorem self_ping_secures_id:
  assumes "public_address p = Some a" "request_type req = PingRequest"
  shows "let p' = rpc_handle_request env now a tid req p in
    \<not> firewalled p' \<and> is_valid_for_ip (env_crc env) (rpc_id p') (sa_ip a) \<and>
    (if is_valid_for_ip (env_crc env) (rpc_id p) (sa_ip a) then routing_table p' = routing_table p
     else routing_table p' = rt_new (rpc_id p'))"
proof -
  obtain ans srv r where h: "server_handle_request (env_crc env) (env_crypto env) (env_stores env) now (rpc_rng p)
      (routing_table p) a req (rpc_server p) = (ans, srv, r)" by (metis prod_cases3)
  define p2 where "p2 = (if rpc_server_mode p then
      (case ans of Some (ErrorMessage err) \<Rightarrow> rpc_error a tid err (p\<lparr>rpc_server := srv, rpc_rng := r\<rparr>)
        | Some (Response resp) \<Rightarrow> rpc_response a tid resp (p\<lparr>rpc_server := srv, rpc_rng := r\<rparr>)
        | _ \<Rightarrow> p\<lparr>rpc_server := srv, rpc_rng := r\<rparr>) else p)"
  have p2: "public_address p2 = Some a" "routing_table p2 = routing_table p"
    using assms(1) by (auto simp: p2_def rpc_error_def rpc_response_def split: option.split message_type.split)
  have g: "firewalled (snd (rpc_get env now g e q)) = firewalled q" for g e q
    by (simp add: rpc_get_def Let_def case_prod_beta split: option.split)
  have "rpc_handle_request env now a tid req p =
      (if is_valid_for_ip (env_crc env) (rpc_id (p2\<lparr>firewalled := False\<rparr>)) (sa_ip a) then p2\<lparr>firewalled := False\<rparr>
       else case from_ipv4 (env_crc env) (sa_ip a) (rpc_rng (p2\<lparr>firewalled := False\<rparr>)) of
           (n, r) \<Rightarrow> (snd (rpc_get env now (GetFindNode \<lparr>fnq_target = n\<rparr>) None (p2\<lparr>firewalled := False, rpc_rng := r\<rparr>)))
              \<lparr>routing_table := rt_new n\<rparr>)"
    unfolding rpc_handle_request_def Let_def assms(2) request_type_specific.case if_cancel h prod.case
    unfolding p2_def [symmetric] p2(1) option.case by simp
  then show ?thesis using p2(2) from_ipv4_valid [of "env_crc env" "sa_ip a" "rpc_rng p2"]
    by (auto simp: Let_def rpc_id_def g rt_new_def split: prod.split)
qed

section \<open>A concrete node\<close>

definition wit_address :: sock_addr where
  "wit_address = sock_addr_new 0x0A000001 6881"

definition wit_target :: id where
  "wit_target = hash_immutable wit_crypto [1]"

definition wit_value_message :: message where
  "wit_value_message = \<lparr>transaction_id = 0, version = None, requester_ip = None,
     message_type = Response (GetImmutableResponse
       \<lparr>gir_responder_id = id_of [], gir_token = [], gir_nodes = None, gir_v = [1]\<rparr>), read_only = False\<rparr>"

definition wit_env ::
  "(nat \<times> (id \<times> sock_addr) list, nat \<times> (id \<times> nat \<times> (id \<times> sock_addr) list) list,
    nat \<times> (id \<times> bytes) list, nat \<times> (id \<times> mutable_item) list, nat \<times> (id \<times> cached_query) list, unit) rpc_env" where
  "wit_env = \<lparr>env_crc = (\<lambda>_. 0), env_crypto = wit_crypto, env_stores = wit_stores, env_cache = list_lru,
     env_bencode = \<lparr>bencode_to_bytes = (\<lambda>_. Inl ()), bencode_from_bytes = (\<lambda>_. Inr (into_serde_message wit_value_message))\<rparr>,
     env_powf = (\<lambda>_ _. Fin 1)\<rparr>"

lemma wit_env_ok: "env_ok wit_env"
  by (simp add: env_ok_def wit_env_def wit_stores_ok list_lru.lru_cache_axioms)

definition wit_rpc0 where
  "wit_rpc0 = projr (rpc_new wit_env (\<lambda>a. Inr a :: unit + sock_addr) (\<lambda>_. Inl ()) 0 (\<lambda>_. 0) (config_default\<lparr>cfg_bootstrap := Some []\<rparr>))"

lemma wit_rpc0_new:
  "rpc_new wit_env (\<lambda>a. Inr a :: unit + sock_addr) (\<lambda>_. Inl ()) 0 (\<lambda>_. 0) (config_default\<lparr>cfg_bootstrap := Some []\<rparr>) = Inr wit_rpc0"
  by (simp add: wit_rpc0_def rpc_new_def socket_new_def socket_bind_def config_default_def Let_def case_prod_beta)

lemma wit_rpc0_fields:
  "bootstrap wit_rpc0 = []" "iterative_queries wit_rpc0 = []" "put_queries wit_rpc0 = []" "rt_buckets (routing_table wit_rpc0) = Map.empty"
  "last_table_refresh wit_rpc0 = 0" "last_table_ping wit_rpc0 = 0" "cached_iterative_queries wit_rpc0 = (1000, [])"
  "next_tid (socket wit_rpc0) = 0" "requests (inflight (socket wit_rpc0)) = Map.empty"
  "timeout (inflight (socket wit_rpc0)) = DEFAULT_REQUEST_TIMEOUT" "last_cleanup (socket wit_rpc0) = 0"
  by (simp_all add: wit_rpc0_def rpc_new_def socket_new_def socket_bind_def config_default_def Let_def case_prod_beta
      rt_new_def wit_env_def list_lru_def MAX_CACHED_ITERATIVE_QUERIES_def inflight_new_def)

lemma empty_table:
  assumes "rt_buckets t = Map.empty"
  shows "rt_nodes t = []" "rt_closest_secure crc t k e n = []" "rt_is_empty t"
proof -
  have v: "rt_values t = []" using assms by (simp add: rt_values_def List.map_filter_def)
  have t: "t = rt_new (rt_id t)" using assms by (simp add: rt_new_def)
  have "rt_inv crc t" by (subst t) simp
  then have "rt_nodes t = rt_entries t" by (rule rt_nodes_entries)
  then show n: "rt_nodes t = []" using assms by (simp add: rt_entries_def)
  show "rt_closest_secure crc t k e n = []" by (simp add: rt_closest_secure_def n take_until_secure_def)
  show "rt_is_empty t" by (simp add: rt_is_empty_def v)
qed

definition wit_rpc1 where
  "wit_rpc1 = snd (rpc_get wit_env 10 (GetGetValue \<lparr>gvq_target = wit_target, gvq_seq = None, gvq_salt = None\<rparr>) (Some [wit_address]) wit_rpc0)"

definition wit_visit where
  "wit_visit = query_visit 10 wit_address
     (query_new (rpc_id wit_rpc0) wit_target (GetGetValue \<lparr>gvq_target = wit_target, gvq_seq = None, gvq_salt = None\<rparr>),
      socket wit_rpc0, rpc_rng wit_rpc0)"

lemma wit_visit_closest: "iq_closest (fst wit_visit) = closest_new wit_target"
  by (simp add: wit_visit_def query_visit_query) (simp add: query_new_def)

lemma wit_visit_socket:
  "requests (inflight (fst (snd wit_visit))) = [0 \<mapsto> \<lparr>ir_to = wit_address, ir_sent_at = 10\<rparr>, 1 \<mapsto> \<lparr>ir_to = wit_address, ir_sent_at = 10\<rparr>]"
  "timeout (inflight (fst (snd wit_visit))) = DEFAULT_REQUEST_TIMEOUT"
  by (simp_all add: wit_visit_def query_visit_socket inflight_add_def wit_rpc0_fields)

lemma wit_visit_tids: "iq_inflight_requests (fst wit_visit) = [0, 1]"
  by (simp add: wit_visit_def query_visit_query wit_rpc0_fields) (simp add: query_new_def)

lemma wit_visit_target: "query_target (query_learn env now a wit_value_message (fst wit_visit)) = wit_target"
  by (simp add: query_learn_def wit_value_message_def get_closer_nodes_def get_token_def add_responding_node_def closest_add_def
    Let_def query_target_def wit_visit_def query_visit_query already_exists_def split: sum.split)
    (simp add: query_new_def)

lemma wit_rpc1_eq:
  "wit_rpc1 = wit_rpc0\<lparr>socket := fst (snd wit_visit), rpc_rng := snd (snd wit_visit), cached_iterative_queries := (1000, []),
     iterative_queries := [(wit_target, fst wit_visit)]\<rparr>"
proof -
  have s: "query_start 10 wit_visit = wit_visit"
    by (simp add: query_start_def visit_closest_def to_visit_alt wit_visit_closest)
  show ?thesis
    by (simp add: wit_rpc1_def rpc_get_def Let_def wit_rpc0_fields empty_table wit_visit_def [symmetric] s wit_env_def list_lru_def
      case_prod_beta)
qed

lemma wit_tick_queries: "tick_get_queries wit_env 20 wit_rpc1 = ([], False, wit_rpc1)"
proof -
  have "query_tick 20 wit_visit = (False, wit_visit)"
    by (simp add: query_tick_def visit_closest_def to_visit_alt wit_visit_closest wit_visit_tids case_prod_beta Let_def
      socket_inflight_def inflight_contains_def wit_visit_socket elapsed_def const_facts)
  then have "query_tick 20 (fst wit_visit, fst (snd wit_visit), snd (snd wit_visit)) = (False, wit_visit)" by simp
  then show ?thesis by (simp add: tick_get_queries_def wit_rpc1_eq case_prod_beta Let_def)
qed

lemma wit_maintenance: "periodic_node_maintenance wit_env 20 wit_rpc1 = wit_rpc1\<lparr>last_table_refresh := 20\<rparr>"
  by (simp add: periodic_node_maintenance_def Let_def wit_rpc1_eq wit_rpc0_fields elapsed_def const_facts empty_table populate_def)

definition wit_input :: udp_result where
  "wit_input = FromV4 (100 # replicate 14 0) wit_address"

lemma wit_received:
  "fst (socket_recv_from (env_bencode wit_env) 30 wit_input (fst (snd wit_visit))) = Some (wit_value_message, wit_address)"
proof -
  have d: "message_from_bytes (env_bencode wit_env) 30 (take MTU (100 # replicate 14 0)) = Inr wit_value_message"
    by (simp add: message_from_bytes_def wit_env_def message_view MTU_def wire_view_def wit_value_message_def)
  have p: "sa_port wit_address \<noteq> 0" by (simp add: wit_address_def sock_addr_new_def)
  have f: "fst (inflight_remove 30 (inflight (fst (snd wit_visit))) 0 wit_address) = Some \<lparr>ir_to = wit_address, ir_sent_at = 10\<rparr>"
    by (simp add: remove_found wit_visit_socket does_match_def elapsed_def const_facts)
  have t: "transaction_id wit_value_message = 0" "\<not> is_request wit_value_message"
    by (simp_all add: wit_value_message_def is_request_def)
  show ?thesis unfolding wit_input_def socket_recv_from_datagram d
    by (simp add: Let_def p expected_response remove_socket_cleanup f t)
qed

lemma wit_delivered:
  "query_deliver wit_crypto (message_type wit_value_message) g (query_learn env now a wit_value_message (fst wit_visit)) =
     (query_add_response (ImmutableFound [1]) (if g then query_record outcome_record_invalid_response
        (query_learn env now a wit_value_message (fst wit_visit)) else query_learn env now a wit_value_message (fst wit_visit)),
      Some (ImmutableFound [1]))"
proof -
  have "query_target (query_record f q) = query_target q" for f q by (simp add: query_target_def query_record_def)
  then show ?thesis using wit_visit_target [of env now a]
    by (simp add: query_deliver_def Let_def validate_immutable_def wit_target_def)
      (simp add: wit_value_message_def query_deliver_def Let_def validate_immutable_def wit_target_def)
qed

lemma wit_tick:
  "\<exists>report p'. rpc_tick wit_env 20 30 wit_input wit_rpc1 = Some (report, p') \<and>
     new_query_response report = Some (wit_target, ImmutableFound [1])"
proof -
  have q: "query_is_inflight (fst wit_visit) 0" "query_target (fst wit_visit) = wit_target"
    by (simp_all add: query_is_inflight_def wit_visit_tids) (simp add: wit_visit_def query_visit_query query_target_def query_new_def)
  have c: "env_crypto wit_env = wit_crypto" "transaction_id wit_value_message = 0" "\<not> read_only wit_value_message"
    "message_type wit_value_message = Response (GetImmutableResponse
       \<lparr>gir_responder_id = id_of [], gir_token = [], gir_nodes = None, gir_v = [1]\<rparr>)"
    by (simp_all add: wit_env_def wit_value_message_def)
  have "fst (rpc_handle_response wit_env 30 wit_address wit_value_message
      (wit_rpc1\<lparr>last_table_refresh := 20, socket := s\<rparr>)) = Some (wit_target, ImmutableFound [1])" for s
    by (simp add: rpc_handle_response_def c(1-3) wit_rpc1_eq wit_rpc0_fields find_value_def q wit_delivered case_prod_beta Let_def)
  moreover have "socket (wit_rpc1\<lparr>last_table_refresh := 20\<rparr>) = fst (snd wit_visit)" by (simp add: wit_rpc1_eq)
  ultimately have "fst (rpc_handle_message wit_env 30 wit_input (wit_rpc1\<lparr>last_table_refresh := 20\<rparr>)) = Some (wit_target, ImmutableFound [1])"
    using wit_received by (simp add: rpc_handle_message_def case_prod_beta Let_def c(4))
  moreover have "tick_put_queries 20 wit_rpc1 = []" by (simp add: tick_put_queries_def wit_rpc1_eq wit_rpc0_fields List.map_filter_def)
  moreover have "cleanup_done_queries wit_env 20 [] [] wit_rpc1 = Some ([], wit_rpc1)" by (simp add: cleanup_done_queries_def)
  ultimately show ?thesis by (simp add: rpc_tick_def wit_tick_queries wit_maintenance case_prod_beta Let_def)
qed

theorem rpc_reports_only_verified_witness: "verified wit_crypto wit_target (ImmutableFound [1])"
proof -
  obtain report p' where t: "rpc_tick wit_env 20 30 wit_input wit_rpc1 = Some (report, p')"
    "new_query_response report = Some (wit_target, ImmutableFound [1])" using wit_tick by blast
  have "rpc_reachable wit_env wit_rpc1" unfolding wit_rpc1_def by (rule rpc_step_get [OF rpc_start [OF wit_rpc0_new]])
  from rpc_reports_only_verified [OF this wit_env_ok t(1)] t(2) show ?thesis by (simp add: wit_env_def)
qed





theorem self_ping_secures_id_witness:
  "let p' = rpc_handle_request wit_env 5 wit_address 7 wit_ping (wit_rpc0\<lparr>public_address := Some wit_address\<rparr>) in
    \<not> firewalled p' \<and> is_valid_for_ip (env_crc wit_env) (rpc_id p') (sa_ip wit_address) \<and>
    (if is_valid_for_ip (env_crc wit_env) (rpc_id (wit_rpc0\<lparr>public_address := Some wit_address\<rparr>)) (sa_ip wit_address)
     then routing_table p' = routing_table (wit_rpc0\<lparr>public_address := Some wit_address\<rparr>)
     else routing_table p' = rt_new (rpc_id p'))"
  by (rule self_ping_secures_id) (simp_all add: wit_ping_def)

section \<open>Behaviour that differs from the comments\<close>

text \<open>A node whose answer carries a value is not added to the routing table.\<close>

theorem value_responder_not_added:
  assumes "fst (rpc_handle_response env now a m p) = Some x"
  shows "routing_table (snd (rpc_handle_response env now a m p)) = routing_table p"
  using assms by (auto simp: rpc_handle_response_def Let_def case_prod_beta split: if_splits option.splits)

text \<open>A put that waits for a query of its target which turns out to be a \<open>find_node\<close> query is never started: when that
  query is done it is dropped, and the put stays as it was, unstarted, and so pending.\<close>

theorem put_behind_find_node_hangs:
  assumes "map_of (iterative_queries p) (go_id outcome) = Some q" "query_is_find_node q"
    and "map_of (put_queries p) (go_id outcome) = Some pq" "\<not> put_started pq"
  shows "\<exists>p'. cleanup_done_get env now outcome (done_put, p) = Some (done_put, p') \<and>
    map_of (iterative_queries p') (go_id outcome) = None \<and> map_of (put_queries p') (go_id outcome) = Some pq \<and>
    poll_completion now' s pq = Inr None"
proof -
  have ping: "iterative_queries (rpc_ping now a q) = iterative_queries q" "put_queries (rpc_ping now a q) = put_queries q" for a q
    by (simp_all add: rpc_ping_def rpc_request_def case_prod_beta Let_def)
  have v: "iterative_queries (update_address_votes now q p) = iterative_queries p"
    "put_queries (update_address_votes now q p) = put_queries p" for p
    by (simp_all add: update_address_votes_def ping Let_def split: option.split)
  have c: "iterative_queries (cache_iterative_query env q ns p) = iterative_queries p"
    "put_queries (cache_iterative_query env q ns p) = put_queries p" for ns p
    by (simp_all add: cache_iterative_query_def Let_def case_prod_beta)
  show ?thesis using assms
    by (simp add: cleanup_done_get_def c v poll_completion_def delete_conv')
qed

text \<open>Each time a \<open>find_node\<close> query of a cached target is cached again, the count by which the sum of
  the responders' estimates is divided grows, though the number of cached queries does not.\<close>

theorem find_node_count_drifts:
  assumes "env_ok env" "rpc_inv env p" "cached_len env p < MAX_CACHED_ITERATIVE_QUERIES"
    and "lru_lookup (env_cache env) (cached_iterative_queries p) (query_target q) = Some c" "cq_is_find_node c"
    and "\<not> closest_is_empty (iq_closest q)"
  shows "responders_based_dht_size_estimates_count (cache_iterative_query env q nodes p) =
    responders_based_dht_size_estimates_count p + 1"
proof -
  have l: "lru_cache (env_cache env)" using assms(1) by (simp add: env_ok_def)
  have "fst (lru_put (env_cache env) (cached_iterative_queries p) (query_target q) v) = Some c" for v
    using lru_cache.put [OF l, of "cached_iterative_queries p" "query_target q" v] assms(4)
    by (metis lru_lookup_def prod.collapse)
  then show ?thesis using assms(3,5,6)
    by (simp add: cache_iterative_query_def Let_def case_prod_beta decrement_cached_stats_def)
qed

end
