(* ===== verification/Dht_Actor.thy ===== *)
theory Dht_Actor
  imports Rpc_Properties
begin

text \<open>
  The actor that owns a node, from \<^verbatim>\<open>src/src/dht.rs\<close>: the builder of configurations, the loop that takes one message of
  the callers, ticks the node and hands out what the tick reports, and the functions of the blocking
  interface that prepare requests and convert results. A channel is a number and what is sent over
  channels is a log; threads, blocking and the end of the thread when all its callers are gone are outside the model. The theorems show that no caller is forgotten
  while its query runs or after it is done, and that a remote error code makes \<open>announce_peer\<close> panic.
\<close>

section \<open>The builder\<close>

definition builder_server_mode :: "config \<Rightarrow> config" where
  "builder_server_mode c = c\<lparr>cfg_server_mode := True\<rparr>"

definition builder_server_settings :: "server_settings \<Rightarrow> config \<Rightarrow> config" where
  "builder_server_settings settings c = c\<lparr>cfg_server_settings := settings\<rparr>"

definition builder_bootstrap :: "('a \<Rightarrow> 'io + (ip_addr \<times> u16) list) \<Rightarrow> 'a list \<Rightarrow> config \<Rightarrow> config" where
  "builder_bootstrap resolve names c = c\<lparr>cfg_bootstrap := Some (to_socket_address resolve names)\<rparr>"

definition builder_extra_bootstrap :: "('a \<Rightarrow> 'io + (ip_addr \<times> u16) list) \<Rightarrow> 'a list \<Rightarrow> config \<Rightarrow> config" where
  "builder_extra_bootstrap resolve names c =
     c\<lparr>cfg_bootstrap := Some ((case cfg_bootstrap c of Some addrs \<Rightarrow> addrs | None \<Rightarrow> []) @ to_socket_address resolve names)\<rparr>"

definition builder_no_bootstrap :: "config \<Rightarrow> config" where
  "builder_no_bootstrap c = c\<lparr>cfg_bootstrap := Some []\<rparr>"

definition builder_port :: "u16 \<Rightarrow> config \<Rightarrow> config" where
  "builder_port port c = c\<lparr>cfg_port := Some port\<rparr>"

definition builder_public_ip :: "u32 \<Rightarrow> config \<Rightarrow> config" where
  "builder_public_ip ip c = c\<lparr>cfg_public_ip := Some ip\<rparr>"

definition builder_request_timeout :: "duration \<Rightarrow> config \<Rightarrow> config" where
  "builder_request_timeout d c = c\<lparr>cfg_request_timeout := d\<rparr>"

definition builder_bind_address :: "u32 \<Rightarrow> config \<Rightarrow> config" where
  "builder_bind_address ip c = c\<lparr>cfg_bind_address := Some ip\<rparr>"

section \<open>Messages of the actor\<close>

type_synonym channel = nat

datatype response_sender =
    ClosestNodesSender channel
  | PeersSender channel
  | MutableSender channel
  | MutableDetailedSender channel channel
  | ImmutableSender channel

datatype actor_message =
    ActorInfo channel
  | ActorPut put_request_specific channel "node list option"
  | ActorGet get_request_specific response_sender
  | ActorCheck channel
  | ActorToBootstrap channel
  | ActorSeedRouting "node list" channel

datatype sent =
    SentInfo info
  | SentPut "put_error + put_outcome"
  | SentNodes "node list"
  | SentPeers "sock_addr list"
  | SentMutable mutable_item
  | SentImmutable bytes
  | SentOutcome get_mutable_outcome
  | SentBootstrap "bytes list"
  | SentOk
  | SentUnit

record ('ic, 'im, 'mu, 'q) actor =
  act_rpc :: "('ic, 'im, 'mu, 'q) rpc"
  put_senders :: "(id \<times> channel list) list"
  get_senders :: "(id \<times> response_sender list) list"
  sent_log :: "(channel \<times> sent) list"

section \<open>The loop\<close>

text \<open>\<open>entry(k).or_insert(vec![])\<close> followed by \<open>push\<close>.\<close>

definition push_sender :: "id \<Rightarrow> 's \<Rightarrow> (id \<times> 's list) list \<Rightarrow> (id \<times> 's list) list" where
  "push_sender k s senders =
     AList.update k ((case map_of senders k of Some ss \<Rightarrow> ss | None \<Rightarrow> []) @ [s]) senders"

definition actor_send :: "response_sender \<Rightarrow> query_response \<Rightarrow> (channel \<times> sent) list" where
  "actor_send s resp =
     (case (s, resp) of
        (PeersSender c, PeersFound r) \<Rightarrow> [(c, SentPeers r)]
      | (MutableSender c, MutableFound r) \<Rightarrow> [(c, SentMutable r)]
      | (MutableDetailedSender values _, MutableFound r) \<Rightarrow> [(values, SentMutable r)]
      | (ImmutableSender c, ImmutableFound r) \<Rightarrow> [(c, SentImmutable r)]
      | _ \<Rightarrow> [])"

definition actor_log :: "(channel \<times> sent) list \<Rightarrow> ('ic, 'im, 'mu, 'q) actor \<Rightarrow> ('ic, 'im, 'mu, 'q) actor" where
  "actor_log out a = a\<lparr>sent_log := sent_log a @ out\<rparr>"

definition actor_receive ::
  "('pc, 'ic, 'im, 'mu, 'q, 'be) rpc_env \<Rightarrow> instant \<Rightarrow> actor_message \<Rightarrow> ('ic, 'im, 'mu, 'q) actor \<Rightarrow>
     ('ic, 'im, 'mu, 'q) actor option" where
  "actor_receive env now msg a =
     (case msg of
        ActorCheck c \<Rightarrow> Some (actor_log [(c, SentOk)] a)
      | ActorInfo c \<Rightarrow> Some (actor_log [(c, SentInfo (rpc_info env (act_rpc a)))] a)
      | ActorPut request c extra_nodes \<Rightarrow>
          (case rpc_put env now request extra_nodes (act_rpc a) of
             None \<Rightarrow> None
           | Some (result, p) \<Rightarrow>
               Some (case result of
                   Inr _ \<Rightarrow> a\<lparr>act_rpc := p, put_senders := push_sender (put_target request) c (put_senders a)\<rparr>
                 | Inl err \<Rightarrow> actor_log [(c, SentPut (Inl err))] (a\<lparr>act_rpc := p\<rparr>)))
      | ActorGet request s \<Rightarrow>
          (let (responses, p) = rpc_get env now request None (act_rpc a);
               a1 = a\<lparr>act_rpc := p\<rparr>;
               a2 = (case responses of Some rs \<Rightarrow> actor_log (concat (map (actor_send s) rs)) a1 | None \<Rightarrow> a1)
           in Some (a2\<lparr>get_senders := push_sender (get_request_target request) s (get_senders a2)\<rparr>))
      | ActorToBootstrap c \<Rightarrow> Some (actor_log [(c, SentBootstrap (to_bootstrap now (routing_table (act_rpc a))))] a)
      | ActorSeedRouting nodes c \<Rightarrow>
          (let p = act_rpc a;
               t = foldl (\<lambda>t n. fst (rt_add (env_crc env) now t n)) (routing_table p) nodes
           in Some (actor_log [(c, SentUnit)] (a\<lparr>act_rpc := p\<lparr>routing_table := t\<rparr>\<rparr>))))"

definition get_finished :: "get_query_outcome \<Rightarrow> response_sender \<Rightarrow> (channel \<times> sent) list" where
  "get_finished done_get s =
     (case s of
        ClosestNodesSender c \<Rightarrow> [(c, SentNodes (go_closest_nodes done_get))]
      | MutableDetailedSender _ outcome \<Rightarrow>
          [(outcome, SentOutcome (case go_mutable_outcome done_get of Some g \<Rightarrow> g | None \<Rightarrow> outcome_default))]
      | _ \<Rightarrow> [])"

text \<open>The three parts of the report: a new response, finished gets, finished puts.\<close>

definition report_response :: "(id \<times> query_response) option \<Rightarrow> ('ic, 'im, 'mu, 'q) actor \<Rightarrow> ('ic, 'im, 'mu, 'q) actor" where
  "report_response found a =
     (case found of
        Some (target, resp) \<Rightarrow>
          (case map_of (get_senders a) target of
             Some ss \<Rightarrow> actor_log (concat (map (\<lambda>s. actor_send s resp) ss)) a
           | None \<Rightarrow> a)
      | None \<Rightarrow> a)"

definition report_get :: "get_query_outcome \<Rightarrow> ('ic, 'im, 'mu, 'q) actor \<Rightarrow> ('ic, 'im, 'mu, 'q) actor" where
  "report_get done_get a =
     (case map_of (get_senders a) (go_id done_get) of
        Some ss \<Rightarrow> actor_log (concat (map (get_finished done_get) ss))
          (a\<lparr>get_senders := AList.delete (go_id done_get) (get_senders a)\<rparr>)
      | None \<Rightarrow> a)"

definition report_put :: "id \<times> (put_error + put_outcome) \<Rightarrow> ('ic, 'im, 'mu, 'q) actor \<Rightarrow> ('ic, 'im, 'mu, 'q) actor" where
  "report_put done_put a =
     (case map_of (put_senders a) (fst done_put) of
        Some cs \<Rightarrow> actor_log (map (\<lambda>c. (c, SentPut (snd done_put))) cs)
          (a\<lparr>put_senders := AList.delete (fst done_put) (put_senders a)\<rparr>)
      | None \<Rightarrow> a)"

definition actor_report :: "rpc_tick_report \<Rightarrow> ('ic, 'im, 'mu, 'q) actor \<Rightarrow> ('ic, 'im, 'mu, 'q) actor" where
  "actor_report report a =
     fold report_put (done_put_queries report)
       (fold report_get (done_get_queries report) (report_response (new_query_response report) a))"

text \<open>One round of the loop: at most one message, then a tick.\<close>

definition actor_step ::
  "('pc, 'ic, 'im, 'mu, 'q, 'be) rpc_env \<Rightarrow> instant \<Rightarrow> instant \<Rightarrow> udp_result \<Rightarrow> actor_message option \<Rightarrow>
     ('ic, 'im, 'mu, 'q) actor \<Rightarrow> ('ic, 'im, 'mu, 'q) actor option" where
  "actor_step env now received_at input msg a =
     (case (case msg of Some m \<Rightarrow> actor_receive env now m a | None \<Rightarrow> Some a) of
        None \<Rightarrow> None
      | Some a1 \<Rightarrow>
          (case rpc_tick env now received_at input (act_rpc a1) of
             None \<Rightarrow> None
           | Some (report, p) \<Rightarrow> Some (actor_report report (a1\<lparr>act_rpc := p\<rparr>))))"

definition actor_new :: "('ic, 'im, 'mu, 'q) rpc \<Rightarrow> ('ic, 'im, 'mu, 'q) actor" where
  "actor_new p = \<lparr>act_rpc = p, put_senders = [], get_senders = [], sent_log = []\<rparr>"

section \<open>The blocking interface\<close>

definition announce_peer_request :: "id \<Rightarrow> u16 option \<Rightarrow> put_request_specific" where
  "announce_peer_request info_hash port =
     (let (port', implied) = (case port of Some p \<Rightarrow> (p, None) | None \<Rightarrow> (0, Some True))
      in AnnouncePeer \<lparr>ap_info_hash = info_hash, ap_port = port', ap_implied_port = implied\<rparr>)"

definition put_immutable_request :: "crypto \<Rightarrow> bytes \<Rightarrow> put_request_specific" where
  "put_immutable_request cr v = PutImmutable \<lparr>pi_target = hash_immutable cr v, pi_v = v\<rparr>"

definition put_mutable_request :: "mutable_item \<Rightarrow> i64 option \<Rightarrow> put_request_specific" where
  "put_mutable_request item cas = PutMutable (put_mutable_args_from item cas)"

definition find_node_request :: "id \<Rightarrow> channel \<Rightarrow> actor_message" where
  "find_node_request target c = ActorGet (GetFindNode \<lparr>fnq_target = target\<rparr>) (ClosestNodesSender c)"

definition get_peers_request :: "id \<Rightarrow> channel \<Rightarrow> actor_message" where
  "get_peers_request info_hash c = ActorGet (GetGetPeers \<lparr>gpq_info_hash = info_hash\<rparr>) (PeersSender c)"

definition get_immutable_request :: "id \<Rightarrow> channel \<Rightarrow> actor_message" where
  "get_immutable_request target c =
     ActorGet (GetGetValue \<lparr>gvq_target = target, gvq_seq = None, gvq_salt = None\<rparr>) (ImmutableSender c)"

definition get_mutable_request :: "crypto \<Rightarrow> bytes \<Rightarrow> bytes option \<Rightarrow> i64 option \<Rightarrow> channel \<Rightarrow> actor_message" where
  "get_mutable_request cr public_key salt more_recent_than c =
     ActorGet (GetGetValue \<lparr>gvq_target = target_from_key cr public_key salt, gvq_seq = more_recent_than, gvq_salt = salt\<rparr>)
       (MutableSender c)"

definition get_mutable_detailed_request ::
  "crypto \<Rightarrow> bytes \<Rightarrow> bytes option \<Rightarrow> i64 option \<Rightarrow> channel \<Rightarrow> channel \<Rightarrow> actor_message" where
  "get_mutable_detailed_request cr public_key salt more_recent_than values outcome =
     ActorGet (GetGetValue \<lparr>gvq_target = target_from_key cr public_key salt, gvq_seq = more_recent_than, gvq_salt = salt\<rparr>)
       (MutableDetailedSender values outcome)"

definition get_closest_nodes_request :: "id \<Rightarrow> channel \<Rightarrow> actor_message" where
  "get_closest_nodes_request target c =
     ActorGet (GetGetValue \<lparr>gvq_target = target, gvq_seq = None, gvq_salt = None\<rparr>) (ClosestNodesSender c)"

text \<open>The result of a put as \<open>announce_peer\<close> and \<open>put_immutable\<close> return it: a concurrency error is
  \<open>unreachable!\<close>, a panic.\<close>

definition put_result :: "put_error + put_outcome \<Rightarrow> put_error + id" where
  "put_result r = (case r of Inl e \<Rightarrow> Inl e | Inr outcome \<Rightarrow> Inr (po_target outcome))"

definition unconflicted_result :: "put_error + put_outcome \<Rightarrow> (put_query_error + id) option" where
  "unconflicted_result r =
     (case put_result r of
        Inr t \<Rightarrow> Some (Inr t)
      | Inl (PutErrorQuery e) \<Rightarrow> Some (Inl e)
      | Inl (PutErrorConcurrency _) \<Rightarrow> None)"

definition get_mutable_most_recent :: "mutable_item list \<Rightarrow> mutable_item option" where
  "get_mutable_most_recent items = foldl most_recent_mutable_item None items"

section \<open>The queries that a step ends\<close>

definition keys :: "('k \<times> 'v) list \<Rightarrow> 'k set" where
  "keys kvs = fst ` set kvs"

lemma keys_simps [simp]:
  "keys (AList.update k v kvs) = insert k (keys kvs)" "keys (AList.delete k kvs) = keys kvs - {k}" "keys [] = {}"
  by (auto simp: keys_def AList.delete_eq dom_update)

lemma map_of_keys: "map_of kvs k = None \<longleftrightarrow> k \<notin> keys kvs"
  by (simp add: keys_def map_of_eq_None_iff)

lemma rpc_get_keys [simp]:
  "keys (iterative_queries (snd (rpc_get env now request extra p))) = insert (get_request_target request) (keys (iterative_queries p))"
proof (cases "map_of (iterative_queries p) (get_request_target request)")
  case (Some q)
  then have "get_request_target request \<in> keys (iterative_queries p)" by (metis map_of_keys option.distinct(1))
  then show ?thesis using Some by (auto simp: rpc_get_def Let_def)
qed (simp add: rpc_get_def Let_def case_prod_beta)

lemma rpc_put_start_keys:
  assumes "rpc_put_start env now request extra p = Some (result, p')"
  shows "result = Inr () \<and> keys (put_queries p') = insert (put_target request) (keys (put_queries p)) \<and>
    keys (iterative_queries p) \<subseteq> keys (iterative_queries p')"
proof -
  have no_error: "put_start now ns (put_query_new t req ex, st) = Some (Inl e, st') \<Longrightarrow> ns = []" for ns t req ex st e st'
    by (auto simp: put_start_def split: if_splits)
  show ?thesis using assms
    by (auto simp: rpc_put_start_def Let_def case_prod_beta split: option.splits sum.splits if_splits dest!: no_error)
qed

lemma rpc_put_keys:
  assumes "rpc_put env now request extra p = Some (result, p')"
  shows "keys (put_queries p) \<subseteq> keys (put_queries p') \<and> keys (iterative_queries p) \<subseteq> keys (iterative_queries p') \<and>
    (result = Inr () \<longrightarrow> put_target request \<in> keys (put_queries p'))"
proof (cases "put_conflict (put_queries p) request")
  case (StopWith res)
  have "map_of (put_queries p) (put_target request) \<noteq> None"
    using StopWith by (auto simp: put_conflict_def split: put_request_specific.splits option.splits)
  then have "put_target request \<in> keys (put_queries p)" by (simp add: map_of_keys)
  then show ?thesis using assms StopWith by (auto simp: rpc_put_def)
next
  case Replace
  have "rpc_put_start env now request extra (p\<lparr>put_queries := AList.delete (put_target request) (put_queries p)\<rparr>) = Some (result, p')"
    using assms Replace by (simp add: rpc_put_def)
  from rpc_put_start_keys [OF this] show ?thesis by auto
next
  case NoConflict
  then show ?thesis using assms rpc_put_start_keys [of env now request extra p result p'] by (auto simp: rpc_put_def)
qed

definition same_keys :: "('ic, 'im, 'mu, 'q) rpc \<Rightarrow> ('ic, 'im, 'mu, 'q) rpc \<Rightarrow> bool" where
  "same_keys p p' \<longleftrightarrow> keys (put_queries p) \<subseteq> keys (put_queries p') \<and> keys (iterative_queries p) \<subseteq> keys (iterative_queries p')"

lemma same_keys_trans: "same_keys p q \<Longrightarrow> same_keys q r \<Longrightarrow> same_keys p r"
  by (auto simp: same_keys_def)

lemma same_keys_get: "same_keys p (snd (rpc_get env now request extra p))"
  by (auto simp: same_keys_def)

lemma same_keys_ping: "same_keys p (rpc_ping now a p)"
  by (simp add: same_keys_def rpc_ping_def rpc_request_def case_prod_beta Let_def)

lemma same_keys_pings: "same_keys p (ping_nodes now as p)"
  unfolding ping_nodes_def
proof (induction as arbitrary: p)
  case (Cons a as)
  show ?case using same_keys_trans [OF same_keys_ping Cons.IH] by simp
qed (simp add: same_keys_def)

lemma same_keys_maintenance: "same_keys p (periodic_node_maintenance env now p)"
proof -
  have sw: "same_keys p (try_switching_to_server_mode p)" for p
    by (simp add: same_keys_def try_switching_to_server_mode_def)
  have pp: "same_keys p (ping_and_purge now p)" for p
    using same_keys_pings [of "purge_nodes ids (p\<lparr>last_table_ping := now\<rparr>)" now as for ids as]
    by (auto simp: ping_and_purge_def Let_def case_prod_beta same_keys_def purge_nodes_def)
  have po: "same_keys p (populate env now p)" for p
    using same_keys_get [of "p\<lparr>last_table_refresh := now\<rparr>"] by (auto simp: populate_def Let_def same_keys_def)
  have refl: "same_keys p p" for p by (simp add: same_keys_def)
  show ?thesis unfolding periodic_node_maintenance_def Let_def
    by (auto intro: sw pp po refl same_keys_trans [OF sw] same_keys_trans [OF pp] same_keys_trans [OF same_keys_trans [OF sw pp]])
qed

lemma same_keys_request: "same_keys p (rpc_handle_request env now a tid req p)"
proof (rule rpc_handle_request_cases [of p env now a req tid])
  fix p1 p2
  assume p1: "p1 = p \<or> (\<exists>n. p1 = p\<lparr>routing_table := fst (rt_add (env_crc env) now (routing_table p) n)\<rparr>)"
    and p2: "p2 = p1 \<or> (\<exists>s r. p2 = p1\<lparr>rpc_server := fst (snd (server_handle_request (env_crc env) (env_crypto env) (env_stores env) now
        (rpc_rng p1) (routing_table p1) a req (rpc_server p1))), rpc_rng := r, socket := s\<rparr>)"
    and p3: "rpc_handle_request env now a tid req p = p2 \<or> rpc_handle_request env now a tid req p = p2\<lparr>firewalled := False\<rparr> \<or>
     (\<exists>g r n. rpc_handle_request env now a tid req p =
        (snd (rpc_get env now g None (p2\<lparr>firewalled := False, rpc_rng := r\<rparr>)))\<lparr>routing_table := rt_new n\<rparr>)"
  have k: "put_queries p2 = put_queries p" "iterative_queries p2 = iterative_queries p" using p1 p2 by auto
  then have "same_keys p p2" "same_keys p (p2\<lparr>firewalled := False\<rparr>)" by (simp_all add: same_keys_def)
  then show ?thesis using p3 by (elim disjE exE) (simp_all add: same_keys_def k subset_insertI)
qed

lemma same_keys_message: "same_keys p (snd (rpc_handle_message env now input p))"
proof -
  have r: "same_keys q (snd (rpc_handle_response env now a m q))" for a m q
    by (auto simp: rpc_handle_response_def Let_def case_prod_beta same_keys_def split: option.split)
  have s: "same_keys p q \<longleftrightarrow> same_keys (p\<lparr>socket := s\<rparr>) q" for s q by (simp add: same_keys_def)
  obtain received sk where "socket_recv_from (env_bencode env) now input (socket p) = (received, sk)" by fastforce
  moreover have "same_keys p (rpc_handle_request env now a tid req (p\<lparr>socket := sk\<rparr>))" for a tid req
    using same_keys_request [of "p\<lparr>socket := sk\<rparr>"] s [of _ sk] by blast
  moreover have "same_keys p (snd (rpc_handle_response env now a m (p\<lparr>socket := sk\<rparr>)))" for a m
    using r [of "p\<lparr>socket := sk\<rparr>"] s [of _ sk] by blast
  moreover have "same_keys p (p\<lparr>socket := sk\<rparr>)" by (simp add: same_keys_def)
  ultimately show ?thesis by (auto simp: rpc_handle_message_def Let_def split: option.split message_type.split)
qed

lemma update_address_votes_keys:
  "iterative_queries (update_address_votes now q p) = iterative_queries p" "put_queries (update_address_votes now q p) = put_queries p"
  by (simp_all add: update_address_votes_def Let_def rpc_ping_def rpc_request_def case_prod_beta split: option.split)

lemma cache_iterative_query_keys:
  "iterative_queries (cache_iterative_query env q ns p) = iterative_queries p"
  "put_queries (cache_iterative_query env q ns p) = put_queries p"
  by (simp_all add: cache_iterative_query_def Let_def case_prod_beta)

lemma cleanup_done_get_keys:
  assumes "cleanup_done_get env now outcome (dp, p) = Some (dp', p')"
  shows "keys (iterative_queries p) - {go_id outcome} \<subseteq> keys (iterative_queries p') \<and> keys (put_queries p) \<subseteq> keys (put_queries p') \<and>
    set dp \<subseteq> set dp'"
  using assms
  by (auto simp: cleanup_done_get_def Let_def update_address_votes_keys cache_iterative_query_keys
      split: option.splits if_splits sum.splits)

lemma cleanup_done_gets_keys:
  "cleanup_done_gets env now outcomes (dp, p) = Some (dp', p') \<Longrightarrow>
     keys (iterative_queries p) - go_id ` set outcomes \<subseteq> keys (iterative_queries p') \<and> keys (put_queries p) \<subseteq> keys (put_queries p') \<and>
     set dp \<subseteq> set dp'"
proof (induction outcomes arbitrary: dp p)
  case (Cons outcome outcomes)
  then obtain dp1 p1 where c: "cleanup_done_get env now outcome (dp, p) = Some (dp1, p1)"
    "cleanup_done_gets env now outcomes (dp1, p1) = Some (dp', p')" by (auto split: option.splits)
  show ?case using cleanup_done_get_keys [OF c(1)] Cons.IH [OF c(2)] by auto
qed simp

lemma deletes_keys: "keys (fold (\<lambda>(k, _). AList.delete k) ds kvs) = keys kvs - fst ` set ds"
  by (induction ds arbitrary: kvs) auto

lemma cleanup_done_queries_keys:
  assumes "cleanup_done_queries env now dg dp p = Some (dp', p')"
  shows "keys (iterative_queries p) - go_id ` set dg \<subseteq> keys (iterative_queries p') \<and>
    keys (put_queries p) - fst ` set dp' \<subseteq> keys (put_queries p')"
proof -
  obtain p1 where c: "cleanup_done_gets env now dg (dp, p) = Some (dp', p1)"
    "p' = p1\<lparr>put_queries := fold (\<lambda>(k, _). AList.delete k) dp' (put_queries p1)\<rparr>"
    using assms by (auto simp: cleanup_done_queries_def)
  show ?thesis using cleanup_done_gets_keys [OF c(1)] by (auto simp: c(2) deletes_keys)
qed

lemma tick_get_queries_keys:
  "keys (iterative_queries (snd (snd (tick_get_queries env now p)))) = keys (iterative_queries p) \<and>
   put_queries (snd (snd (tick_get_queries env now p))) = put_queries p"
proof -
  obtain qs os f s r where t: "tick_queries now (rpc_id p) (responders_based_dht_size_estimate p) (average_subnets env p)
      (iterative_queries p) False (socket p, rpc_rng p) = (qs, os, f, s, r)" by (metis prod_cases5)
  have "list_all2 (\<lambda>kq kq'. fst kq' = fst kq \<and> same_walk (snd kq) (snd kq')) (iterative_queries p) qs"
    using tick_queries_effect [OF t] by simp
  then have "map fst qs = map fst (iterative_queries p)" by (induction rule: list_all2_induct) simp_all
  then have "set (map fst qs) = set (map fst (iterative_queries p))" by (rule arg_cong)
  then show ?thesis by (simp add: tick_get_queries_def t keys_def)
qed

lemma rpc_tick_keys:
  assumes "rpc_tick env now received_at input p = Some (report, p')"
  shows "keys (iterative_queries p) - go_id ` set (done_get_queries report) \<subseteq> keys (iterative_queries p') \<and>
    keys (put_queries p) - fst ` set (done_put_queries report) \<subseteq> keys (put_queries p')"
proof -
  obtain dg f p1 where g: "tick_get_queries env now p = (dg, f, p1)" by (metis prod_cases3)
  obtain dp' p2 where c: "cleanup_done_queries env now dg (tick_put_queries now p) p1 = Some (dp', p2)"
    using assms by (auto simp: rpc_tick_def g split: option.splits)
  have "same_keys p2 p'" "done_get_queries report = dg" "done_put_queries report = dp'"
    using assms same_keys_trans [OF same_keys_maintenance same_keys_message]
    by (auto simp: rpc_tick_def g c Let_def case_prod_beta)
  then show ?thesis using cleanup_done_queries_keys [OF c] tick_get_queries_keys [of env now p]
    by (auto simp: same_keys_def g)
qed

section \<open>No caller is forgotten\<close>

text \<open>Every waiting caller waits for a query that is running.\<close>

definition callers_served :: "('ic, 'im, 'mu, 'q) actor \<Rightarrow> bool" where
  "callers_served a \<longleftrightarrow> keys (get_senders a) \<subseteq> keys (iterative_queries (act_rpc a)) \<and>
     keys (put_senders a) \<subseteq> keys (put_queries (act_rpc a))"

lemma push_sender_keys [simp]: "keys (push_sender k s ss) = insert k (keys ss)"
  by (simp add: push_sender_def)

lemma actor_log_simps [simp]:
  "act_rpc (actor_log out a) = act_rpc a" "get_senders (actor_log out a) = get_senders a"
  "put_senders (actor_log out a) = put_senders a" "sent_log (actor_log out a) = sent_log a @ out"
  by (simp_all add: actor_log_def)

lemma actor_receive_served:
  assumes "callers_served a" "actor_receive env now msg a = Some a'"
  shows "callers_served a'"
proof (cases msg)
  case (ActorPut request c extra)
  then obtain result p where put: "rpc_put env now request extra (act_rpc a) = Some (result, p)"
    using assms(2) by (auto simp: actor_receive_def split: option.splits)
  note k = rpc_put_keys [OF put]
  then have sub: "keys (get_senders a) \<subseteq> keys (iterative_queries p)" "keys (put_senders a) \<subseteq> keys (put_queries p)"
    using assms(1) unfolding callers_served_def by blast+
  show ?thesis
  proof (cases result)
    case (Inl err)
    then have "a' = actor_log [(c, SentPut (Inl err))] (a\<lparr>act_rpc := p\<rparr>)" using assms(2) ActorPut put by (simp add: actor_receive_def)
    then show ?thesis using sub by (simp add: callers_served_def)
  next
    case (Inr u)
    then have "a' = a\<lparr>act_rpc := p, put_senders := push_sender (put_target request) c (put_senders a)\<rparr>"
      using assms(2) ActorPut put by (simp add: actor_receive_def)
    then show ?thesis using sub k Inr by (simp add: callers_served_def)
  qed
next
  case (ActorGet request s)
  then show ?thesis using assms
    by (auto simp: actor_receive_def callers_served_def Let_def case_prod_beta split: option.splits)
qed (use assms in \<open>auto simp: actor_receive_def callers_served_def Let_def\<close>)

lemma report_get_keys: "keys (get_senders (fold report_get ds a)) = keys (get_senders a) - go_id ` set ds \<and>
    put_senders (fold report_get ds a) = put_senders a \<and> act_rpc (fold report_get ds a) = act_rpc a"
proof (induction ds arbitrary: a)
  case (Cons d ds)
  have "keys (get_senders (report_get d a)) = keys (get_senders a) - {go_id d}" "put_senders (report_get d a) = put_senders a"
    "act_rpc (report_get d a) = act_rpc a"
    by (auto simp: report_get_def map_of_keys split: option.split)
  then show ?case using Cons.IH [of "report_get d a"] by auto
qed simp

lemma report_put_keys: "keys (put_senders (fold report_put ds a)) = keys (put_senders a) - fst ` set ds \<and>
    get_senders (fold report_put ds a) = get_senders a \<and> act_rpc (fold report_put ds a) = act_rpc a"
proof (induction ds arbitrary: a)
  case (Cons d ds)
  have "keys (put_senders (report_put d a)) = keys (put_senders a) - {fst d}" "get_senders (report_put d a) = get_senders a"
    "act_rpc (report_put d a) = act_rpc a"
    by (auto simp: report_put_def map_of_keys split: option.split)
  then show ?case using Cons.IH [of "report_put d a"] by auto
qed simp

lemma report_response_keeps:
  "get_senders (report_response found a) = get_senders a" "put_senders (report_response found a) = put_senders a"
  "act_rpc (report_response found a) = act_rpc a"
  by (simp_all add: report_response_def split: option.split prod.split)

lemma actor_step_served:
  assumes "callers_served a" "actor_step env now received_at input msg a = Some a'"
  shows "callers_served a'"
proof -
  obtain a1 where a1: "callers_served a1" "(case msg of Some m \<Rightarrow> actor_receive env now m a | None \<Rightarrow> Some a) = Some a1"
  proof (cases msg)
    case (Some m)
    then obtain a1 where "actor_receive env now m a = Some a1" using assms(2) by (auto simp: actor_step_def split: option.splits)
    with that actor_receive_served [OF assms(1) this] Some show ?thesis by simp
  qed (use that assms(1) in simp)
  then obtain report p where t: "rpc_tick env now received_at input (act_rpc a1) = Some (report, p)"
    "a' = actor_report report (a1\<lparr>act_rpc := p\<rparr>)"
    using assms(2) by (auto simp: actor_step_def split: option.splits)
  show ?thesis using a1(1) rpc_tick_keys [OF t(1)]
    by (auto simp: t(2) actor_report_def callers_served_def report_get_keys report_put_keys report_response_keeps)
qed

inductive actor_reachable :: "('pc, 'ic, 'im, 'mu, 'q, 'be) rpc_env \<Rightarrow> ('ic, 'im, 'mu, 'q) actor \<Rightarrow> bool" for env where
  actor_start: "rpc_new env (bind :: sock_addr \<Rightarrow> unit + sock_addr) resolve now r cfg = Inr p \<Longrightarrow> actor_reachable env (actor_new p)"
| actor_round: "actor_reachable env a \<Longrightarrow> actor_step env now received_at input msg a = Some a' \<Longrightarrow> actor_reachable env a'"

lemma actor_reachable_served: "actor_reachable env a \<Longrightarrow> callers_served a"
proof (induction rule: actor_reachable.induct)
  case actor_start
  then show ?case by (simp add: callers_served_def actor_new_def)
next
  case actor_round
  then show ?case by (blast intro: actor_step_served)
qed

text \<open>C11: no caller is forgotten: in every reachable state of the actor, whoever waits for the answers of a get waits for
  a query that is running, and whoever waits for the result of a put waits for a put query that is there. A query
  leaves the node only in a round that hands its result to all its callers.\<close>

theorem no_caller_forgotten:
  assumes "actor_reachable env a"
  shows "keys (get_senders a) \<subseteq> keys (iterative_queries (act_rpc a)) \<and>
    keys (put_senders a) \<subseteq> keys (put_queries (act_rpc a))"
  using actor_reachable_served [OF assms] by (simp add: callers_served_def)

definition wit_rpcb where
  "wit_rpcb = wit_rpc0\<lparr>bootstrap := [wit_address]\<rparr>"

lemma wit_rpcb_new:
  "rpc_new wit_env (\<lambda>a. Inr a :: unit + sock_addr) (\<lambda>_. Inl ()) 0 (\<lambda>_. 0) (config_default\<lparr>cfg_bootstrap := Some [wit_address]\<rparr>) = Inr wit_rpcb"
  by (simp add: wit_rpcb_def wit_rpc0_def rpc_new_def socket_new_def socket_bind_def config_default_def Let_def case_prod_beta)

lemma wit_rpcb_get:
  "rpc_get wit_env 10 (GetGetValue \<lparr>gvq_target = wit_target, gvq_seq = None, gvq_salt = None\<rparr>) None wit_rpcb =
     (None, wit_rpcb\<lparr>socket := fst (snd wit_visit), rpc_rng := snd (snd wit_visit), cached_iterative_queries := (1000, []),
        iterative_queries := [(wit_target, fst wit_visit)]\<rparr>)"
proof -
  have s: "query_start 10 wit_visit = wit_visit"
    by (simp add: query_start_def visit_closest_def to_visit_alt wit_visit_closest)
  show ?thesis
    by (simp add: wit_rpcb_def rpc_get_def rpc_id_def Let_def wit_rpc0_fields empty_table wit_visit_def [unfolded rpc_id_def, symmetric] s
      wit_env_def list_lru_def case_prod_beta)
qed

lemma wit_actor_round:
  "\<exists>a. actor_step wit_env 10 11 UdpError (Some (get_immutable_request wit_target 3)) (actor_new wit_rpcb) = Some a \<and>
     get_senders a = [(wit_target, [ImmutableSender 3])]"
proof -
  let ?p = "wit_rpcb\<lparr>socket := fst (snd wit_visit), rpc_rng := snd (snd wit_visit), cached_iterative_queries := (1000, []),
        iterative_queries := [(wit_target, fst wit_visit)]\<rparr>"
  have "query_tick 10 wit_visit = (False, wit_visit)"
    by (simp add: query_tick_def visit_closest_def to_visit_alt wit_visit_closest wit_visit_tids case_prod_beta Let_def
      socket_inflight_def inflight_contains_def wit_visit_socket elapsed_def const_facts)
  then have "query_tick 10 (fst wit_visit, fst (snd wit_visit), snd (snd wit_visit)) = (False, wit_visit)" by simp
  then have g: "tick_get_queries wit_env 10 ?p = ([], False, ?p)" by (simp add: tick_get_queries_def case_prod_beta Let_def)
  have u: "fst (rpc_handle_message wit_env 11 UdpError q) = None" for q
    by (simp add: rpc_handle_message_def socket_recv_from_none)
  have "tick_put_queries 10 ?p = []" by (simp add: tick_put_queries_def wit_rpcb_def wit_rpc0_fields List.map_filter_def)
  then obtain p' where "rpc_tick wit_env 10 11 UdpError ?p =
      Some (\<lparr>done_get_queries = [], done_put_queries = [], new_query_response = None\<rparr>, p')"
    by (simp add: rpc_tick_def g cleanup_done_queries_def case_prod_beta Let_def u)
  then show ?thesis
    by (simp add: actor_step_def actor_receive_def get_immutable_request_def wit_rpcb_get actor_new_def actor_report_def
      report_response_def push_sender_def)
qed

theorem no_caller_forgotten_witness:
  "\<exists>a. get_senders a = [(wit_target, [ImmutableSender 3])] \<and> actor_reachable wit_env a \<and>
     wit_target \<in> keys (iterative_queries (act_rpc a))"
proof -
  obtain a where a: "actor_step wit_env 10 11 UdpError (Some (get_immutable_request wit_target 3)) (actor_new wit_rpcb) = Some a"
    "get_senders a = [(wit_target, [ImmutableSender 3])]" using wit_actor_round by blast
  have r: "actor_reachable wit_env a" by (rule actor_round [OF actor_start [OF wit_rpcb_new] a(1)])
  then show ?thesis using no_caller_forgotten [OF r] a(2) by (auto simp: keys_def)
qed

section \<open>A remote error code makes a caller panic\<close>

text \<open>C38: a node that answers an announcement with the error code 301 or 302, which are meant for mutable
  items, makes \<open>announce_peer\<close> panic when no other node acknowledges: the put query reports a concurrency
  error for any kind of put, which \<open>announce_peer\<close> and \<open>put_immutable\<close> declare unreachable.\<close>

theorem announce_peer_panics:
  assumes "put_start now ns (put_query_new info_hash (announce_peer_request info_hash port) None, s, r) = Some (Inr (), q1, s1, r1)"
    and "list_ex (\<lambda>n. node_token n \<noteq> None) ns" "put_is_done now' s2 q1" "err_code e = 301 \<or> err_code e = 302"
  shows "\<exists>err. poll_completion now' s2 (put_on_error e q1) = Inl err \<and> unconflicted_result (Inl err) = None"
proof -
  note eff = put_sends_effect [OF put_start_Ok(2) [OF assms(1)]]
  let ?q0 = "put_query_new info_hash (announce_peer_request info_hash port) None"
  have q1: "q1 = ?q0\<lparr>pq_inflight_requests := pq_inflight_requests q1\<rparr>" using eff by blast
  have f: "pq_errors q1 = []" "pq_stored_at q1 = 0" "pq_request q1 = announce_peer_request info_hash port"
    by (subst q1, simp add: put_query_new_def)+
  have "put_started q1" using eff assms(2)
    by (auto simp: put_started_def put_query_new_def list_ex_iff filter_empty_conv)
  then have st: "put_started (put_on_error e q1)" "put_is_done now' s2 (put_on_error e q1)"
    using assms(3) by (simp_all add: put_started_def put_is_done_def put_on_error_def)
  have er: "pq_errors (put_on_error e q1) = [(1, e)]" "pq_stored_at (put_on_error e q1) = 0"
    "pq_request (put_on_error e q1) = announce_peer_request info_hash port"
    by (simp_all add: put_on_error_def f)
  have "majority_rejected (put_on_error e q1) = None"
    by (cases port) (simp_all add: majority_rejected_def er announce_peer_request_def)
  then show ?thesis using st assms(4) er
    by (auto simp: poll_completion_def most_common_error_def unconflicted_result_def put_result_def)
qed

definition wit_announce_started :: "put_query \<times> krpc_socket \<times> rng" where
  "wit_announce_started = snd (the (put_start 20 [wit_token_node]
     (put_query_new (id_of []) (announce_peer_request (id_of []) None) None, wit_socket, \<lambda>_. 7)))"

theorem announce_peer_panics_witness:
  "\<exists>err. poll_completion (20 + DEFAULT_REQUEST_TIMEOUT) (fst (snd wit_announce_started))
      (put_on_error (wit_error 301) (fst wit_announce_started)) = Inl err \<and> unconflicted_result (Inl err) = None"
proof (rule announce_peer_panics)
  show s: "put_start 20 [wit_token_node] (put_query_new (id_of []) (announce_peer_request (id_of []) None) None, wit_socket, \<lambda>_. 7) =
      Some (Inr (), fst wit_announce_started, fst (snd wit_announce_started), snd (snd wit_announce_started))"
    by (simp add: wit_announce_started_def put_start_def put_started_def put_query_new_def)
  show "list_ex (\<lambda>n. node_token n \<noteq> None) [wit_token_node]" by (simp add: wit_token_node_def node_new_with_token_def)
  have "sent_by 20 wit_socket" by (simp add: sent_by_def wit_socket_def)
  then have "sent_by 20 (fst (snd wit_announce_started)) \<and>
      timeout (inflight (fst (snd wit_announce_started))) = timeout (inflight wit_socket)"
    using put_sends_effect [OF put_start_Ok(2) [OF s]] by blast
  then have "\<not> socket_inflight (20 + DEFAULT_REQUEST_TIMEOUT) (fst (snd wit_announce_started)) tid" for tid
    by (intro sent_by_timed_out [of 20 "fst (snd wit_announce_started)"]) (simp_all add: wit_socket_def)
  then show "put_is_done (20 + DEFAULT_REQUEST_TIMEOUT) (fst (snd wit_announce_started)) (fst wit_announce_started)"
    by (simp add: put_is_done_def list_all_iff)
qed (simp add: wit_error_def)

end
