(* ===== verification/Async_Dht.thy ===== *)
theory Async_Dht
  imports Dht_Actor
begin

text \<open>
  The two interfaces of the actor: the asynchronous one of \<^verbatim>\<open>src/src/async_dht.rs\<close> and the rest of the blocking one of \<^verbatim>\<open>src/src/dht.rs\<close>. Each
  function sends one message with new channels and turns what it receives into its result; a receiver sees the values sent on its
  channel in order. A result that the code declares impossible is \<open>None\<close>, a panic. The theorem shows that the asynchronous interface sees what the
  blocking one sees. What the actor sends its callers is the subject of \<open>Delivery\<close>.
\<close>

section \<open>Requests and results\<close>

definition info_request :: "channel \<Rightarrow> actor_message" where
  "info_request c = ActorInfo c"

definition to_bootstrap_request :: "channel \<Rightarrow> actor_message" where
  "to_bootstrap_request c = ActorToBootstrap c"

definition put_inner :: "put_request_specific \<Rightarrow> node list option \<Rightarrow> channel \<Rightarrow> actor_message" where
  "put_inner request extra_nodes c = ActorPut request c extra_nodes"

definition async_info :: "channel \<Rightarrow> actor_message" where
  "async_info c = ActorInfo c"

definition async_to_bootstrap :: "channel \<Rightarrow> actor_message" where
  "async_to_bootstrap c = ActorToBootstrap c"

definition async_find_node :: "id \<Rightarrow> channel \<Rightarrow> actor_message" where
  "async_find_node target c = ActorGet (GetFindNode \<lparr>fnq_target = target\<rparr>) (ClosestNodesSender c)"

definition async_get_peers :: "id \<Rightarrow> channel \<Rightarrow> actor_message" where
  "async_get_peers info_hash c = ActorGet (GetGetPeers \<lparr>gpq_info_hash = info_hash\<rparr>) (PeersSender c)"

definition async_get_immutable :: "id \<Rightarrow> channel \<Rightarrow> actor_message" where
  "async_get_immutable target c =
     ActorGet (GetGetValue \<lparr>gvq_target = target, gvq_seq = None, gvq_salt = None\<rparr>) (ImmutableSender c)"

definition async_get_mutable :: "crypto \<Rightarrow> bytes \<Rightarrow> bytes option \<Rightarrow> i64 option \<Rightarrow> channel \<Rightarrow> channel \<Rightarrow> actor_message" where
  "async_get_mutable cr public_key salt more_recent_than items outcome =
     get_mutable_detailed_request cr public_key salt more_recent_than items outcome"

definition async_get_closest_nodes :: "id \<Rightarrow> channel \<Rightarrow> actor_message" where
  "async_get_closest_nodes target c =
     ActorGet (GetGetValue \<lparr>gvq_target = target, gvq_seq = None, gvq_salt = None\<rparr>) (ClosestNodesSender c)"

definition async_put_inner :: "put_request_specific \<Rightarrow> node list option \<Rightarrow> channel \<Rightarrow> actor_message" where
  "async_put_inner request extra_nodes c = ActorPut request c extra_nodes"

definition async_announce_peer :: "id \<Rightarrow> u16 option \<Rightarrow> channel \<Rightarrow> actor_message" where
  "async_announce_peer info_hash port c =
     (let (port', implied) = (case port of Some p \<Rightarrow> (p, None) | None \<Rightarrow> (0, Some True))
      in async_put_inner (AnnouncePeer \<lparr>ap_info_hash = info_hash, ap_port = port', ap_implied_port = implied\<rparr>) None c)"

definition async_put_immutable :: "crypto \<Rightarrow> bytes \<Rightarrow> channel \<Rightarrow> actor_message" where
  "async_put_immutable cr v c = async_put_inner (PutImmutable \<lparr>pi_target = hash_immutable cr v, pi_v = v\<rparr>) None c"

definition async_put_mutable :: "mutable_item \<Rightarrow> i64 option \<Rightarrow> channel \<Rightarrow> actor_message" where
  "async_put_mutable item cas c = async_put_inner (PutMutable (put_mutable_args_from item cas)) None c"

datatype put_mutable_error = PutMutableQuery put_query_error | PutMutableConcurrency concurrency_error

definition put_mutable_error_of :: "put_error \<Rightarrow> put_mutable_error" where
  "put_mutable_error_of e = (case e of PutErrorQuery q \<Rightarrow> PutMutableQuery q | PutErrorConcurrency c \<Rightarrow> PutMutableConcurrency c)"

text \<open>What a receiver sees of its channel.\<close>

definition received :: "channel \<Rightarrow> ('ic, 'im, 'mu, 'q) actor \<Rightarrow> sent list" where
  "received c a = map snd (filter (\<lambda>(c', _). c' = c) (sent_log a))"

text \<open>The results: the first value on the channel. \<open>recv().expect(...)\<close> panics when the channel is closed and empty; the
  asynchronous \<open>announce_peer\<close> and \<open>put_immutable\<close> also panic on a concurrency error.\<close>

definition recv_nodes :: "sent list \<Rightarrow> node list option" where
  "recv_nodes xs = (case xs of SentNodes ns # _ \<Rightarrow> Some ns | _ \<Rightarrow> None)"

definition recv_immutable :: "sent list \<Rightarrow> bytes option" where
  "recv_immutable xs = (case xs of SentImmutable v # _ \<Rightarrow> Some v | _ \<Rightarrow> None)"

definition recv_put :: "sent list \<Rightarrow> (put_error + put_outcome) option" where
  "recv_put xs = (case xs of SentPut r # _ \<Rightarrow> Some r | _ \<Rightarrow> None)"

definition recv_outcome :: "sent list \<Rightarrow> get_mutable_outcome option" where
  "recv_outcome xs = (case xs of SentOutcome g # _ \<Rightarrow> Some g | _ \<Rightarrow> None)"

definition async_target_result :: "put_error + put_outcome \<Rightarrow> (put_query_error + id) option" where
  "async_target_result r =
     (case r of
        Inr outcome \<Rightarrow> Some (Inr (po_target outcome))
      | Inl (PutErrorQuery e) \<Rightarrow> Some (Inl e)
      | Inl (PutErrorConcurrency _) \<Rightarrow> None)"

definition async_put_mutable_result :: "put_error + put_outcome \<Rightarrow> put_mutable_error + put_outcome" where
  "async_put_mutable_result r = map_err put_mutable_error_of r"

definition put_mutable_result :: "put_error + put_outcome \<Rightarrow> put_mutable_error + id" where
  "put_mutable_result r = map_err put_mutable_error_of (put_result r)"

definition mutable_items :: "sent list \<Rightarrow> mutable_item list" where
  "mutable_items xs = List.map_filter (\<lambda>x. case x of SentMutable i \<Rightarrow> Some i | _ \<Rightarrow> None) xs"

definition async_get_mutable_most_recent :: "sent list \<Rightarrow> mutable_item option" where
  "async_get_mutable_most_recent xs = foldl most_recent_mutable_item None (mutable_items xs)"

text \<open>\<open>bootstrapped\<close> asks for the own id, then looks it up.\<close>

definition bootstrapped_lookup :: "info \<Rightarrow> channel \<Rightarrow> actor_message" where
  "bootstrapped_lookup own c = find_node_request (info_id own) c"

definition async_bootstrapped_lookup :: "info \<Rightarrow> channel \<Rightarrow> actor_message" where
  "async_bootstrapped_lookup own c = async_find_node (info_id own) c"

definition bootstrapped_result :: "node list \<Rightarrow> bool" where
  "bootstrapped_result nodes \<longleftrightarrow> nodes \<noteq> []"

section \<open>Rounds of the actor\<close>

type_synonym round = "instant \<times> instant \<times> udp_result \<times> actor_message option"

fun actor_rounds ::
  "('pc, 'ic, 'im, 'mu, 'q, 'be) rpc_env \<Rightarrow> round list \<Rightarrow> ('ic, 'im, 'mu, 'q) actor \<Rightarrow> ('ic, 'im, 'mu, 'q) actor option" where
  "actor_rounds env [] a = Some a"
| "actor_rounds env ((now, received_at, input, msg) # rounds) a =
     (case actor_step env now received_at input msg a of
        Some a' \<Rightarrow> actor_rounds env rounds a'
      | None \<Rightarrow> None)"

section \<open>The two interfaces agree\<close>

text \<open>A call of the public interface, with the channels it makes.\<close>

datatype api_call =
    ApiInfo channel
  | ApiToBootstrap channel
  | ApiFindNode id channel
  | ApiGetPeers id channel
  | ApiAnnouncePeer id "u16 option" channel
  | ApiGetImmutable id channel
  | ApiPutImmutable bytes channel
  | ApiGetMutable bytes "bytes option" "i64 option" channel
  | ApiGetMutableDetailed bytes "bytes option" "i64 option" channel channel
  | ApiPutMutable mutable_item "i64 option" channel
  | ApiGetClosestNodes id channel
  | ApiPut put_request_specific "node list option" channel

text \<open>The message each interface sends for it. The asynchronous \<open>get_mutable\<close> makes an outcome channel \<open>oc c\<close> that nobody reads.\<close>

fun blocking_message :: "crypto \<Rightarrow> api_call \<Rightarrow> actor_message" where
  "blocking_message cr (ApiInfo c) = info_request c"
| "blocking_message cr (ApiToBootstrap c) = to_bootstrap_request c"
| "blocking_message cr (ApiFindNode t c) = find_node_request t c"
| "blocking_message cr (ApiGetPeers t c) = get_peers_request t c"
| "blocking_message cr (ApiAnnouncePeer t port c) = put_inner (announce_peer_request t port) None c"
| "blocking_message cr (ApiGetImmutable t c) = get_immutable_request t c"
| "blocking_message cr (ApiPutImmutable v c) = put_inner (put_immutable_request cr v) None c"
| "blocking_message cr (ApiGetMutable key salt seq c) = get_mutable_request cr key salt seq c"
| "blocking_message cr (ApiGetMutableDetailed key salt seq c c') = get_mutable_detailed_request cr key salt seq c c'"
| "blocking_message cr (ApiPutMutable item cas c) = put_inner (put_mutable_request item cas) None c"
| "blocking_message cr (ApiGetClosestNodes t c) = get_closest_nodes_request t c"
| "blocking_message cr (ApiPut request extra c) = put_inner request extra c"

fun async_message :: "crypto \<Rightarrow> (channel \<Rightarrow> channel) \<Rightarrow> api_call \<Rightarrow> actor_message" where
  "async_message cr oc (ApiInfo c) = async_info c"
| "async_message cr oc (ApiToBootstrap c) = async_to_bootstrap c"
| "async_message cr oc (ApiFindNode t c) = async_find_node t c"
| "async_message cr oc (ApiGetPeers t c) = async_get_peers t c"
| "async_message cr oc (ApiAnnouncePeer t port c) = async_announce_peer t port c"
| "async_message cr oc (ApiGetImmutable t c) = async_get_immutable t c"
| "async_message cr oc (ApiPutImmutable v c) = async_put_immutable cr v c"
| "async_message cr oc (ApiGetMutable key salt seq c) = async_get_mutable cr key salt seq c (oc c)"
| "async_message cr oc (ApiGetMutableDetailed key salt seq c c') = get_mutable_detailed_request cr key salt seq c c'"
| "async_message cr oc (ApiPutMutable item cas c) = async_put_mutable item cas c"
| "async_message cr oc (ApiGetClosestNodes t c) = async_get_closest_nodes t c"
| "async_message cr oc (ApiPut request extra c) = async_put_inner request extra c"

fun redirect_sender :: "(channel \<Rightarrow> channel) \<Rightarrow> response_sender \<Rightarrow> response_sender" where
  "redirect_sender oc (MutableSender c) = MutableDetailedSender c (oc c)"
| "redirect_sender oc s = s"

fun redirect :: "(channel \<Rightarrow> channel) \<Rightarrow> actor_message \<Rightarrow> actor_message" where
  "redirect oc (ActorGet request s) = ActorGet request (redirect_sender oc s)"
| "redirect oc m = m"

lemma async_message_redirects: "async_message cr oc call = redirect oc (blocking_message cr call)"
  by (cases call)
    (auto simp: info_request_def async_info_def to_bootstrap_request_def async_to_bootstrap_def find_node_request_def
      async_find_node_def get_peers_request_def async_get_peers_def put_inner_def announce_peer_request_def async_announce_peer_def
      async_put_inner_def get_immutable_request_def async_get_immutable_def put_immutable_request_def async_put_immutable_def
      get_mutable_request_def async_get_mutable_def get_mutable_detailed_request_def put_mutable_request_def async_put_mutable_def
      get_closest_nodes_request_def async_get_closest_nodes_def Let_def split: option.split)

text \<open>The relation between the two actors: the same node, the same waiting callers up to the outcome channels, the same values sent on
  every other channel.\<close>

definition map_senders :: "('s \<Rightarrow> 't) \<Rightarrow> (id \<times> 's list) list \<Rightarrow> (id \<times> 't list) list" where
  "map_senders f xs = map (\<lambda>(k, ss). (k, map f ss)) xs"

definition seen :: "(channel \<Rightarrow> channel) \<Rightarrow> (channel \<times> sent) list \<Rightarrow> (channel \<times> sent) list" where
  "seen oc out = filter (\<lambda>(c, _). c \<notin> range oc) out"

definition async_rel :: "(channel \<Rightarrow> channel) \<Rightarrow> ('ic, 'im, 'mu, 'q) actor \<Rightarrow> ('ic, 'im, 'mu, 'q) actor \<Rightarrow> bool" where
  "async_rel oc a b \<longleftrightarrow> act_rpc b = act_rpc a \<and> put_senders b = put_senders a \<and>
     get_senders b = map_senders (redirect_sender oc) (get_senders a) \<and> seen oc (sent_log b) = seen oc (sent_log a)"

lemma map_of_map_senders [simp]: "map_of (map_senders f xs) k = map_option (map f) (map_of xs k)"
  by (simp add: map_senders_def map_of_map)

lemma map_senders_update [simp]: "map_senders f (AList.update k ss xs) = AList.update k (map f ss) (map_senders f xs)"
  by (induction xs) (auto simp: map_senders_def)

lemma map_senders_delete [simp]: "map_senders f (AList.delete k xs) = AList.delete k (map_senders f xs)"
  by (induction xs) (auto simp: map_senders_def AList.delete_eq)

lemma push_sender_map [simp]: "push_sender k (f s) (map_senders f xs) = map_senders f (push_sender k s xs)"
  by (auto simp: push_sender_def split: option.split)

lemma seen_simps [simp]: "seen oc [] = []" "seen oc (out @ out') = seen oc out @ seen oc out'"
  "seen oc (concat (map f xs)) = concat (map (\<lambda>x. seen oc (f x)) xs)"
  by (induction xs) (auto simp: seen_def)

lemma redirect_sends [simp]:
  "seen oc (actor_send (redirect_sender oc s) r) = seen oc (actor_send s r)"
  "seen oc (get_finished d (redirect_sender oc s)) = seen oc (get_finished d s)"
  by (cases s; cases r; auto simp: actor_send_def seen_def) (cases s; auto simp: get_finished_def seen_def)

lemma async_rel_log: "async_rel oc a b \<Longrightarrow> seen oc out' = seen oc out \<Longrightarrow> async_rel oc (actor_log out a) (actor_log out' b)"
  by (simp add: async_rel_def actor_log_def)

lemma async_rel_receive:
  assumes "async_rel oc a b"
  shows "rel_option (async_rel oc) (actor_receive env now m a) (actor_receive env now (redirect oc m) b)"
  using assms
  by (cases m) (auto simp: actor_receive_def Let_def async_rel_def actor_log_def o_def split: option.split sum.split prod.split)

lemma async_rel_fold:
  "async_rel oc a b \<Longrightarrow> (\<And>x a b. async_rel oc a b \<Longrightarrow> async_rel oc (f x a) (g x b)) \<Longrightarrow> async_rel oc (fold f xs a) (fold g xs b)"
  by (induction xs arbitrary: a b) auto

lemma async_rel_report:
  assumes "async_rel oc a b"
  shows "async_rel oc (actor_report report a) (actor_report report b)"
  unfolding actor_report_def
  by (intro async_rel_fold)
    (use assms in \<open>auto simp: async_rel_def report_response_def report_get_def report_put_def actor_log_def o_def split: option.split\<close>)

lemma async_rel_step:
  assumes "async_rel oc a b"
  shows "rel_option (async_rel oc) (actor_step env now received_at i msg a) (actor_step env now received_at i (map_option (redirect oc) msg) b)"
proof -
  let ?x = "case msg of Some m \<Rightarrow> actor_receive env now m a | None \<Rightarrow> Some a"
  let ?y = "case map_option (redirect oc) msg of Some m \<Rightarrow> actor_receive env now m b | None \<Rightarrow> Some b"
  have "rel_option (async_rel oc) ?x ?y" using assms async_rel_receive by (cases msg) auto
  then show ?thesis
  proof (cases rule: option.rel_cases)
    case None
    then show ?thesis by (simp only: actor_step_def option.case option.rel_inject)
  next
    case (Some a1 b1)
    have same: "act_rpc b1 = act_rpc a1" using Some(3) by (simp add: async_rel_def)
    have "async_rel oc (a1\<lparr>act_rpc := p\<rparr>) (b1\<lparr>act_rpc := p\<rparr>)" for p using Some(3) by (simp add: async_rel_def)
    then show ?thesis unfolding actor_step_def Some(1,2) same option.case by (auto intro: async_rel_report split: option.split)
  qed
qed

text \<open>What the two interfaces make of the same values: the results agree, but for the outcome that the asynchronous \<open>put_mutable\<close>
  returns in full.\<close>

lemma async_results_agree:
  "async_target_result r = unconflicted_result r"
  "map_sum id po_target (async_put_mutable_result r) = put_mutable_result r"
  "async_get_mutable_most_recent xs = get_mutable_most_recent (mutable_items xs)"
  by (auto simp: async_target_result_def unconflicted_result_def put_result_def async_put_mutable_result_def put_mutable_result_def
    map_err_def async_get_mutable_most_recent_def get_mutable_most_recent_def split: sum.split put_error.split)

text \<open>Rounds in which callers use one interface or the other.\<close>

type_synonym call_round = "instant \<times> instant \<times> udp_result \<times> api_call option"

definition blocking_rounds :: "crypto \<Rightarrow> call_round list \<Rightarrow> round list" where
  "blocking_rounds cr rounds = map (\<lambda>(now, received_at, input, call). (now, received_at, input, map_option (blocking_message cr) call)) rounds"

definition async_rounds :: "crypto \<Rightarrow> (channel \<Rightarrow> channel) \<Rightarrow> call_round list \<Rightarrow> round list" where
  "async_rounds cr oc rounds = map (\<lambda>(now, received_at, input, call). (now, received_at, input, map_option (async_message cr oc) call)) rounds"

lemma async_rel_rounds:
  "async_rel oc a b \<Longrightarrow>
     rel_option (async_rel oc) (actor_rounds env (blocking_rounds cr rounds) a) (actor_rounds env (async_rounds cr oc rounds) b)"
proof (induction rounds arbitrary: a b)
  case (Cons r rounds)
  obtain now received_at input call where r: "r = (now, received_at, input, call)" by (cases r)
  have "rel_option (async_rel oc) (actor_step env now received_at input (map_option (blocking_message cr) call) a)
      (actor_step env now received_at input (map_option (async_message cr oc) call) b)"
    using async_rel_step [OF Cons.prems, of env now received_at input "map_option (blocking_message cr) call"]
    by (cases call) (simp_all add: async_message_redirects)
  then show ?case
    by (cases rule: option.rel_cases) (auto simp: r blocking_rounds_def async_rounds_def Cons.IH [unfolded blocking_rounds_def async_rounds_def])
qed (simp add: blocking_rounds_def async_rounds_def)

lemma async_rel_received: "async_rel oc a b \<Longrightarrow> c \<notin> range oc \<Longrightarrow> received c b = received c a"
proof -
  have "received c a = map snd (filter (\<lambda>(c', _). c' = c) (seen oc (sent_log a)))" if "c \<notin> range oc" for a :: "('a, 'b, 'c, 'd) actor"
    using that by (auto simp: received_def seen_def intro!: arg_cong [where f = "map snd"] filter_cong)
  then show "async_rel oc a b \<Longrightarrow> c \<notin> range oc \<Longrightarrow> ?thesis" by (simp add: async_rel_def)
qed

text \<open>C13: the two interfaces agree: run the same calls over the same datagrams and clock readings, once through the asynchronous interface
  and once through the blocking one. Both actors panic or neither does; if neither does they hold the same node, and on every channel but the
  outcome channels that the asynchronous \<open>get_mutable\<close> makes and drops, the same values arrive in the same order.\<close>

theorem async_agrees_with_blocking:
  "(actor_rounds env (async_rounds cr oc rounds) (actor_new p) = None) = (actor_rounds env (blocking_rounds cr rounds) (actor_new p) = None) \<and>
   (\<forall>a b. actor_rounds env (blocking_rounds cr rounds) (actor_new p) = Some a \<longrightarrow>
      actor_rounds env (async_rounds cr oc rounds) (actor_new p) = Some b \<longrightarrow>
      act_rpc b = act_rpc a \<and> (\<forall>c. c \<notin> range oc \<longrightarrow> received c b = received c a))"
proof -
  have "async_rel oc (actor_new p) (actor_new p)" by (simp add: async_rel_def actor_new_def map_senders_def)
  from async_rel_rounds [OF this, of env cr rounds] show ?thesis
    by (cases rule: option.rel_cases) (auto simp: async_rel_received, auto simp: async_rel_def)
qed

definition wit_calls :: "call_round list" where
  "wit_calls = [(10, 11, UdpError, Some (ApiGetImmutable wit_target 3))]"

theorem async_agrees_with_blocking_witness:
  "\<exists>a b. actor_rounds wit_env (blocking_rounds (env_crypto wit_env) wit_calls) (actor_new wit_rpcb) = Some a \<and>
     actor_rounds wit_env (async_rounds (env_crypto wit_env) (\<lambda>c. c + 100) wit_calls) (actor_new wit_rpcb) = Some b \<and>
     act_rpc b = act_rpc a \<and> received 3 b = received 3 a"
proof -
  obtain a where "actor_step wit_env 10 11 UdpError (Some (get_immutable_request wit_target 3)) (actor_new wit_rpcb) = Some a"
    using wit_actor_round by blast
  then have a: "actor_rounds wit_env (blocking_rounds (env_crypto wit_env) wit_calls) (actor_new wit_rpcb) = Some a"
    by (simp add: wit_calls_def blocking_rounds_def)
  note agree = async_agrees_with_blocking [of wit_env "env_crypto wit_env" "\<lambda>c. c + 100" wit_calls "wit_rpcb"]
  obtain b where b: "actor_rounds wit_env (async_rounds (env_crypto wit_env) (\<lambda>c. c + 100) wit_calls) (actor_new wit_rpcb) = Some b"
    using agree [THEN conjunct1] a by (metis option.exhaust option.distinct(1))
  have "3 \<notin> range (\<lambda>c :: channel. c + 100)" by auto
  then show ?thesis using agree [THEN conjunct2] a b by blast
qed

end
