(* ===== verification/Delivery.thy ===== *)
theory Delivery
  imports Async_Dht
begin

text \<open>
  What the callers of the actor of \<^verbatim>\<open>src/src/dht.rs\<close> receive. Queries collect values only from answers that the tick of \<^verbatim>\<open>src/src/rpc.rs\<close> reports, so
  that every caller who waits for a query has been sent each value it collected, whenever the caller joined. A caller leaves only in a round
  that ends its query or refuses its put, and is then sent what closes its channel; questions about the node are answered in their round.
\<close>

section \<open>The values that a query has collected\<close>

definition collected :: "('ic, 'im, 'mu, 'q) rpc \<Rightarrow> id \<Rightarrow> query_response list" where
  "collected p t = (case map_of (iterative_queries p) t of Some q \<Rightarrow> iq_responses q | None \<Rightarrow> [])"

lemma in_collected: "resp \<in> set (collected p t) \<longleftrightarrow> (\<exists>q. map_of (iterative_queries p) t = Some q \<and> resp \<in> set (iq_responses q))"
  by (cases "map_of (iterative_queries p) t") (simp_all add: collected_def)

lemma collected_cong: "iterative_queries p' = iterative_queries p \<Longrightarrow> collected p' t = collected p t"
  by (simp add: collected_def)

lemma collected_update:
  "collected (p\<lparr>iterative_queries := AList.update k q (iterative_queries p)\<rparr>) t = (if t = k then iq_responses q else collected p t)"
  by (simp add: collected_def update_conv')

lemma visits_responses: "iq_responses (fst (fold (query_visit now) as st)) = iq_responses (fst st)"
proof -
  obtain q s r where st: "st = (q, s, r)" by (metis prod_cases3)
  obtain q' s' r' where f: "fold (query_visit now) as (q, s, r) = (q', s', r')" by (metis prod_cases3)
  show ?thesis using visits_effect [OF f] by (simp add: st f same_walk_def)
qed

lemma candidates_responses: "iq_responses (fold (add_candidate crc) ns q) = iq_responses q"
  by (induction ns arbitrary: q) (simp_all add: add_candidate_def)

lemma rpc_get_collected: "collected (snd (rpc_get env now request extra p)) t = collected p t"
proof (cases "map_of (iterative_queries p) (get_request_target request)")
  case None
  obtain q s r where "iq_responses q = []" "snd (rpc_get env now request extra p) = p\<lparr>socket := s, rpc_rng := r,
      cached_iterative_queries := snd (lru_get (env_cache env) (cached_iterative_queries p) (get_request_target request)),
      iterative_queries := AList.update (get_request_target request) q (iterative_queries p)\<rparr>"
    by (rule rpc_get_new [OF None, where Q = "\<lambda>q. iq_responses q = []"]) (auto simp: visits_responses candidates_responses query_new_def)
  then show ?thesis using None by (simp add: collected_def update_conv')
qed (simp add: rpc_get_def Let_def)

lemma rpc_put_start_collected:
  assumes "rpc_put_start env now request extra p = Some (result, p')"
  shows "collected p' t = collected p t"
proof -
  let ?p = "p\<lparr>cached_iterative_queries := snd (lru_get (env_cache env) (cached_iterative_queries p) (put_target request))\<rparr>"
  have "iterative_queries p' = iterative_queries p \<or> (\<exists>g. iterative_queries p' = iterative_queries (snd (rpc_get env now g None ?p)))"
    using assms by (auto simp: rpc_put_start_def Let_def case_prod_beta split: option.splits sum.splits if_splits)
  then show ?thesis
  proof (elim disjE exE)
    fix g assume "iterative_queries p' = iterative_queries (snd (rpc_get env now g None ?p))"
    then have "collected p' t = collected ?p t" using collected_cong rpc_get_collected by metis
    then show ?thesis by (simp add: collected_def)
  qed (rule collected_cong)
qed

lemma rpc_put_collected:
  assumes "rpc_put env now request extra p = Some (result, p')"
  shows "collected p' t = collected p t"
  using assms rpc_put_start_collected [of env now request extra p result p' t]
    rpc_put_start_collected [of env now request extra "p\<lparr>put_queries := AList.delete (put_target request) (put_queries p)\<rparr>" result p' t]
  by (auto simp: rpc_put_def collected_def split: put_decision.splits)

text \<open>A tick: the queries it ends leave, and one more value is collected only when the tick reports it.\<close>

lemma request_collected: "collected (rpc_handle_request env now a tid req p) t = collected p t"
proof (rule rpc_handle_request_cases [of p env now a req tid])
  fix p1 p2
  assume p1: "p1 = p \<or> (\<exists>n. p1 = p\<lparr>routing_table := fst (rt_add (env_crc env) now (routing_table p) n)\<rparr>)"
    and p2: "p2 = p1 \<or> (\<exists>s r. p2 = p1\<lparr>rpc_server := fst (snd (server_handle_request (env_crc env) (env_crypto env) (env_stores env) now
        (rpc_rng p1) (routing_table p1) a req (rpc_server p1))), rpc_rng := r, socket := s\<rparr>)"
    and p3: "rpc_handle_request env now a tid req p = p2 \<or> rpc_handle_request env now a tid req p = p2\<lparr>firewalled := False\<rparr> \<or>
     (\<exists>g r n. rpc_handle_request env now a tid req p =
        (snd (rpc_get env now g None (p2\<lparr>firewalled := False, rpc_rng := r\<rparr>)))\<lparr>routing_table := rt_new n\<rparr>)"
  have k: "iterative_queries p2 = iterative_queries p" using p1 p2 by auto
  have "collected ((snd (rpc_get env now g None (p2\<lparr>firewalled := False, rpc_rng := r\<rparr>)))\<lparr>routing_table := rt_new n\<rparr>) t = collected p t" for g r n
    using rpc_get_collected [of env now g None "p2\<lparr>firewalled := False, rpc_rng := r\<rparr>" t] by (simp add: collected_def k)
  then show ?thesis using p3 k by (auto simp: collected_def)
qed

lemma deliver_responses:
  "iq_responses (fst (query_deliver cr mt g q)) = iq_responses q @ (case snd (query_deliver cr mt g q) of Some resp \<Rightarrow> [resp] | None \<Rightarrow> [])"
  by (auto simp: query_deliver_def query_record_def query_add_response_def Let_def split: message_type.split response_specific.split sum.split)

lemma learn_responses: "iq_responses (query_learn env now a m q) = iq_responses q"
  by (auto simp: query_learn_def Let_def candidates_responses add_responding_node_def add_address_vote_def split: option.split)

lemma filed_map_of: "filed P kvs \<Longrightarrow> find_value Q kvs = Some (k, v) \<Longrightarrow> map_of kvs k = Some v"
  using find_value_Some [of Q kvs k v] by (auto simp: filed_def)

lemma response_collected:
  assumes "rpc_inv env p"
  shows "set (collected (snd (rpc_handle_response env now a m p)) t) \<subseteq>
    set (collected p t) \<union> {resp. fst (rpc_handle_response env now a m p) = Some (t, resp)}"
proof (cases "read_only m")
  case True
  then show ?thesis
    using filed_map_of [OF rpc_inv_D(3) [OF assms]]
    by (auto simp: rpc_handle_response_def collected_def update_conv' query_record_def split: option.split if_splits)
next
  case ro: False
  show ?thesis
  proof (cases "find_value (\<lambda>q. put_inflight q (transaction_id m)) (put_queries p)")
    case None
    show ?thesis
    proof (cases "find_value (\<lambda>q. query_is_inflight q (transaction_id m)) (iterative_queries p)")
      case (Some kq)
      obtain k q where kq: "kq = (k, q)" by fastforce
      have q: "query_target q = k" using filed_find [OF rpc_inv_D(3) [OF assms]] Some kq query_ok_target by blast
      have mem: "map_of (iterative_queries p) k = Some q"
        using filed_map_of [OF rpc_inv_D(3) [OF assms]] Some kq by blast
      show ?thesis using ro None Some kq q mem
        by (auto simp: rpc_handle_response_def Let_def case_prod_beta collected_def update_conv' deliver_responses learn_responses split: option.splits if_splits)
    qed (use ro None in \<open>simp add: rpc_handle_response_def\<close>)
  qed (use ro in \<open>auto simp: rpc_handle_response_def collected_def\<close>)
qed

lemma message_collected:
  assumes "rpc_inv env p"
  shows "set (collected (snd (rpc_handle_message env now input p)) t) \<subseteq>
    set (collected p t) \<union> {resp. fst (rpc_handle_message env now input p) = Some (t, resp)}"
proof -
  obtain received s where r: "socket_recv_from (env_bencode env) now input (socket p) = (received, s)" by fastforce
  let ?p = "p\<lparr>socket := s\<rparr>"
  have c: "collected ?p t = collected p t" by (simp add: collected_def)
  have "rpc_inv env ?p" using assms by simp
  from response_collected [OF this, of now _ _ t] request_collected [of env now _ _ _ ?p t] show ?thesis
    by (fastforce simp: rpc_handle_message_def r Let_def c split: option.splits message_type.splits)
qed

lemma pings_queries: "iterative_queries (ping_nodes now as p) = iterative_queries p"
  unfolding ping_nodes_def
  by (induction as arbitrary: p) (simp_all add: rpc_ping_def rpc_request_def case_prod_beta Let_def)

lemma switching_collected: "collected (try_switching_to_server_mode p) t = collected p t"
  by (simp add: try_switching_to_server_mode_def collected_def)

lemma ping_and_purge_collected: "collected (ping_and_purge now p) t = collected p t"
  by (rule collected_cong) (simp add: ping_and_purge_def Let_def case_prod_beta pings_queries purge_nodes_def)

lemma populate_collected: "collected (populate env now p) t = collected p t"
  using rpc_get_collected [of env now _ None "p\<lparr>last_table_refresh := now\<rparr>" t]
  by (simp add: populate_def Let_def) (simp add: collected_def)

lemma maintenance_collected: "collected (periodic_node_maintenance env now p) t = collected p t"
  by (simp add: periodic_node_maintenance_def Let_def switching_collected ping_and_purge_collected populate_collected)

lemma cleanup_get_collected:
  assumes "cleanup_done_get env now outcome (dp, p) = Some (dp', p')"
  shows "set (collected p' t) \<subseteq> set (collected p t)"
proof -
  have "iterative_queries p' = iterative_queries p \<or> iterative_queries p' = AList.delete (go_id outcome) (iterative_queries p)"
    using assms
    by (auto simp: cleanup_done_get_def Let_def update_address_votes_keys cache_iterative_query_keys split: option.splits if_splits sum.splits)
  then show ?thesis by (elim disjE) (simp_all add: collected_def delete_conv')
qed

lemma cleanup_collected:
  assumes "cleanup_done_queries env now dg dp p = Some (dp', p')"
  shows "set (collected p' t) \<subseteq> set (collected p t)"
proof -
  have "set (collected p1 t) \<subseteq> set (collected p t)" if "cleanup_done_gets env now dg (dp, p) = Some (dp', p1)" for p1
    using that
  proof (induction dg arbitrary: dp p)
    case (Cons d dg)
    then obtain dp2 p2 where "cleanup_done_get env now d (dp, p) = Some (dp2, p2)" "cleanup_done_gets env now dg (dp2, p2) = Some (dp', p1)"
      by (auto split: option.splits)
    then show ?case using cleanup_get_collected Cons.IH by blast
  qed simp
  moreover obtain p1 where "cleanup_done_gets env now dg (dp, p) = Some (dp', p1)" "iterative_queries p' = iterative_queries p1"
    using assms by (auto simp: cleanup_done_queries_def)
  ultimately show ?thesis using collected_cong [of p' p1 t] by simp
qed

lemma tick_get_queries_collected: "collected (snd (snd (tick_get_queries env now p))) t = collected p t"
proof -
  obtain qs os f s r where q: "tick_queries now (rpc_id p) (responders_based_dht_size_estimate p) (average_subnets env p)
      (iterative_queries p) False (socket p, rpc_rng p) = (qs, os, f, s, r)" by (metis prod_cases5)
  have "list_all2 (\<lambda>kq kq'. fst kq' = fst kq \<and> same_walk (snd kq) (snd kq')) (iterative_queries p) qs"
    using tick_queries_effect [OF q] by simp
  then have "rel_option same_walk (map_of (iterative_queries p) t) (map_of qs t)"
    by (induction rule: list_all2_induct) auto
  then show ?thesis
    by (cases rule: option.rel_cases) (simp_all add: tick_get_queries_def q collected_def same_walk_def)
qed

lemma tick_collected:
  assumes "env_ok env" "rpc_inv env p" "rpc_tick env now received_at input p = Some (report, p')"
  shows "set (collected p' t) \<subseteq> set (collected p t) \<union> {resp. new_query_response report = Some (t, resp)}"
proof -
  obtain dg f p1 where g: "tick_get_queries env now p = (dg, f, p1)" by (metis prod_cases3)
  obtain dp' p2 where c: "cleanup_done_queries env now dg (tick_put_queries now p) p1 = Some (dp', p2)"
    using assms(3) by (auto simp: rpc_tick_def g split: option.splits)
  have "rpc_inv env p1" using tick_get_queries_inv [OF assms(2), of now] by (simp add: g)
  then have "rpc_inv env (periodic_node_maintenance env now p2)"
    by (intro periodic_node_maintenance_inv assms(1) cleanup_done_queries_inv [OF assms(1) _ c])
  note m = message_collected [OF this, of received_at input t, unfolded maintenance_collected]
  have "collected p1 t = collected p t" using tick_get_queries_collected [of env now p t] by (simp add: g)
  moreover have "p' = snd (rpc_handle_message env received_at input (periodic_node_maintenance env now p2))"
    "new_query_response report = fst (rpc_handle_message env received_at input (periodic_node_maintenance env now p2))"
    using assms(3) by (auto simp: rpc_tick_def g c Let_def case_prod_beta)
  ultimately show ?thesis using m cleanup_collected [OF c, of t] by auto
qed

section \<open>What the actor sends\<close>

text \<open>The log only grows.\<close>

definition grows :: "('ic, 'im, 'mu, 'q) actor \<Rightarrow> ('ic, 'im, 'mu, 'q) actor \<Rightarrow> bool" where
  "grows a a' \<longleftrightarrow> (\<exists>out. sent_log a' = sent_log a @ out)"

lemma grows_trans: "grows a b \<Longrightarrow> grows b c \<Longrightarrow> grows a c"
  by (auto simp: grows_def)

lemma grows_log [simp]: "grows a (actor_log out a)" "grows a a"
  by (auto simp: grows_def actor_log_def)

definition new_log :: "('ic, 'im, 'mu, 'q) actor \<Rightarrow> ('ic, 'im, 'mu, 'q) actor \<Rightarrow> (channel \<times> sent) list" where
  "new_log a a' = drop (length (sent_log a)) (sent_log a')"

lemma new_log_mono: "grows a b \<Longrightarrow> grows b c \<Longrightarrow> set (new_log a b) \<subseteq> set (new_log a c) \<and> set (new_log b c) \<subseteq> set (new_log a c)"
  by (auto simp: grows_def new_log_def)

text \<open>Who waits for what.\<close>

definition waits_get :: "('ic, 'im, 'mu, 'q) actor \<Rightarrow> id \<Rightarrow> response_sender \<Rightarrow> bool" where
  "waits_get a t s \<longleftrightarrow> (\<exists>ss. map_of (get_senders a) t = Some ss \<and> s \<in> set ss)"

definition waits_put :: "('ic, 'im, 'mu, 'q) actor \<Rightarrow> id \<Rightarrow> channel \<Rightarrow> bool" where
  "waits_put a t c \<longleftrightarrow> (\<exists>cs. map_of (put_senders a) t = Some cs \<and> c \<in> set cs)"

text \<open>A value on the channel of a caller who asked for values of its kind.\<close>

fun delivered :: "response_sender \<Rightarrow> query_response \<Rightarrow> (channel \<times> sent) list \<Rightarrow> bool" where
  "delivered (PeersSender c) (PeersFound peers) out \<longleftrightarrow> (c, SentPeers peers) \<in> set out"
| "delivered (MutableSender c) (MutableFound item) out \<longleftrightarrow> (c, SentMutable item) \<in> set out"
| "delivered (MutableDetailedSender c _) (MutableFound item) out \<longleftrightarrow> (c, SentMutable item) \<in> set out"
| "delivered (ImmutableSender c) (ImmutableFound v) out \<longleftrightarrow> (c, SentImmutable v) \<in> set out"
| "delivered _ _ out \<longleftrightarrow> True"

lemma delivered_sent: "set (actor_send s resp) \<subseteq> set out \<Longrightarrow> delivered s resp out"
  by (cases s; cases resp) (auto simp: actor_send_def)

lemma delivered_mono: "delivered s resp out \<Longrightarrow> set out \<subseteq> set out' \<Longrightarrow> delivered s resp out'"
  by (cases s; cases resp) auto

text \<open>What closes the channel of a caller when its query ends; the channels of values just close.\<close>

fun closes :: "get_query_outcome \<Rightarrow> response_sender \<Rightarrow> (channel \<times> sent) list \<Rightarrow> bool" where
  "closes d (ClosestNodesSender c) out \<longleftrightarrow> (c, SentNodes (go_closest_nodes d)) \<in> set out"
| "closes d (MutableDetailedSender _ c) out \<longleftrightarrow>
     (c, SentOutcome (case go_mutable_outcome d of Some g \<Rightarrow> g | None \<Rightarrow> outcome_default)) \<in> set out"
| "closes d _ out \<longleftrightarrow> True"

lemma closes_finished: "s \<in> set ss \<Longrightarrow> set (concat (map (get_finished d) ss)) \<subseteq> set out \<Longrightarrow> closes d s out"
  by (cases s) (force simp: get_finished_def)+

lemma closes_mono: "closes d s out \<Longrightarrow> set out \<subseteq> set out' \<Longrightarrow> closes d s out'"
  by (cases s) auto

section \<open>The parts of a round\<close>

lemma report_gets_answer:
  "grows a (fold report_get ds a) \<and>
   (\<forall>t s. waits_get (fold report_get ds a) t s \<longrightarrow> waits_get a t s) \<and>
   (\<forall>t s. waits_get a t s \<longrightarrow> waits_get (fold report_get ds a) t s \<or>
      (\<exists>d \<in> set ds. go_id d = t \<and> closes d s (new_log a (fold report_get ds a))))"
proof (induction ds arbitrary: a)
  case (Cons d ds)
  let ?b = "report_get d a" and ?c = "fold report_get ds (report_get d a)"
  have g: "grows a ?b" by (auto simp: report_get_def grows_def actor_log_def split: option.split)
  have b: "waits_get ?b t s \<longleftrightarrow> waits_get a t s \<and> t \<noteq> go_id d" for t s
    by (auto simp: waits_get_def report_get_def delete_conv' split: option.split)
  note IH = Cons.IH [of ?b]
  have c: "set (new_log a ?b) \<subseteq> set (new_log a ?c)" "set (new_log ?b ?c) \<subseteq> set (new_log a ?c)" using new_log_mono [OF g] IH by blast+
  have "waits_get ?c t s \<or> (\<exists>d' \<in> set (d # ds). go_id d' = t \<and> closes d' s (new_log a ?c))" if w: "waits_get a t s" for t s
  proof (cases "t = go_id d")
    case True
    then obtain ss where ss: "map_of (get_senders a) (go_id d) = Some ss" "s \<in> set ss" using w by (auto simp: waits_get_def)
    then have "new_log a ?b = concat (map (get_finished d) ss)" by (simp add: report_get_def new_log_def)
    then have "closes d s (new_log a ?c)" using closes_finished [OF ss(2)] c(1) by simp
    then show ?thesis using True by auto
  next
    case False
    then have "waits_get ?c t s \<or> (\<exists>d' \<in> set ds. go_id d' = t \<and> closes d' s (new_log ?b ?c))" using IH w b by blast
    then show ?thesis using closes_mono c(2) by fastforce
  qed
  then show ?case using IH g b by (auto intro: grows_trans)
qed (simp add: new_log_def)

lemma report_puts_answer:
  "grows a (fold report_put ds a) \<and>
   (\<forall>t c. waits_put a t c \<longrightarrow> waits_put (fold report_put ds a) t c \<or>
      (\<exists>r. (t, r) \<in> set ds \<and> (c, SentPut r) \<in> set (new_log a (fold report_put ds a))))"
proof (induction ds arbitrary: a)
  case (Cons d ds)
  let ?b = "report_put d a" and ?c = "fold report_put ds (report_put d a)"
  have g: "grows a ?b" by (auto simp: report_put_def grows_def actor_log_def split: option.split)
  have b: "waits_put ?b t c \<longleftrightarrow> waits_put a t c \<and> t \<noteq> fst d" for t c
    by (auto simp: waits_put_def report_put_def delete_conv' split: option.split)
  note IH = Cons.IH [of ?b]
  have sub: "set (new_log a ?b) \<subseteq> set (new_log a ?c)" "set (new_log ?b ?c) \<subseteq> set (new_log a ?c)" using new_log_mono [OF g] IH by blast+
  have "waits_put ?c t c \<or> (\<exists>r. (t, r) \<in> set (d # ds) \<and> (c, SentPut r) \<in> set (new_log a ?c))" if w: "waits_put a t c" for t c
  proof (cases "t = fst d")
    case True
    then have "(c, SentPut (snd d)) \<in> set (new_log a ?b)" using w by (auto simp: waits_put_def report_put_def new_log_def)
    then have "(t, snd d) \<in> set (d # ds) \<and> (c, SentPut (snd d)) \<in> set (new_log a ?c)" using sub(1) True by auto
    then show ?thesis by blast
  next
    case False
    then have "waits_put ?c t c \<or> (\<exists>r. (t, r) \<in> set ds \<and> (c, SentPut r) \<in> set (new_log ?b ?c))" using IH w b by blast
    then show ?thesis using sub(2) by auto
  qed
  then show ?case using IH g by (auto intro: grows_trans)
qed (simp add: new_log_def)

lemma report_response_sends:
  "grows a (report_response found a)"
  "found = Some (t, resp) \<Longrightarrow> waits_get a t s \<Longrightarrow> delivered s resp (sent_log (report_response found a))"
  by (auto simp: report_response_def waits_get_def intro!: delivered_sent split: option.split prod.split)

lemma actor_report_sends:
  fixes a :: "('ic, 'im, 'mu, 'q) actor" and report :: rpc_tick_report
  defines "a' \<equiv> actor_report report a"
  shows "grows a a'" "waits_get a' t s \<Longrightarrow> waits_get a t s"
    "waits_get a t s \<Longrightarrow> waits_get a' t s \<or> (\<exists>d \<in> set (done_get_queries report). go_id d = t \<and> closes d s (new_log a a'))"
    "waits_put a t c \<Longrightarrow> waits_put a' t c \<or> (\<exists>r. (t, r) \<in> set (done_put_queries report) \<and> (c, SentPut r) \<in> set (new_log a a'))"
    "waits_get a t s \<Longrightarrow> new_query_response report = Some (t, resp) \<Longrightarrow> delivered s resp (sent_log a')"
proof -
  let ?b = "report_response (new_query_response report) a"
  let ?c = "fold report_get (done_get_queries report) ?b"
  have d: "a' = fold report_put (done_put_queries report) ?c" by (simp add: a'_def actor_report_def)
  have g: "grows a ?b" "grows ?b ?c" "grows ?c a'"
    unfolding d using report_response_sends(1) report_gets_answer report_puts_answer by blast+
  then show "grows a a'" by (blast intro: grows_trans)
  have sub: "set (new_log ?b ?c) \<subseteq> set (new_log a a')" "set (new_log ?c a') \<subseteq> set (new_log a a')"
    using new_log_mono [OF g(1), of ?c] new_log_mono [OF grows_trans [OF g(1,2)] g(3)] g(2) by blast+
  have keep: "waits_get ?b = waits_get a" "waits_put ?c = waits_put a" "waits_get a' = waits_get ?c"
    by (simp_all add: waits_get_def waits_put_def d report_response_keeps report_get_keys report_put_keys fun_eq_iff)
  note gets = report_gets_answer [of ?b "done_get_queries report", unfolded keep(1)]
  show "waits_get a' t s \<Longrightarrow> waits_get a t s" using gets by (simp add: keep(3))
  show "waits_get a t s \<Longrightarrow> waits_get a' t s \<or> (\<exists>d \<in> set (done_get_queries report). go_id d = t \<and> closes d s (new_log a a'))"
    using gets closes_mono [OF _ sub(1)] unfolding keep(3) by blast
  show "waits_put a t c \<Longrightarrow> waits_put a' t c \<or> (\<exists>r. (t, r) \<in> set (done_put_queries report) \<and> (c, SentPut r) \<in> set (new_log a a'))"
    using report_puts_answer [of ?c "done_put_queries report", folded d, unfolded keep(2)] sub(2) by blast
  have "grows ?b a'" using g(2,3) by (rule grows_trans)
  then show "waits_get a t s \<Longrightarrow> new_query_response report = Some (t, resp) \<Longrightarrow> delivered s resp (sent_log a')"
    using report_response_sends(2) [of "new_query_response report" t resp a s] by (auto simp: grows_def intro: delivered_mono)
qed

text \<open>Taking a message.\<close>

lemma map_of_push_sender:
  "map_of (push_sender k s xs) t =
     (if t = k then Some ((case map_of xs k of Some ss \<Rightarrow> ss | None \<Rightarrow> []) @ [s]) else map_of xs t)"
  by (simp add: push_sender_def update_conv')

definition joins :: "actor_message option \<Rightarrow> id \<Rightarrow> response_sender \<Rightarrow> bool" where
  "joins msg t s \<longleftrightarrow> (\<exists>request. msg = Some (ActorGet request s) \<and> t = get_request_target request)"

definition take_message ::
  "('pc, 'ic, 'im, 'mu, 'q, 'be) rpc_env \<Rightarrow> instant \<Rightarrow> actor_message option \<Rightarrow> ('ic, 'im, 'mu, 'q) actor \<Rightarrow> ('ic, 'im, 'mu, 'q) actor option" where
  "take_message env now msg a = (case msg of Some m \<Rightarrow> actor_receive env now m a | None \<Rightarrow> Some a)"

lemma actor_step_parts:
  assumes "actor_step env now received_at input msg a = Some a'"
  obtains a1 report where "take_message env now msg a = Some a1" "rpc_tick env now received_at input (act_rpc a1) = Some (report, act_rpc a')"
    "a' = actor_report report (a1\<lparr>act_rpc := act_rpc a'\<rparr>)"
proof -
  obtain a1 report p where p: "take_message env now msg a = Some a1" "rpc_tick env now received_at input (act_rpc a1) = Some (report, p)"
    "a' = actor_report report (a1\<lparr>act_rpc := p\<rparr>)"
    using assms by (auto simp: actor_step_def take_message_def split: option.splits)
  then have "act_rpc a' = p" by (simp add: actor_report_def report_get_keys report_put_keys report_response_keeps)
  then show thesis using that p by simp
qed

lemma receive_grows: "take_message env now msg a = Some a1 \<Longrightarrow> grows a a1"
  by (cases msg; cases "the msg")
    (auto simp: take_message_def actor_receive_def grows_def actor_log_def Let_def case_prod_beta split: option.splits sum.splits)

lemma receive_waits_get: "take_message env now msg a = Some a1 \<Longrightarrow> waits_get a1 t s \<longleftrightarrow> waits_get a t s \<or> joins msg t s"
  by (cases msg; cases "the msg")
    (auto simp: take_message_def joins_def actor_receive_def waits_get_def actor_log_def map_of_push_sender Let_def case_prod_beta
      split: option.splits sum.splits if_splits)

lemma receive_waits_put: "take_message env now msg a = Some a1 \<Longrightarrow> waits_put a t c \<Longrightarrow> waits_put a1 t c"
  by (cases msg; cases "the msg")
    (auto simp: take_message_def actor_receive_def waits_put_def actor_log_def map_of_push_sender Let_def case_prod_beta
      split: option.splits sum.splits)

lemma receive_put:
  assumes "take_message env now (Some (ActorPut request c extra)) a = Some a1"
  shows "waits_put a1 (put_target request) c \<or>
    (\<exists>err p. rpc_put env now request extra (act_rpc a) = Some (Inl err, p) \<and> (c, SentPut (Inl err)) \<in> set (new_log a a1))"
  using assms
  by (auto simp: take_message_def actor_receive_def waits_put_def actor_log_def new_log_def map_of_push_sender split: option.splits sum.splits)

lemma receive_collected:
  assumes "take_message env now msg a = Some a1"
  shows "collected (act_rpc a1) t = collected (act_rpc a) t"
proof (cases msg)
  case (Some m)
  then have r: "actor_receive env now m a = Some a1" using assms by (simp add: take_message_def)
  show ?thesis
  proof (cases m)
    case (ActorPut request c extra)
    then obtain result p where "rpc_put env now request extra (act_rpc a) = Some (result, p)" "act_rpc a1 = p"
      using r by (auto simp: actor_receive_def split: option.splits sum.splits)
    then show ?thesis using rpc_put_collected by blast
  next
    case (ActorGet request s)
    then have "act_rpc a1 = snd (rpc_get env now request None (act_rpc a))"
      using r by (auto simp: actor_receive_def Let_def case_prod_beta split: option.splits)
    then show ?thesis by (simp add: rpc_get_collected)
  qed (use r in \<open>auto simp: actor_receive_def Let_def collected_def\<close>)
qed (use assms in \<open>simp add: take_message_def\<close>)

text \<open>A question about the node is answered at once.\<close>

definition replied ::
  "('pc, 'ic, 'im, 'mu, 'q, 'be) rpc_env \<Rightarrow> instant \<Rightarrow> actor_message option \<Rightarrow> ('ic, 'im, 'mu, 'q) actor \<Rightarrow> (channel \<times> sent) list \<Rightarrow> bool" where
  "replied env now msg a out \<longleftrightarrow> (case msg of
       Some (ActorInfo c) \<Rightarrow> (c, SentInfo (rpc_info env (act_rpc a))) \<in> set out
     | Some (ActorToBootstrap c) \<Rightarrow> (c, SentBootstrap (to_bootstrap now (routing_table (act_rpc a)))) \<in> set out
     | Some (ActorCheck c) \<Rightarrow> (c, SentOk) \<in> set out
     | Some (ActorSeedRouting nodes c) \<Rightarrow> (c, SentUnit) \<in> set out
     | _ \<Rightarrow> True)"

lemma replied_mono: "replied env now msg a out \<Longrightarrow> set out \<subseteq> set out' \<Longrightarrow> replied env now msg a out'"
  by (auto simp: replied_def split: option.splits actor_message.splits)

lemma receive_replies: "take_message env now msg a = Some a1 \<Longrightarrow> replied env now msg a (new_log a a1)"
  by (auto simp: replied_def take_message_def actor_receive_def new_log_def Let_def split: option.splits actor_message.splits)

text \<open>Whoever joins a running query is sent the values it has collected.\<close>

lemma receive_joins:
  assumes "take_message env now msg a = Some a1" "joins msg t s" "resp \<in> set (collected (act_rpc a) t)"
  shows "delivered s resp (sent_log a1)"
proof (rule delivered_sent)
  obtain request where m: "msg = Some (ActorGet request s)" "t = get_request_target request" using assms(2) by (auto simp: joins_def)
  then obtain q where "map_of (iterative_queries (act_rpc a)) t = Some q" "resp \<in> set (iq_responses q)"
    using assms(3) by (auto simp: in_collected)
  then show "set (actor_send s resp) \<subseteq> set (sent_log a1)"
    using assms(1) m by (auto simp: take_message_def actor_receive_def rpc_get_def Let_def)
qed

lemma receive_inv:
  assumes "env_ok env" "rpc_inv env (act_rpc a)" "take_message env now msg a = Some a1"
  shows "rpc_inv env (act_rpc a1)"
proof (cases msg)
  case (Some m)
  then have r: "actor_receive env now m a = Some a1" using assms(3) by (simp add: take_message_def)
  have seed: "rpc_inv env (p\<lparr>routing_table := foldl (\<lambda>t n. fst (rt_add (env_crc env) now t n)) (routing_table p) nodes\<rparr>)"
    if "rpc_inv env p" for p and nodes :: "node list"
  proof -
    have "rt_inv (env_crc env) (foldl (\<lambda>t n. fst (rt_add (env_crc env) now t n)) t nodes)" if "rt_inv (env_crc env) t" for t
      using that by (induction nodes arbitrary: t) (simp_all add: rt_inv_add)
    then show ?thesis using that rpc_inv_table rpc_inv_D(1) by blast
  qed
  show ?thesis
    using r assms(2) rpc_get_inv [OF assms(1,2)] rpc_put_inv [OF assms(1,2)] seed [OF assms(2)]
    by (cases m) (auto simp: actor_receive_def Let_def case_prod_beta split: option.splits sum.splits)
qed (use assms in \<open>simp add: take_message_def\<close>)

section \<open>Every value reaches its callers\<close>

definition values_sent :: "('ic, 'im, 'mu, 'q) actor \<Rightarrow> bool" where
  "values_sent a \<longleftrightarrow> (\<forall>t s. waits_get a t s \<longrightarrow> (\<forall>resp \<in> set (collected (act_rpc a) t). delivered s resp (sent_log a)))"

text \<open>In a round, also the value that the tick reports.\<close>

lemma round_values:
  assumes "values_sent a" "take_message env now msg a = Some a1" "waits_get a1 t s"
    and "resp \<in> set (collected (act_rpc a) t) \<or> new_query_response report = Some (t, resp)"
  shows "delivered s resp (sent_log (actor_report report (a1\<lparr>act_rpc := p\<rparr>)))"
proof -
  let ?a1 = "a1\<lparr>act_rpc := p\<rparr>"
  have w: "waits_get ?a1 t s" using assms(3) by (simp add: waits_get_def)
  have "delivered s resp (sent_log a1)" if "resp \<in> set (collected (act_rpc a) t)"
  proof (cases "joins msg t s")
    case False
    then have "delivered s resp (sent_log a)" using assms(1,3) that receive_waits_get [OF assms(2)] by (auto simp: values_sent_def)
    then show ?thesis using receive_grows [OF assms(2)] by (auto simp: grows_def intro: delivered_mono)
  qed (use receive_joins [OF assms(2)] that in blast)
  then show ?thesis
    using assms(4) actor_report_sends(5) [OF w] actor_report_sends(1) [of ?a1 report] by (fastforce simp: grows_def intro: delivered_mono)
qed

lemma step_values:
  assumes "env_ok env" "rpc_inv env (act_rpc a)" "values_sent a" "actor_step env now received_at input msg a = Some a'"
  shows "rpc_inv env (act_rpc a') \<and> values_sent a'"
proof -
  obtain a1 report where p: "take_message env now msg a = Some a1" "rpc_tick env now received_at input (act_rpc a1) = Some (report, act_rpc a')"
    "a' = actor_report report (a1\<lparr>act_rpc := act_rpc a'\<rparr>)" by (rule actor_step_parts [OF assms(4)])
  have i: "rpc_inv env (act_rpc a1)" by (rule receive_inv [OF assms(1,2) p(1)])
  have w: "waits_get a1 t s" if "waits_get a' t s" for t s
    using actor_report_sends(2) [of report "a1\<lparr>act_rpc := act_rpc a'\<rparr>" t s, folded p(3)] that by (simp add: waits_get_def)
  have "values_sent a'" unfolding values_sent_def
  proof (intro allI impI ballI)
    fix t s resp
    assume a: "waits_get a' t s" "resp \<in> set (collected (act_rpc a') t)"
    have "resp \<in> set (collected (act_rpc a) t) \<or> new_query_response report = Some (t, resp)"
      using tick_collected [OF assms(1) i p(2), of t] a(2) receive_collected [OF p(1), of t] by auto
    then show "delivered s resp (sent_log a')"
      using round_values [OF assms(3) p(1) w [OF a(1)], of resp report "act_rpc a'", folded p(3)] by blast
  qed
  then show ?thesis using rpc_tick_inv [OF assms(1) i p(2)] by blast
qed

lemma actor_reachable_values:
  "actor_reachable env a \<Longrightarrow> env_ok env \<Longrightarrow> rpc_inv env (act_rpc a) \<and> values_sent a"
proof (induction rule: actor_reachable.induct)
  case (actor_start bind resolve now r cfg p)
  then show ?case using rpc_new_inv by (auto simp: actor_new_def values_sent_def waits_get_def)
next
  case actor_round
  then show ?case using step_values by blast
qed

text \<open>C14: every value reaches its callers. In every reachable state of the actor, a caller who waits for a query has been sent each value that the
  query has collected, whenever the caller joined it, if it asked for values of that kind: the peers, the immutable value, or the mutable item, on the channel it
  handed over.\<close>

theorem values_reach_callers:
  assumes "actor_reachable env a" "env_ok env" "waits_get a t s"
    and "map_of (iterative_queries (act_rpc a)) t = Some q" "resp \<in> set (iq_responses q)"
  shows "delivered s resp (sent_log a)"
  using actor_reachable_values [OF assms(1,2)] assms(3-5) by (auto simp: values_sent_def in_collected)

text \<open>C12: every caller is answered. Take any round of a running actor, with the tick of the node in it. Whoever waits for a get, and whoever joins in
  this round, has afterwards been sent every value of its kind that the query had collected or that the tick reports, and waits on unless the tick ends the query:
  then it has been sent, in this round, what closes its channel, the nodes or the outcome that the tick reports for its target. Whoever waits for a put waits on
  or has been sent the result that the tick reports; a put that the node refuses is told the error at once. Questions about the node are answered in
  the round that takes them.\<close>

theorem callers_answered:
  assumes "actor_reachable env a" "env_ok env" "actor_step env now received_at input msg a = Some a'"
  shows "\<exists>a1 report. take_message env now msg a = Some a1 \<and> rpc_tick env now received_at input (act_rpc a1) = Some (report, act_rpc a') \<and>
    (\<forall>t s. waits_get a t s \<or> joins msg t s \<longrightarrow>
      (\<forall>resp. resp \<in> set (collected (act_rpc a) t) \<or> new_query_response report = Some (t, resp) \<longrightarrow> delivered s resp (sent_log a')) \<and>
      (waits_get a' t s \<or> (\<exists>d \<in> set (done_get_queries report). go_id d = t \<and> closes d s (new_log a a')))) \<and>
    (\<forall>t c. waits_put a t c \<longrightarrow>
      waits_put a' t c \<or> (\<exists>r. (t, r) \<in> set (done_put_queries report) \<and> (c, SentPut r) \<in> set (new_log a a'))) \<and>
    (\<forall>request c extra. msg = Some (ActorPut request c extra) \<longrightarrow> waits_put a' (put_target request) c \<or>
      (\<exists>r. (put_target request, r) \<in> set (done_put_queries report) \<and> (c, SentPut r) \<in> set (new_log a a')) \<or>
      (\<exists>err p. rpc_put env now request extra (act_rpc a) = Some (Inl err, p) \<and> (c, SentPut (Inl err)) \<in> set (new_log a a'))) \<and>
    replied env now msg a (new_log a a')"
proof -
  obtain a1 report where p: "take_message env now msg a = Some a1" "rpc_tick env now received_at input (act_rpc a1) = Some (report, act_rpc a')"
    "a' = actor_report report (a1\<lparr>act_rpc := act_rpc a'\<rparr>)" by (rule actor_step_parts [OF assms(3)])
  let ?a1 = "a1\<lparr>act_rpc := act_rpc a'\<rparr>"
  have same: "waits_get ?a1 = waits_get a1" "waits_put ?a1 = waits_put a1" "grows a ?a1 = grows a a1" "new_log a ?a1 = new_log a a1"
    by (simp_all add: waits_get_def waits_put_def grows_def new_log_def fun_eq_iff)
  note report = actor_report_sends [where a = ?a1 and report = report, folded p(3), unfolded same]
  have sub: "set (new_log a a1) \<subseteq> set (new_log a a')" "set (new_log ?a1 a') \<subseteq> set (new_log a a')"
    using new_log_mono [of a ?a1 a'] receive_grows [OF p(1)] report(1) by (simp_all add: same)
  have told: "values_sent a" using actor_reachable_values [OF assms(1,2)] by blast
  have gets: "(\<forall>resp. resp \<in> set (collected (act_rpc a) t) \<or> new_query_response report = Some (t, resp) \<longrightarrow> delivered s resp (sent_log a')) \<and>
      (waits_get a' t s \<or> (\<exists>d \<in> set (done_get_queries report). go_id d = t \<and> closes d s (new_log a a')))"
    if "waits_get a t s \<or> joins msg t s" for t s
  proof -
    have w: "waits_get a1 t s" using that receive_waits_get [OF p(1)] by simp
    show ?thesis using round_values [OF told p(1) w, of _ report "act_rpc a'", folded p(3)] report(3) [OF w] closes_mono [OF _ sub(2)] by blast
  qed
  have puts: "waits_put a' t c \<or> (\<exists>r. (t, r) \<in> set (done_put_queries report) \<and> (c, SentPut r) \<in> set (new_log a a'))"
    if "waits_put a1 t c" for t c using report(4) [OF that] sub(2) by blast
  have put: "waits_put a' (put_target request) c \<or>
         (\<exists>r. (put_target request, r) \<in> set (done_put_queries report) \<and> (c, SentPut r) \<in> set (new_log a a')) \<or>
         (\<exists>err p. rpc_put env now request extra (act_rpc a) = Some (Inl err, p) \<and> (c, SentPut (Inl err)) \<in> set (new_log a a'))"
    if "msg = Some (ActorPut request c extra)" for request c extra
    using receive_put [OF p(1) [unfolded that]] puts sub(1) by blast
  have "replied env now msg a (new_log a a')" by (rule replied_mono [OF receive_replies [OF p(1)] sub(1)])
  then show ?thesis using p(1,2) gets put puts receive_waits_put [OF p(1)] by blast
qed

section \<open>Two rounds\<close>

text \<open>A lookup of nodes by a node that knows nobody ends in the round that takes it.\<close>

definition wit_idle_query :: iterative_query where
  "wit_idle_query = query_new (rpc_id wit_rpc0) wit_target (GetFindNode \<lparr>fnq_target = wit_target\<rparr>)"

lemma wit_idle_facts:
  "iq_closest wit_idle_query = closest_new wit_target" "iq_inflight_requests wit_idle_query = []" "best_address wit_idle_query = None"
  "query_is_find_node wit_idle_query" "to_visit wit_idle_query = []"
  by (simp_all add: wit_idle_query_def query_new_def best_address_def query_is_find_node_def to_visit_alt)

lemma wit_idle_get:
  "rpc_get wit_env 10 (GetFindNode \<lparr>fnq_target = wit_target\<rparr>) None wit_rpc0 =
     (None, wit_rpc0\<lparr>cached_iterative_queries := (1000, []), iterative_queries := [(wit_target, wit_idle_query)]\<rparr>)"
  by (simp add: rpc_get_def Let_def wit_rpc0_fields empty_table wit_idle_query_def [symmetric] query_start_def visit_closest_def wit_idle_facts
      wit_env_def list_lru_def case_prod_beta)

lemma wit_idle_round:
  "\<exists>a. actor_step wit_env 10 11 UdpError (Some (find_node_request wit_target 3)) (actor_new wit_rpc0) = Some a \<and> get_senders a = []"
proof -
  let ?p = "wit_rpc0\<lparr>cached_iterative_queries := (1000, []), iterative_queries := [(wit_target, wit_idle_query)]\<rparr>"
  let ?d = "query_outcome (responders_based_dht_size_estimate ?p) (average_subnets wit_env ?p) wit_target wit_idle_query"
  have g: "tick_get_queries wit_env 10 ?p = ([?d], wit_target = rpc_id ?p, ?p)"
    by (simp add: tick_get_queries_def query_tick_def visit_closest_def wit_idle_facts Let_def)
  have "\<not> MAX_CACHED_ITERATIVE_QUERIES \<le> cached_len wit_env (?p\<lparr>iterative_queries := []\<rparr>)"
    by (simp add: cached_len_def wit_env_def list_lru_def MAX_CACHED_ITERATIVE_QUERIES_def)
  then have c: "cleanup_done_queries wit_env 10 [?d] [] ?p = Some ([], ?p\<lparr>iterative_queries := []\<rparr>)"
    by (simp add: cleanup_done_queries_def cleanup_done_get_def query_outcome_def update_address_votes_def wit_idle_facts cache_iterative_query_def
        closest_is_empty_def closest_new_def Let_def wit_rpc0_fields)
  have "tick_put_queries 10 ?p = []" by (simp add: tick_put_queries_def wit_rpc0_fields List.map_filter_def)
  moreover have "fst (rpc_handle_message wit_env 11 UdpError q) = None" for q
    by (simp add: rpc_handle_message_def socket_recv_from_none)
  ultimately obtain p' where "rpc_tick wit_env 10 11 UdpError ?p =
      Some (\<lparr>done_get_queries = [?d], done_put_queries = [], new_query_response = None\<rparr>, p')"
    by (simp add: rpc_tick_def g c case_prod_beta Let_def)
  then show ?thesis
    by (simp add: actor_step_def actor_receive_def find_node_request_def wit_idle_get actor_new_def actor_report_def report_response_def
        push_sender_def report_get_def query_outcome_def)
qed

theorem callers_answered_witness:
  "\<exists>a ns. actor_step wit_env 10 11 UdpError (Some (find_node_request wit_target 3)) (actor_new wit_rpc0) = Some a \<and>
     (3, SentNodes ns) \<in> set (new_log (actor_new wit_rpc0) a)"
proof -
  obtain a where a: "actor_step wit_env 10 11 UdpError (Some (find_node_request wit_target 3)) (actor_new wit_rpc0) = Some a"
    "get_senders a = []" using wit_idle_round by blast
  have "joins (Some (find_node_request wit_target 3)) wit_target (ClosestNodesSender 3)" by (simp add: joins_def find_node_request_def)
  moreover have "\<not> waits_get a wit_target (ClosestNodesSender 3)" using a(2) by (simp add: waits_get_def)
  ultimately show ?thesis using callers_answered [OF actor_start [OF wit_rpc0_new] wit_env_ok a(1)] a(1) by (metis closes.simps(1))
qed

text \<open>A get of the peers of the own id, whose answer arrives in the same round. The periodic lookup of the own id joins it.\<close>

definition wit_found_message :: message where
  "wit_found_message = \<lparr>transaction_id = 0, version = None, requester_ip = None,
     message_type = Response (GetPeersResponse
       \<lparr>gpr_responder_id = id_of [], gpr_token = [], gpr_values = [sock_addr_new 9 9], gpr_nodes = None\<rparr>), read_only = False\<rparr>"

definition wit_found_env where
  "wit_found_env = wit_env\<lparr>env_bencode :=
     \<lparr>bencode_to_bytes = (\<lambda>_. Inl ()), bencode_from_bytes = (\<lambda>_. Inr (into_serde_message wit_found_message))\<rparr>\<rparr>"

lemma wit_found_env_facts:
  "env_ok wit_found_env" "env_cache wit_found_env = list_lru" "env_crc wit_found_env = (\<lambda>_. 0)"
  "message_from_bytes (env_bencode wit_found_env) now (take MTU (100 # replicate 14 0)) = Inr wit_found_message"
  using wit_env_ok
  by (simp_all add: wit_found_env_def env_ok_def)
    (simp_all add: wit_env_def message_from_bytes_def message_view wire_view_def wit_found_message_def MTU_def)

lemma wit_found_start:
  "rpc_new wit_found_env (\<lambda>a. Inr a :: unit + sock_addr) (\<lambda>_. Inl ()) 0 (\<lambda>_. 0) (config_default\<lparr>cfg_bootstrap := Some [wit_address]\<rparr>) = Inr wit_rpcb"
  by (simp add: wit_rpcb_def wit_rpc0_def rpc_new_def socket_new_def socket_bind_def config_default_def Let_def case_prod_beta wit_found_env_def)

definition wit_own_visit where
  "wit_own_visit = query_visit 10 wit_address
     (query_new (rpc_id wit_rpc0) (rpc_id wit_rpc0) (GetGetPeers \<lparr>gpq_info_hash = rpc_id wit_rpc0\<rparr>), socket wit_rpc0, rpc_rng wit_rpc0)"

lemma wit_own_visit_facts:
  "iq_closest (fst wit_own_visit) = closest_new (rpc_id wit_rpc0)" "query_target (fst wit_own_visit) = rpc_id wit_rpc0"
  "iq_inflight_requests (fst wit_own_visit) = [0, 1]" "iq_responses (fst wit_own_visit) = []"
  "requests (inflight (fst (snd wit_own_visit))) = [0 \<mapsto> \<lparr>ir_to = wit_address, ir_sent_at = 10\<rparr>, 1 \<mapsto> \<lparr>ir_to = wit_address, ir_sent_at = 10\<rparr>]"
  "timeout (inflight (fst (snd wit_own_visit))) = DEFAULT_REQUEST_TIMEOUT"
  by (simp_all add: wit_own_visit_def query_visit_query query_visit_socket inflight_add_def wit_rpc0_fields query_target_def)
    (simp_all add: query_new_def)

definition wit_rpc_own where
  "wit_rpc_own = wit_rpcb\<lparr>socket := fst (snd wit_own_visit), rpc_rng := snd (snd wit_own_visit), cached_iterative_queries := (1000, []),
     iterative_queries := [(rpc_id wit_rpc0, fst wit_own_visit)]\<rparr>"

lemma wit_own_get:
  "rpc_get wit_found_env 10 (GetGetPeers \<lparr>gpq_info_hash = rpc_id wit_rpc0\<rparr>) None wit_rpcb = (None, wit_rpc_own)"
proof -
  have "query_start 10 wit_own_visit = wit_own_visit"
    by (simp add: query_start_def visit_closest_def to_visit_alt wit_own_visit_facts)
  then show ?thesis
    by (simp add: wit_rpc_own_def wit_rpcb_def rpc_get_def rpc_id_def Let_def wit_rpc0_fields empty_table wit_own_visit_def [unfolded rpc_id_def, symmetric]
      wit_found_env_facts list_lru_def case_prod_beta)
qed

lemma wit_own_received:
  "fst (socket_recv_from (env_bencode wit_found_env) 11 wit_input (fst (snd wit_own_visit))) = Some (wit_found_message, wit_address)"
proof -
  have p: "sa_port wit_address \<noteq> 0" by (simp add: wit_address_def sock_addr_new_def)
  have f: "fst (inflight_remove 11 (inflight (fst (snd wit_own_visit))) 0 wit_address) = Some \<lparr>ir_to = wit_address, ir_sent_at = 10\<rparr>"
    by (simp add: remove_found wit_own_visit_facts does_match_def elapsed_def const_facts)
  have t: "transaction_id wit_found_message = 0" "\<not> is_request wit_found_message"
    by (simp_all add: wit_found_message_def is_request_def)
  show ?thesis unfolding wit_input_def socket_recv_from_datagram wit_found_env_facts
    by (simp add: Let_def p expected_response remove_socket_cleanup f t)
qed

lemma wit_own_heard:
  "\<exists>q p. rpc_handle_message wit_found_env 11 wit_input (wit_rpc_own\<lparr>last_table_refresh := 10\<rparr>) = (Some (rpc_id wit_rpc0, PeersFound [sock_addr_new 9 9]), p) \<and>
     iterative_queries p = [(rpc_id wit_rpc0, q)] \<and> iq_responses q = [PeersFound [sock_addr_new 9 9]]"
proof -
  have q: "query_is_inflight (fst wit_own_visit) 0" by (simp add: query_is_inflight_def wit_own_visit_facts)
  have m: "transaction_id wit_found_message = 0" "\<not> read_only wit_found_message" "message_type wit_found_message = Response (GetPeersResponse
       \<lparr>gpr_responder_id = id_of [], gpr_token = [], gpr_values = [sock_addr_new 9 9], gpr_nodes = None\<rparr>)"
    by (simp_all add: wit_found_message_def)
  have p: "put_queries wit_rpc_own = []" "iterative_queries wit_rpc_own = [(rpc_id wit_rpc0, fst wit_own_visit)]" "socket wit_rpc_own = fst (snd wit_own_visit)"
    by (simp_all add: wit_rpc_own_def wit_rpcb_def wit_rpc0_fields)
  obtain s where s: "socket_recv_from (env_bencode wit_found_env) 11 wit_input (fst (snd wit_own_visit)) = (Some (wit_found_message, wit_address), s)"
    using wit_own_received by (metis prod.collapse)
  have d: "snd (query_deliver cr (message_type wit_found_message) g q') = Some (PeersFound [sock_addr_new 9 9])" for cr g q'
    by (simp add: m query_deliver_def)
  let ?g = "is_inflight_query_request (fst wit_own_visit) 0 \<and> (case request_type (iq_request (fst wit_own_visit)) of GetValueRequest _ \<Rightarrow> True | _ \<Rightarrow> False)"
  let ?q = "fst (query_deliver (env_crypto wit_found_env) (message_type wit_found_message) ?g
      (query_learn wit_found_env 11 wit_address wit_found_message (fst wit_own_visit)))"
  have r: "iq_responses ?q = [PeersFound [sock_addr_new 9 9]]"
    by (simp only: deliver_responses d learn_responses wit_own_visit_facts option.case append_Nil)
  have t: "query_target ?q = rpc_id wit_rpc0"
    using wit_own_visit_facts(2)
    by (simp add: m query_deliver_def Let_def query_add_response_def query_record_def query_learn_def get_closer_nodes_def get_token_def
        add_responding_node_def query_target_def) (simp add: wit_found_message_def get_closer_nodes_def get_token_def)
  let ?p = "wit_rpc_own\<lparr>last_table_refresh := 10, socket := s\<rparr>"
  have "rpc_handle_response wit_found_env 11 wit_address wit_found_message ?p =
      (Some (query_target (fst wit_own_visit), PeersFound [sock_addr_new 9 9]), ?p\<lparr>iterative_queries := [(rpc_id wit_rpc0, ?q)]\<rparr>)"
    by (simp add: rpc_handle_response_def m(1,2) p find_value_def q d case_prod_beta Let_def)
  then have "rpc_handle_message wit_found_env 11 wit_input (wit_rpc_own\<lparr>last_table_refresh := 10\<rparr>) =
      (Some (rpc_id wit_rpc0, PeersFound [sock_addr_new 9 9]), ?p\<lparr>iterative_queries := [(rpc_id wit_rpc0, ?q)]\<rparr>)"
    by (simp add: rpc_handle_message_def p s m(3) wit_own_visit_facts(2))
  then show ?thesis using r by auto
qed

lemma wit_own_round:
  "\<exists>a q. actor_step wit_found_env 10 11 wit_input (Some (get_peers_request (rpc_id wit_rpc0) 3)) (actor_new wit_rpcb) = Some a \<and>
     get_senders a = [(rpc_id wit_rpc0, [PeersSender 3])] \<and> iterative_queries (act_rpc a) = [(rpc_id wit_rpc0, q)] \<and>
     iq_responses q = [PeersFound [sock_addr_new 9 9]]"
proof -
  have own: "iterative_queries wit_rpc_own = [(rpc_id wit_rpc0, fst wit_own_visit)]" "rpc_id (wit_rpc_own\<lparr>last_table_refresh := n\<rparr>) = rpc_id wit_rpc0"
    "put_queries wit_rpc_own = []" "last_table_refresh wit_rpc_own = 0" "last_table_ping wit_rpc_own = 0" "rt_buckets (routing_table wit_rpc_own) = Map.empty" for n
    by (simp_all add: wit_rpc_own_def wit_rpcb_def wit_rpc0_fields rpc_id_def)
  have "query_tick 10 wit_own_visit = (False, wit_own_visit)"
    by (simp add: query_tick_def visit_closest_def to_visit_alt wit_own_visit_facts case_prod_beta Let_def
      socket_inflight_def inflight_contains_def elapsed_def const_facts)
  then have "query_tick 10 (fst wit_own_visit, fst (snd wit_own_visit), snd (snd wit_own_visit)) = (False, wit_own_visit)" by simp
  then have g: "tick_get_queries wit_found_env 10 wit_rpc_own = ([], False, wit_rpc_own)"
    by (simp add: tick_get_queries_def wit_rpc_own_def case_prod_beta Let_def)
  have p: "periodic_node_maintenance wit_found_env 10 wit_rpc_own = wit_rpc_own\<lparr>last_table_refresh := 10\<rparr>"
    by (simp add: periodic_node_maintenance_def own elapsed_def const_facts empty_table populate_def rpc_get_def Let_def)
  have "tick_put_queries 10 wit_rpc_own = []" by (simp add: tick_put_queries_def own List.map_filter_def)
  moreover obtain q p' where h: "rpc_handle_message wit_found_env 11 wit_input (wit_rpc_own\<lparr>last_table_refresh := 10\<rparr>) =
      (Some (rpc_id wit_rpc0, PeersFound [sock_addr_new 9 9]), p')" "iterative_queries p' = [(rpc_id wit_rpc0, q)]"
    "iq_responses q = [PeersFound [sock_addr_new 9 9]]" using wit_own_heard by blast
  ultimately have "rpc_tick wit_found_env 10 11 wit_input wit_rpc_own = Some (\<lparr>done_get_queries = [], done_put_queries = [],
      new_query_response = Some (rpc_id wit_rpc0, PeersFound [sock_addr_new 9 9])\<rparr>, p')"
    by (simp add: rpc_tick_def g p cleanup_done_queries_def)
  then show ?thesis using h(2,3)
    by (simp add: actor_step_def actor_receive_def get_peers_request_def wit_own_get actor_new_def actor_report_def report_response_def push_sender_def)
qed

theorem values_reach_callers_witness:
  "\<exists>a q. actor_reachable wit_found_env a \<and> map_of (iterative_queries (act_rpc a)) (rpc_id wit_rpc0) = Some q \<and>
     iq_responses q = [PeersFound [sock_addr_new 9 9]] \<and> (3, SentPeers [sock_addr_new 9 9]) \<in> set (sent_log a)"
proof -
  obtain a q where a: "actor_step wit_found_env 10 11 wit_input (Some (get_peers_request (rpc_id wit_rpc0) 3)) (actor_new wit_rpcb) = Some a"
    "get_senders a = [(rpc_id wit_rpc0, [PeersSender 3])]" "iterative_queries (act_rpc a) = [(rpc_id wit_rpc0, q)]"
    "iq_responses q = [PeersFound [sock_addr_new 9 9]]" using wit_own_round by blast
  have r: "actor_reachable wit_found_env a" by (rule actor_round [OF actor_start [OF wit_found_start] a(1)])
  have "delivered (PeersSender 3) (PeersFound [sock_addr_new 9 9]) (sent_log a)"
    by (rule values_reach_callers [OF r wit_found_env_facts(1), where t = "rpc_id wit_rpc0" and q = q]) (simp_all add: a(2-4) waits_get_def)
  then show ?thesis using r a(3,4) by auto
qed

end
