(* ===== verification/Announce.thy ===== *)
theory Announce
  imports Server
begin

text \<open>
  Announced peers at the server, from \<^verbatim>\<open>src/src/rpc/server.rs\<close> and \<^verbatim>\<open>src/src/rpc/server/peers.rs\<close>: the invariant of the peers store over all
  requests, and that an acknowledged announcement is served to those who ask for the info hash.
\<close>

section \<open>The invariant over all requests\<close>

definition server_peers_ok :: "('pc, 'ic, 'im, 'mu) stores \<Rightarrow> ('ic, 'im, 'mu) server \<Rightarrow> bool" where
  "server_peers_ok st srv \<longleftrightarrow> peers_ok (st_peers st) (srv_peers srv)"

lemma stores_peer_caches: "stores_ok st \<Longrightarrow> peer_caches (st_peers st)"
  by (simp add: stores_ok_def peer_caches_def)

text \<open>The address that an announcement registers.\<close>

definition announced_address :: "sock_addr \<Rightarrow> announce_peer_args \<Rightarrow> sock_addr" where
  "announced_address from_addr a =
     (case ap_implied_port a of Some True \<Rightarrow> from_addr | _ \<Rightarrow> sock_addr_new (sa_ip from_addr) (ap_port a))"

lemma handle_announce_peer_run:
  "handle_announce_peer crc st rt from_addr rid token a srv =
     (if tokens_validate crc (srv_tokens srv) from_addr token
      then (ping_answer rt, srv\<lparr>srv_peers := add_peer (st_peers st) (srv_peers srv) (ap_info_hash a) (rid, announced_address from_addr a)\<rparr>)
      else (error_answer 203 ''Bad token'', srv))"
  by (simp add: handle_announce_peer_def announced_address_def)

lemma other_puts_keep_peers [simp]:
  "srv_peers (snd (handle_put_immutable crc cr st rt from_addr token ia srv)) = srv_peers srv"
  "srv_peers (snd (handle_put_mutable crc cr st rt from_addr token pm srv)) = srv_peers srv"
  "srv_peers (snd (handle_get_value crc st rt from_addr g srv)) = srv_peers srv"
  by (simp_all add: handle_put_immutable_def handle_put_mutable_def store_mutable_def handle_get_value_def case_prod_beta Let_def
    split: option.split sum.split)

lemma server_peers_request:
  assumes "stores_ok st" "server_peers_ok st srv"
  shows "server_peers_ok st (fst (snd (server_handle_request crc cr st now r rt from_addr request srv)))"
proof -
  note caches = peer_caches.ok_add [OF stores_peer_caches [OF assms(1)]] peer_caches.ok_random [OF stores_peer_caches [OF assms(1)]]
  show ?thesis
  proof (cases "request_type request")
    case (PutRequestOf p)
    then show ?thesis using assms(2) caches(1)
      by (cases "put_request_type p")
        (simp_all add: server_handle_request_def handle_put_def handle_announce_peer_run server_peers_ok_def case_prod_beta Let_def)
  qed (use assms(2) caches(2) in \<open>simp_all add: server_handle_request_def handle_get_peers_def server_peers_ok_def case_prod_beta Let_def\<close>)
qed

lemma server_peers_new: "stores_ok st \<Longrightarrow> server_peers_ok st (fst (server_new st now r settings))"
  by (simp add: server_peers_ok_def server_new_def case_prod_beta Let_def non_zero_or_def MAX_INFO_HASHES_def MAX_PEERS_def
    peer_caches.ok_new [OF stores_peer_caches])

lemma server_reachable_peers: "server_reachable crc cr st srv \<Longrightarrow> stores_ok st \<Longrightarrow> server_peers_ok st srv"
  by (induction rule: server_reachable.induct) (auto intro: server_peers_new server_peers_request)

text \<open>C24: whatever requests a server handled, it keeps peers of at most as many info hashes as its cache holds, for each at most \<open>max_peers\<close> of them, and
  of every peer only one address.\<close>

theorem server_peers_bounded:
  assumes "server_reachable crc cr st srv" "stores_ok st"
  shows "length (lru_iter (infos_lru (st_peers st)) (info_hashes (srv_peers srv))) \<le> lru_cap (infos_lru (st_peers st)) (info_hashes (srv_peers srv)) \<and>
    length (peers_of (st_peers st) (srv_peers srv) h) \<le> max_peers (srv_peers srv) \<and> distinct (map fst (peers_of (st_peers st) (srv_peers srv) h))"
  using server_reachable_peers [OF assms] peer_caches.peers_bounded [OF stores_peer_caches [OF assms(2)], of "srv_peers srv" h]
  by (simp add: server_peers_ok_def peers_ok_def lru_ok_def)

section \<open>An announced peer is served\<close>

lemma announce_stored:
  assumes "stores_ok st" "server_peers_ok st srv" "fst (handle_announce_peer crc st rt from_addr rid token a srv) = ping_answer rt"
  shows "map_of (peers_of (st_peers st) (srv_peers (snd (handle_announce_peer crc st rt from_addr rid token a srv))) (ap_info_hash a)) rid =
    Some (announced_address from_addr a)"
proof -
  have "tokens_validate crc (srv_tokens srv) from_addr token" using assms(3) by (auto simp: handle_announce_peer_run split: if_splits)
  then show ?thesis
    using peer_caches.add_peer_found [OF stores_peer_caches [OF assms(1)], of "srv_peers srv"] assms(2)
    by (simp add: handle_announce_peer_run server_peers_ok_def)
qed

text \<open>What a server answers to a get_peers of an info hash with announced peers.\<close>

lemma get_peers_answer:
  assumes "stores_ok st" "peers_of (st_peers st) (srv_peers srv) h \<noteq> []"
  obtains l where "fst (handle_get_peers crc st r rt from_addr h srv) = Response (GetPeersResponse
      \<lparr>gpr_responder_id = rt_id rt, gpr_token = generate_token crc (srv_tokens srv) from_addr, gpr_values = l,
       gpr_nodes = Some (rt_closest crc rt h)\<rparr>)"
    "subseq l (map snd (peers_of (st_peers st) (srv_peers srv) h))" "length l \<le> 10"
    "length (peers_of (st_peers st) (srv_peers srv) h) < 10 \<longrightarrow> l = map snd (peers_of (st_peers st) (srv_peers srv) h)"
proof -
  let ?ps = "map snd (peers_of (st_peers st) (srv_peers srv) h)"
  have lru: "lru_cache (infos_lru (st_peers st))" "lru_cache (peers_lru (st_peers st))" using assms(1) by (simp_all add: stores_ok_def)
  obtain c where c: "lru_lookup (infos_lru (st_peers st)) (info_hashes (srv_peers srv)) h = Some c"
    "map snd (lru_iter (peers_lru (st_peers st)) c) = ?ps" using assms(2) by (auto simp: peers_of_def split: option.splits)
  have "\<exists>l. fst (get_random_peers (st_peers st) r (srv_peers srv) h) = Some l \<and> subseq l ?ps \<and> length l \<le> 10 \<and> (length ?ps < 10 \<longrightarrow> l = ?ps)"
    using get_random_peers_returns [OF lru, where s = "srv_peers srv" and h = h and r = r] c assms(2) by (auto simp: Let_def split: if_splits)
  then obtain l where l: "fst (get_random_peers (st_peers st) r (srv_peers srv) h) = Some l" "subseq l ?ps" "length l \<le> 10"
    "length ?ps < 10 \<longrightarrow> l = ?ps" by blast
  show ?thesis by (rule that [of l]) (use l in \<open>simp_all add: handle_get_peers_def case_prod_beta Let_def\<close>)
qed

lemma get_peers_run:
  assumes "request_type request = GetPeersRequest \<lparr>gpq_info_hash = h\<rparr>" "srv_filter srv request from_addr"
  shows "fst (server_handle_request crc cr st now r rt from_addr request srv) =
    Some (fst (handle_get_peers crc st (snd (tokens_refresh now r (srv_tokens srv))) rt from_addr h
      (srv\<lparr>srv_tokens := fst (tokens_refresh now r (srv_tokens srv))\<rparr>)))"
  using assms by (simp add: server_handle_request_def case_prod_beta Let_def)

text \<open>C23: an acknowledged announcement is served. The next get_peers for the info hash, from anyone whom the filter admits, is answered with
  announced peers; with fewer than ten of them, the announced address is among them.\<close>

theorem announce_then_get_peers:
  assumes "stores_ok st" "server_peers_ok st srv" "request_type req = PutRequestOf \<lparr>put_token = token, put_request_type = AnnouncePeer a\<rparr>"
    and "server_handle_request crc cr st now r rt from_addr req srv = (Some (ping_answer rt), srv', r')"
    and "request_type req' = GetPeersRequest \<lparr>gpq_info_hash = ap_info_hash a\<rparr>" "srv_filter srv' req' asker"
  shows "\<exists>g. fst (server_handle_request crc cr st now' r2 rt' asker req' srv') = Some (Response (GetPeersResponse g)) \<and>
    subseq (gpr_values g) (map snd (peers_of (st_peers st) (srv_peers srv') (ap_info_hash a))) \<and>
    (length (peers_of (st_peers st) (srv_peers srv') (ap_info_hash a)) < 10 \<longrightarrow> announced_address from_addr a \<in> set (gpr_values g))"
proof -
  have ans: "fst (server_handle_request crc cr st now r rt from_addr req srv) = Some (ping_answer rt)" using assms(4) by simp
  obtain tk where tk: "ping_answer rt = fst (handle_put crc cr st rt from_addr (requester_id req) \<lparr>put_token = token, put_request_type = AnnouncePeer a\<rparr>
      (srv\<lparr>srv_tokens := tk\<rparr>))"
    "srv' = snd (handle_put crc cr st rt from_addr (requester_id req) \<lparr>put_token = token, put_request_type = AnnouncePeer a\<rparr> (srv\<lparr>srv_tokens := tk\<rparr>))"
    by (rule put_request_split [OF assms(3) ans]) (rule that; simp add: assms(4))
  let ?ps = "peers_of (st_peers st) (srv_peers srv') (ap_info_hash a)"
  have "map_of ?ps (requester_id req) = Some (announced_address from_addr a)"
    using announce_stored [OF assms(1), of "srv\<lparr>srv_tokens := tk\<rparr>"] tk assms(2) by (simp add: handle_put_def server_peers_ok_def)
  then have stored: "(requester_id req, announced_address from_addr a) \<in> set ?ps" by (rule map_of_SomeD)
  let ?srv = "srv'\<lparr>srv_tokens := fst (tokens_refresh now' r2 (srv_tokens srv'))\<rparr>"
  have peers: "srv_peers ?srv = srv_peers srv'" by simp
  have ne: "peers_of (st_peers st) (srv_peers ?srv) (ap_info_hash a) \<noteq> []" using stored by auto
  obtain l where l: "fst (handle_get_peers crc st (snd (tokens_refresh now' r2 (srv_tokens srv'))) rt' asker (ap_info_hash a) ?srv) =
     Response (GetPeersResponse \<lparr>gpr_responder_id = rt_id rt', gpr_token = generate_token crc (srv_tokens ?srv) asker, gpr_values = l,
       gpr_nodes = Some (rt_closest crc rt' (ap_info_hash a))\<rparr>)"
    "subseq l (map snd ?ps)" "length ?ps < 10 \<longrightarrow> l = map snd ?ps"
    by (rule get_peers_answer [OF assms(1) ne, unfolded peers]) (rule that, assumption+)
  have "announced_address from_addr a \<in> set (map snd ?ps)" using stored by force
  then show ?thesis using l unfolding get_peers_run [OF assms(5,6)] by auto
qed

abbreviation wit_announce :: announce_peer_args where
  "wit_announce \<equiv> \<lparr>ap_info_hash = id_of [], ap_port = 7, ap_implied_port = None\<rparr>"

definition wit_newcomer where
  "wit_newcomer = fst (server_new wit_stores 0 (\<lambda>_. 0) server_settings_default)"

lemma wit_newcomer_simps:
  "srv_filter wit_newcomer = default_filter" "tokens_refresh 0 r (srv_tokens wit_newcomer) = (srv_tokens wit_newcomer, r)"
  "tokens_validate (\<lambda>_. 0) tk a [0, 0, 0, 0]"
  using wit_server_simps(1-3) by (simp_all add: wit_server_def wit_newcomer_def)

definition wit_announced where
  "wit_announced = server_handle_request (\<lambda>_. 0) wit_crypto wit_stores 0 (\<lambda>_. 0) (rt_new (id_of [])) (sock_addr_new 1 2)
     (wit_put (AnnouncePeer wit_announce)) wit_newcomer"

lemma wit_announced_parts: "wit_announced = (Some (ping_answer (rt_new (id_of []))), fst (snd wit_announced), snd (snd wit_announced))"
  "srv_filter (fst (snd wit_announced)) = default_filter"
  by (simp_all add: wit_announced_def server_handle_request_def wit_put_def wit_newcomer_simps default_filter_def handle_put_def handle_announce_peer_run
    case_prod_beta Let_def prod_eq_iff)

lemma wit_announced_peers:
  "peers_of (st_peers wit_stores) (srv_peers (fst (snd wit_announced))) (id_of []) = [(id_of [], sock_addr_new 1 7)]"
  by (simp add: wit_announced_def server_handle_request_def wit_put_def wit_newcomer_simps default_filter_def handle_put_def handle_announce_peer_run
    case_prod_beta Let_def announced_address_def sock_addr_new_def)
    (simp add: wit_newcomer_def server_new_def case_prod_beta Let_def server_settings_default_def non_zero_or_def MAX_INFO_HASHES_def MAX_PEERS_def
      peers_new_def add_peer_def peers_of_def wit_stores_def wit_lrus_def list_lru_def lru_lookup_def without_def)

theorem server_peers_bounded_witness:
  "length (peers_of (st_peers wit_stores) (srv_peers (fst (snd wit_announced))) (id_of [])) \<in> {1..max_peers (srv_peers (fst (snd wit_announced)))}"
proof -
  have "server_reachable (\<lambda>_. 0) wit_crypto wit_stores (fst (snd wit_announced))"
    unfolding wit_announced_def wit_newcomer_def
    by (rule server_request [OF server_start])
  from server_peers_bounded [OF this wit_stores_ok, of "id_of []"] show ?thesis by (simp add: wit_announced_peers)
qed

theorem announce_then_get_peers_witness:
  "\<exists>g. fst (server_handle_request (\<lambda>_. 0) wit_crypto wit_stores 0 (\<lambda>_. 0) (rt_new (id_of [])) (sock_addr_new 3 4)
      \<lparr>requester_id = id_of [], request_type = GetPeersRequest \<lparr>gpq_info_hash = id_of []\<rparr>\<rparr> (fst (snd wit_announced))) =
      Some (Response (GetPeersResponse g)) \<and> sock_addr_new 1 7 \<in> set (gpr_values g)"
proof -
  have ok: "server_peers_ok wit_stores wit_newcomer" unfolding wit_newcomer_def server_peers_ok_def
    using server_peers_new [OF wit_stores_ok, of 0 "\<lambda>_. 0" server_settings_default] by (simp add: server_peers_ok_def)
  have a: "announced_address (sock_addr_new 1 2) wit_announce = sock_addr_new 1 7" by (simp add: announced_address_def sock_addr_new_def)
  have type: "request_type (wit_put (AnnouncePeer wit_announce)) = PutRequestOf \<lparr>put_token = [0, 0, 0, 0], put_request_type = AnnouncePeer wit_announce\<rparr>"
    by (simp add: wit_put_def)
  have run: "server_handle_request (\<lambda>_. 0) wit_crypto wit_stores 0 (\<lambda>_. 0) (rt_new (id_of [])) (sock_addr_new 1 2) (wit_put (AnnouncePeer wit_announce)) wit_newcomer =
      (Some (ping_answer (rt_new (id_of []))), fst (snd wit_announced), snd (snd wit_announced))"
    using wit_announced_parts(1) by (simp only: wit_announced_def [symmetric])
  let ?ask = "\<lparr>requester_id = id_of [], request_type = GetPeersRequest \<lparr>gpq_info_hash = id_of []\<rparr>\<rparr>"
  have "\<exists>g. fst (server_handle_request (\<lambda>_. 0) wit_crypto wit_stores 0 (\<lambda>_. 0) (rt_new (id_of [])) (sock_addr_new 3 4) ?ask (fst (snd wit_announced))) =
      Some (Response (GetPeersResponse g)) \<and>
    subseq (gpr_values g) (map snd (peers_of (st_peers wit_stores) (srv_peers (fst (snd wit_announced))) (ap_info_hash wit_announce))) \<and>
    (length (peers_of (st_peers wit_stores) (srv_peers (fst (snd wit_announced))) (ap_info_hash wit_announce)) < 10 \<longrightarrow>
      announced_address (sock_addr_new 1 2) wit_announce \<in> set (gpr_values g))"
    by (rule announce_then_get_peers [OF wit_stores_ok ok type run])
      (simp_all add: wit_announced_parts(2) default_filter_def)
  then show ?thesis by (auto simp: wit_announced_peers a)
qed

end
