(* ===== verification/Exchange.thy ===== *)
theory Exchange
  imports Delivery Announce
begin

text \<open>
  Two nodes of the network at work together: what one node's actor asks for, the other node's server answers, and the
  answer reaches the caller. The theorems compose the actor (\<^verbatim>\<open>src/src/dht.rs\<close>), the node (\<^verbatim>\<open>src/src/rpc.rs\<close>), its queries, its socket,
  the message codec and the server; the network delivers a datagram unchanged, from the address it was sent from.
\<close>

section \<open>Requests that are waiting for their answers\<close>

text \<open>The messages that a socket has appended to its outbox since it held \<open>k\<close>: their requests are tracked under their
  transaction ids, as long as these do not wrap around.\<close>

definition tracked :: "nat \<Rightarrow> instant \<Rightarrow> u32 set \<Rightarrow> krpc_socket \<Rightarrow> bool" where
  "tracked k now tids s \<longleftrightarrow> k \<le> length (outbox s) \<and> (length (outbox s) - k \<le> 2 ^ 32 \<longrightarrow>
     (\<forall>i < length (outbox s) - k. case outbox s ! (k + i) of (b, m) \<Rightarrow>
        transaction_id m = next_tid s - of_nat (length (outbox s) - k) + of_nat i \<and> transaction_id m \<in> tids \<and>
        requests (inflight s) (transaction_id m) = Some \<lparr>ir_to = b, ir_sent_at = now\<rparr>))"

lemma tracked_start: "tracked (length (outbox s)) now tids s"
  by (simp add: tracked_def)

lemma tracked_mono: "tracked k now tids s \<Longrightarrow> tids \<subseteq> tids' \<Longrightarrow> tracked k now tids' s"
  unfolding tracked_def by fastforce

lemma tracked_request:
  assumes "tracked k now tids s"
  shows "tracked k now (insert (next_tid s) tids) (snd (socket_request now b req s))"
proof -
  define n where "n = length (outbox s) - k"
  have k: "k \<le> length (outbox s)" "length (outbox s) = k + n" using assms by (simp_all add: tracked_def n_def)
  have tid: "next_tid s - of_nat n + of_nat i \<noteq> next_tid s" if "i < n" "n < 2 ^ 32" for i
  proof
    assume "next_tid s - of_nat n + of_nat i = next_tid s"
    then have "(of_nat i :: u32) = of_nat n" by (simp add: algebra_simps)
    then have "unat (of_nat i :: u32) = unat (of_nat n :: u32)" by simp
    then show False using that by (simp add: unat_of_nat take_bit_nat_eq_self)
  qed
  have old: "case outbox s ! (k + i) of (b, m) \<Rightarrow>
        transaction_id m = next_tid s - of_nat n + of_nat i \<and> transaction_id m \<in> tids \<and>
        requests (inflight s) (transaction_id m) = Some \<lparr>ir_to = b, ir_sent_at = now\<rparr>" if "i < n" "n < 2 ^ 32" for i
    using assms that by (simp add: tracked_def n_def)
  show ?thesis unfolding tracked_def
  proof (intro conjI impI allI)
    show "k \<le> length (outbox (snd (socket_request now b req s)))" using k by (simp add: socket_request_outbox)
    fix i
    assume "length (outbox (snd (socket_request now b req s))) - k \<le> 2 ^ 32"
      and i: "i < length (outbox (snd (socket_request now b req s))) - k"
    then have n: "n < 2 ^ 32" "i \<le> n" using k by (simp_all add: socket_request_outbox)
    show "case outbox (snd (socket_request now b req s)) ! (k + i) of (b', m) \<Rightarrow>
        transaction_id m = next_tid (snd (socket_request now b req s)) - of_nat (length (outbox (snd (socket_request now b req s))) - k) + of_nat i \<and>
        transaction_id m \<in> insert (next_tid s) tids \<and>
        requests (inflight (snd (socket_request now b req s))) (transaction_id m) = Some \<lparr>ir_to = b', ir_sent_at = now\<rparr>"
    proof (cases "i = n")
      case True
      then show ?thesis using k by (simp add: socket_request_outbox nth_append inflight_add_def)
    next
      case False
      then have "i < n" using n by simp
      then show ?thesis using old [OF _ n(1), of i] tid [OF _ n(1), of i] k
        by (auto simp: socket_request_outbox nth_append inflight_add_def algebra_simps split: prod.splits)
    qed
  qed
qed

lemma tracked_visit:
  assumes "tracked k now (set (iq_inflight_requests q)) s" "query_visit now a (q, s, r) = (q', s', r')"
  shows "tracked k now (set (iq_inflight_requests q')) s' \<and> set (iq_inflight_requests q) \<subseteq> set (iq_inflight_requests q')"
proof -
  have q': "q' = fst (query_visit now a (q, s, r))" and s': "s' = fst (snd (query_visit now a (q, s, r)))" using assms(2) by simp_all
  note step = tracked_request [OF tracked_request [OF assms(1)]]
  have "set (iq_inflight_requests q') = insert (next_tid s + 1) (insert (next_tid s) (set (iq_inflight_requests q)))"
    by (auto simp: q' query_visit_query)
  then show ?thesis using step [of a "iq_request q"] by (auto simp: s' query_visit_socket)
qed

lemma tracked_visits:
  "tracked k now (set (iq_inflight_requests q)) s \<Longrightarrow> fold (query_visit now) as (q, s, r) = (q', s', r') \<Longrightarrow>
     tracked k now (set (iq_inflight_requests q')) s'"
proof (induction as arbitrary: q s r)
  case (Cons a as)
  obtain q1 s1 r1 where v: "query_visit now a (q, s, r) = (q1, s1, r1)" by (metis prod_cases3)
  then show ?case using Cons.IH [of q1 s1 r1] Cons.prems tracked_visit [OF Cons.prems(1) v] by simp
qed simp

lemma tracked_member:
  assumes "tracked k now tids s" "(b, m) \<in> set (drop k (outbox s))" "length (outbox s) \<le> k + 2 ^ 32"
  shows "transaction_id m \<in> tids \<and> requests (inflight s) (transaction_id m) = Some \<lparr>ir_to = b, ir_sent_at = now\<rparr>"
proof -
  obtain i where i: "i < length (outbox s) - k" "outbox s ! (k + i) = (b, m)"
    using assms(2) by (auto simp: in_set_conv_nth)
  then show ?thesis using assms(1,3) by (auto simp: tracked_def)
qed

text \<open>A get in a node that runs no query: one query, whose requests are all tracked.\<close>

lemma candidates_keep [simp]:
  "iq_inflight_requests (fold (add_candidate crc) ns q) = iq_inflight_requests q"
  "iq_request (fold (add_candidate crc) ns q) = iq_request q"
  "iq_responders (fold (add_candidate crc) ns q) = iq_responders q"
  by (induction ns arbitrary: q) (simp_all add: add_candidate_def)

lemma idle_get:
  assumes "iterative_queries p = []" "rpc_get env now request None p = (res, p')"
  obtains q where "res = None" "put_queries p' = put_queries p" "iterative_queries p' = [(get_request_target request, q)]"
    "query_target q = get_request_target request" "iq_request q = iq_request (query_new (rpc_id p) (get_request_target request) request)"
    "tracked (length (outbox (socket p))) now (set (iq_inflight_requests q)) (socket p')"
    "timeout (inflight (socket p')) = timeout (inflight (socket p))"
    "\<And>b m r. (b, m) \<in> set (drop (length (outbox (socket p))) (outbox (socket p'))) \<Longrightarrow> message_type m = Request r \<Longrightarrow>
       request_type r = request_type (iq_request q) \<or> request_type r = PingRequest"
proof -
  let ?t = "get_request_target request"
  let ?q0 = "query_new (rpc_id p) ?t request" and ?k = "length (outbox (socket p))"
  let ?closest = "rt_closest_secure (env_crc env) (routing_table p) ?t (responders_based_dht_size_estimate p) (average_subnets env p)"
  define as where "as = (if ?closest = [] \<or> length ?closest < length (bootstrap p) then bootstrap p else [])"
  obtain q1 s1 r1 where v1: "fold (query_visit now) as (?q0, socket p, rpc_rng p) = (q1, s1, r1)" by (metis prod_cases3)
  obtain found cache where c: "lru_get (env_cache env) (cached_iterative_queries p) ?t = (found, cache)" by fastforce
  define q4 where "q4 = (case found of Some cached \<Rightarrow> fold (add_candidate (env_crc env)) (cq_closest_responding_nodes cached)
      (fold (add_candidate (env_crc env)) ?closest q1) | None \<Rightarrow> fold (add_candidate (env_crc env)) ?closest q1)"
  obtain q5 s5 r5 where v2: "fold (query_visit now) (to_visit q4) (q4, s1, r1) = (q5, s5, r5)" by (metis prod_cases3)
  have "(if ?closest = [] \<or> length ?closest < length (bootstrap p)
      then fold (query_visit now) (bootstrap p) (?q0, socket p, rpc_rng p) else (?q0, socket p, rpc_rng p)) = (q1, s1, r1)" (is "?st1 = _")
    using v1 unfolding as_def by (cases "?closest = [] \<or> length ?closest < length (bootstrap p)") (simp_all only: if_True if_False fold_simps)
  note st1 = this
  have "rpc_get env now request None p = (None, p\<lparr>socket := s5, rpc_rng := r5, cached_iterative_queries := cache,
      iterative_queries := [(?t, q5)]\<rparr>)"
    unfolding rpc_get_def Let_def
    by (simp only: assms(1) map_of.simps option.case st1 c prod.case fst_conv snd_conv q4_def [symmetric] query_start_def visit_closest_def v2
      AList.update.simps)
  then have p': "res = None" "p' = p\<lparr>socket := s5, rpc_rng := r5, cached_iterative_queries := cache, iterative_queries := [(?t, q5)]\<rparr>"
    using assms(2) by simp_all
  have q4: "iq_inflight_requests q4 = iq_inflight_requests q1" "iq_request q4 = iq_request q1" "iq_responders q4 = iq_responders q1"
    by (simp_all add: q4_def split: option.split)
  have "tracked ?k now (set (iq_inflight_requests q1)) s1" using tracked_visits [OF tracked_start v1] .
  then have tr: "tracked ?k now (set (iq_inflight_requests q5)) s5" using tracked_visits [OF _ v2] by (simp add: q4)
  note e = visits_effect [OF v1] visits_effect [OF v2]
  have req: "iq_request q5 = iq_request ?q0" "iq_request q4 = iq_request ?q0" "query_target q5 = ?t" "timeout (inflight s5) = timeout (inflight (socket p))"
    using e by (simp_all add: same_walk_def q4 query_target_def) (simp add: query_new_def closest_new_def)
  have "asked (outbox s5) = asked (outbox (socket p)) @ concat (map (\<lambda>a. [(a, Some (request_type (iq_request ?q0))), (a, Some PingRequest)]) (as @ to_visit q4))"
    using e by (simp add: req)
  then have "asked (drop ?k (outbox s5)) = concat (map (\<lambda>a. [(a, Some (request_type (iq_request ?q0))), (a, Some PingRequest)]) (as @ to_visit q4))"
    by (simp add: asked_def flip: drop_map)
  then have "x \<in> set (asked (drop ?k (outbox s5))) \<Longrightarrow> snd x \<in> {Some (request_type (iq_request ?q0)), Some PingRequest}" for x by auto
  then have kinds: "request_type r = request_type (iq_request q5) \<or> request_type r = PingRequest"
    if "(b, m) \<in> set (drop ?k (outbox s5))" "message_type m = Request r" for b m r
    using that by (force simp: asked_def req)
  show ?thesis by (rule that [of q5]) (use p' req tr kinds in simp_all)
qed

section \<open>A request and its answer\<close>

text \<open>A message that is encoded, delivered and decoded.\<close>

lemma delivered:
  assumes "bencode_inverts be" "message_to_bytes be m = Inr bs" "length bs \<le> MTU"
  shows "message_from_bytes be now (take MTU bs) = Inr (wire_view now m)"
proof -
  have "bencode_from_bytes be bs = Inr (into_serde_message m) \<and> 15 \<le> length bs \<and> bs ! 0 = 100"
    using assms unfolding bencode_inverts_def message_to_bytes_def by blast
  then show ?thesis using assms(3) by (simp add: message_from_bytes_def message_view)
qed

lemma socket_cleanup_keeps [simp]:
  "outbox (socket_cleanup now s) = outbox s" "server_mode (socket_cleanup now s) = server_mode s"
  by (simp_all add: socket_cleanup_def)

text \<open>A node in server mode answers a request by one message to the sender.\<close>

definition answer_of :: "('pc, 'ic, 'im, 'mu, 'q, 'be) rpc_env \<Rightarrow> instant \<Rightarrow> sock_addr \<Rightarrow> request_specific \<Rightarrow> ('ic, 'im, 'mu, 'q) rpc \<Rightarrow>
     message_type option \<times> ('ic, 'im, 'mu) server" where
  "answer_of env now a request p =
     (let (answer, srv, _) = server_handle_request (env_crc env) (env_crypto env) (env_stores env) now (rpc_rng p)
        (routing_table p) a request (rpc_server p) in (answer, srv))"

lemma request_kind:
  assumes "\<And>f. t \<noteq> FindNodeRequest f" "t \<noteq> PingRequest"
  shows "(case t of FindNodeRequest f \<Rightarrow> x f | _ \<Rightarrow> y) = y" "\<not> (case t of PingRequest \<Rightarrow> True | _ \<Rightarrow> False)"
  using assms by (auto split: request_type_specific.split)

lemma request_answered:
  assumes "bencode_inverts (env_bencode env)" "message_to_bytes (env_bencode env) m = Inr bs" "length bs \<le> MTU"
    and "message_type (wire_view now m) = Request req" "sa_port a \<noteq> 0" "server_mode (socket p)"
    and "\<And>f. request_type req \<noteq> FindNodeRequest f" "request_type req \<noteq> PingRequest"
    and "answer_of env now a req p = (Some mt, srv)" "\<And>r. mt \<noteq> Request r"
  obtains p' where "rpc_handle_message env now (FromV4 bs a) p = (None, p')" "rpc_server p' = srv"
    "outbox (socket p') = outbox (socket p) @ [(a, response_message mt a (transaction_id m) (socket p))]"
proof -
  let ?p = "p\<lparr>socket := socket_cleanup now (socket p)\<rparr>"
  have "is_request (wire_view now m)" using assms(4) by (simp add: is_request_def)
  then have r: "socket_recv_from (env_bencode env) now (FromV4 bs a) (socket p) = (Some (wire_view now m, a), socket_cleanup now (socket p))"
    using assms(5) by (simp add: socket_recv_from_datagram delivered [OF assms(1-3)] Let_def)
  have tid: "transaction_id (wire_view now m) = transaction_id m" by (simp add: wire_view_def)
  have mode: "rpc_server_mode ?p" using assms(6) by (simp add: rpc_server_mode_def)
  obtain r' where h: "server_handle_request (env_crc env) (env_crypto env) (env_stores env) now (rpc_rng p)
        (routing_table p) a req (rpc_server p) = (Some mt, srv, r')"
    using assms(9) by (auto simp: answer_of_def split: prod.splits)
  have e: "rpc_handle_message env now (FromV4 bs a) p = (None, rpc_handle_request env now a (transaction_id m) req ?p)"
    by (simp add: rpc_handle_message_def r assms(4) tid)
  have "rpc_handle_request env now a (transaction_id m) req ?p =
      (let p' = ?p\<lparr>rpc_server := srv, rpc_rng := r'\<rparr>
       in case mt of ErrorMessage err \<Rightarrow> rpc_error a (transaction_id m) err p'
          | Response resp \<Rightarrow> rpc_response a (transaction_id m) resp p' | Request _ \<Rightarrow> p')"
    using mode h by (simp add: rpc_handle_request_def Let_def request_kind [OF assms(7,8)] split: option.split message_type.split)
  moreover have "(\<exists>resp. mt = Response resp) \<or> (\<exists>err. mt = ErrorMessage err)" using assms(10) by (cases mt) blast+
  ultimately show ?thesis using that [OF e]
    by (elim disjE exE) (simp_all add: rpc_response_def rpc_error_def socket_response_def socket_error_def socket_send_def response_message_def)
qed

lemma query_learn_keeps:
  "query_target (query_learn env now a m q) = query_target q" "iq_request (query_learn env now a m q) = iq_request q"
  by (auto simp: query_learn_def query_target_def add_responding_node_def add_address_vote_def Let_def split: option.split prod.split)

lemma query_target_record [simp]: "query_target (query_record f q) = query_target q"
  by (simp add: query_target_def query_record_def)

text \<open>An answer that arrives in time is delivered by the query that asked.\<close>

lemma answer_delivered:
  assumes "bencode_inverts (env_bencode env)" "message_to_bytes (env_bencode env) m = Inr bs" "length bs \<le> MTU"
    and "message_type m = Response resp" "\<not> read_only m" "sa_port b \<noteq> 0"
    and "requests (inflight (socket p)) (transaction_id m) = Some \<lparr>ir_to = b, ir_sent_at = t0\<rparr>"
    and "elapsed now t0 < timeout (inflight (socket p))"
    and "put_queries p = []" "iterative_queries p = [(t, q)]" "transaction_id m \<in> set (iq_inflight_requests q)" "query_target q = t"
    and "\<And>q' flag. query_target q' = t \<Longrightarrow> iq_request q' = iq_request q \<Longrightarrow>
      snd (query_deliver (env_crypto env) (Response (response_view now resp)) flag q') = Some x"
  shows "fst (rpc_handle_message env now (FromV4 bs b) p) = Some (t, x)"
proof -
  let ?m = "wire_view now m"
  have m: "transaction_id ?m = transaction_id m" "read_only ?m = read_only m" "message_type ?m = Response (response_view now resp)"
    using assms(4) by (simp_all add: wire_view_def)
  have "\<not> is_request ?m" by (simp add: is_request_def m)
  have "fst (is_expected_response now ?m b (socket_cleanup now (socket p)))"
    using assms(7,8) remove_found [of now "inflight (socket p)" "transaction_id m" b]
    by (simp add: expected_response remove_socket_cleanup m does_match_def)
  then obtain s where r: "socket_recv_from (env_bencode env) now (FromV4 bs b) (socket p) = (Some (?m, b), s)"
    using assms(6) \<open>\<not> is_request ?m\<close> by (simp add: socket_recv_from_datagram delivered [OF assms(1-3)] Let_def)
  let ?flag = "is_inflight_query_request q (transaction_id m) \<and> (case request_type (iq_request q) of GetValueRequest _ \<Rightarrow> True | _ \<Rightarrow> False)"
  let ?d = "query_deliver (env_crypto env) (Response (response_view now resp)) ?flag (query_learn env now b ?m q)"
  have d: "snd ?d = Some x" using assms(12,13) query_learn_keeps [of env now b ?m q] by simp
  show ?thesis using d assms(5,9-12)
    by (simp add: rpc_handle_message_def r m rpc_handle_response_def find_value_def query_is_inflight_def Let_def case_prod_beta)
qed

section \<open>A stored value is found\<close>

text \<open>What a server answers to a get of a value or an item that it holds.\<close>

lemma immutable_answer:
  assumes "stores_ok (env_stores env)" "lru_lookup (st_immutable (env_stores env)) (immutable_values (rpc_server p)) t = Some v"
    and "srv_filter (rpc_server p) req a" "request_type req = GetValueRequest \<lparr>gvq_target = t, gvq_seq = None, gvq_salt = None\<rparr>"
  obtains tok nodes srv where "answer_of env now a req p = (Some (Response (GetImmutableResponse
     \<lparr>gir_responder_id = rpc_id p, gir_token = tok, gir_nodes = nodes, gir_v = v\<rparr>)), srv)"
proof -
  let ?r = "server_handle_request (env_crc env) (env_crypto env) (env_stores env) now (rpc_rng p) (routing_table p) a req (rpc_server p)"
  have c: "lru_cache (st_immutable (env_stores env))" using assms(1) by (simp add: stores_ok_def)
  have "fst (handle_get_value (env_crc env) (env_stores env) (routing_table p) a \<lparr>gvq_target = t, gvq_seq = None, gvq_salt = None\<rparr>
      (rpc_server p\<lparr>srv_tokens := tk\<rparr>)) = Response (GetImmutableResponse
     \<lparr>gir_responder_id = rpc_id p, gir_token = generate_token (env_crc env) tk a,
      gir_nodes = Some (rt_closest (env_crc env) (routing_table p) t), gir_v = v\<rparr>)" for tk
    using assms(2) by (subst get_immutable_answer [OF c]) (simp_all add: rpc_id_def)
  then have "\<exists>tok nodes. fst ?r = Some (Response (GetImmutableResponse
     \<lparr>gir_responder_id = rpc_id p, gir_token = tok, gir_nodes = nodes, gir_v = v\<rparr>))"
    unfolding get_request_run [OF assms(4,3)] by blast
  then show ?thesis using that by (fastforce simp: answer_of_def split: prod.splits)
qed

lemma mutable_answer:
  assumes "stores_ok (env_stores env)" "lru_lookup (st_mutable (env_stores env)) (mutable_values (rpc_server p)) t = Some item"
    and "srv_filter (rpc_server p) req a" "request_type req = GetValueRequest \<lparr>gvq_target = t, gvq_seq = seq, gvq_salt = None\<rparr>"
    and "case seq of Some s \<Rightarrow> s < mi_seq item
      | None \<Rightarrow> lru_lookup (st_immutable (env_stores env)) (immutable_values (rpc_server p)) t = None"
  obtains tok nodes srv where "answer_of env now a req p = (Some (Response (GetMutableResponse
     \<lparr>gmr_responder_id = rpc_id p, gmr_token = tok, gmr_nodes = nodes, gmr_v = mi_value item, gmr_k = mi_key item,
      gmr_seq = mi_seq item, gmr_sig = mi_signature item\<rparr>)), srv)"
proof -
  let ?r = "server_handle_request (env_crc env) (env_crypto env) (env_stores env) now (rpc_rng p) (routing_table p) a req (rpc_server p)"
  have c: "lru_cache (st_immutable (env_stores env))" "lru_cache (st_mutable (env_stores env))" using assms(1) by (simp_all add: stores_ok_def)
  have "\<exists>tok nodes. fst (handle_get_value (env_crc env) (env_stores env) (routing_table p) a \<lparr>gvq_target = t, gvq_seq = seq, gvq_salt = None\<rparr>
      (rpc_server p\<lparr>srv_tokens := tk\<rparr>)) = Response (GetMutableResponse
     \<lparr>gmr_responder_id = rpc_id p, gmr_token = tok, gmr_nodes = nodes, gmr_v = mi_value item, gmr_k = mi_key item,
      gmr_seq = mi_seq item, gmr_sig = mi_signature item\<rparr>)" for tk
    using assms(2,5) lru_cache.get_result [OF c(1), of "immutable_values (rpc_server p)" t] lru_cache.get_result [OF c(2), of "mutable_values (rpc_server p)" t]
    by (cases seq) (simp_all add: handle_get_value_def handle_get_mutable_def case_prod_beta Let_def rpc_id_def)
  then have "\<exists>tok nodes. fst ?r = Some (Response (GetMutableResponse
     \<lparr>gmr_responder_id = rpc_id p, gmr_token = tok, gmr_nodes = nodes, gmr_v = mi_value item, gmr_k = mi_key item,
      gmr_seq = mi_seq item, gmr_sig = mi_signature item\<rparr>))"
    unfolding get_request_run [OF assms(4,3)] by blast
  then show ?thesis using that by (fastforce simp: answer_of_def split: prod.splits)
qed

text \<open>The request that a query sends for a get.\<close>

fun get_request_type :: "get_request_specific \<Rightarrow> request_type_specific" where
  "get_request_type (GetFindNode a) = FindNodeRequest a"
| "get_request_type (GetGetPeers a) = GetPeersRequest a"
| "get_request_type (GetGetValue a) = GetValueRequest a"

lemma query_new_request: "request_type (iq_request (query_new rid t request)) = get_request_type request"
  by (cases request) (simp_all add: query_new_def)

text \<open>The whole exchange, for any get but find_node: the datagram is answered once, and the answer makes the node report what the query makes
  of it to the one caller.\<close>

lemma get_exchange:
  assumes "env_ok env" "bencode_inverts (env_bencode env)" "server_mode (socket p)"
    and "iterative_queries (act_rpc a) = []" "put_queries (act_rpc a) = []" "get_senders a = []" "get_request_target request = target"
    and "actor_receive env t0 (ActorGet request sender) a = Some a1"
    and "(server_addr, m) \<in> set (drop (length (outbox (socket (act_rpc a)))) (outbox (socket (act_rpc a1))))"
    and "length (outbox (socket (act_rpc a1))) \<le> length (outbox (socket (act_rpc a))) + 2 ^ 32"
    and "message_type m = Request req" "request_type req \<noteq> PingRequest"
    and "message_to_bytes (env_bencode env) m = Inr bs" "length bs \<le> MTU" "sa_port from_addr \<noteq> 0" "sa_port server_addr \<noteq> 0"
    and no_find: "\<And>f. request \<noteq> GetFindNode f"
    and answer: "\<And>req'. request_type req' = request_view (get_request_type request) \<Longrightarrow>
      \<exists>resp srv. answer_of env t1 from_addr req' p = (Some (Response resp), srv) \<and>
        (\<forall>q' flag now. query_target q' = target \<longrightarrow> request_type (iq_request q') = get_request_type request \<longrightarrow>
           snd (query_deliver (env_crypto env) (Response (response_view now resp)) flag q') = Some x)"
  obtains ans p' where "rpc_handle_message env t1 (FromV4 bs from_addr) p = (None, p')" "outbox (socket p') = outbox (socket p) @ [(from_addr, ans)]"
    "\<And>t2 bs'. message_to_bytes (env_bencode env) ans = Inr bs' \<Longrightarrow> length bs' \<le> MTU \<Longrightarrow>
       elapsed t2 t0 < timeout (inflight (socket (act_rpc a))) \<Longrightarrow>
       \<exists>p1. rpc_handle_message env t2 (FromV4 bs' server_addr) (act_rpc a1) = (Some (target, x), p1)"
    "get_senders a1 = [(target, [sender])]" "sent_log a1 = sent_log a"
proof -
  obtain res p1 where g: "rpc_get env t0 request None (act_rpc a) = (res, p1)" by fastforce
  obtain q where q: "res = None" "put_queries p1 = put_queries (act_rpc a)" "iterative_queries p1 = [(get_request_target request, q)]"
    "query_target q = get_request_target request" "iq_request q = iq_request (query_new (rpc_id (act_rpc a)) (get_request_target request) request)"
    "tracked (length (outbox (socket (act_rpc a)))) t0 (set (iq_inflight_requests q)) (socket p1)"
    "timeout (inflight (socket p1)) = timeout (inflight (socket (act_rpc a)))"
    and kinds: "\<And>b m r. (b, m) \<in> set (drop (length (outbox (socket (act_rpc a)))) (outbox (socket p1))) \<Longrightarrow> message_type m = Request r \<Longrightarrow>
       request_type r = request_type (iq_request q) \<or> request_type r = PingRequest"
    by (rule idle_get [OF assms(4) g]) blast
  have query: "put_queries p1 = []" "iterative_queries p1 = [(target, q)]" "query_target q = target"
    "request_type (iq_request q) = get_request_type request"
    using q assms(5,7) by (simp_all add: query_new_request)
  have a1: "act_rpc a1 = p1" "get_senders a1 = [(target, [sender])]" "sent_log a1 = sent_log a"
    using assms(6-8) g q(1) by (auto simp: actor_receive_def push_sender_def)
  have req: "request_type req = get_request_type request"
    using kinds [OF _ assms(11)] assms(9,12) query(4) a1(1) by simp
  have waits: "transaction_id m \<in> set (iq_inflight_requests q)"
    "requests (inflight (socket p1)) (transaction_id m) = Some \<lparr>ir_to = server_addr, ir_sent_at = t0\<rparr>"
    using tracked_member [OF q(6), of server_addr m] assms(9,10) a1(1) by simp_all
  let ?req = "req\<lparr>request_type := request_view (request_type req)\<rparr>"
  have wire: "message_type (wire_view t1 m) = Request ?req" by (simp add: wire_view_def assms(11))
  have vreq: "request_type ?req = request_view (get_request_type request)" by (simp add: req)
  have kind: "request_type ?req \<noteq> FindNodeRequest f" "request_type ?req \<noteq> PingRequest" for f
    using no_find by (cases request; simp add: vreq)+
  obtain resp srv where ans: "answer_of env t1 from_addr ?req p = (Some (Response resp), srv)"
    and delivers: "\<And>q' flag now. query_target q' = target \<Longrightarrow> request_type (iq_request q') = get_request_type request \<Longrightarrow>
           snd (query_deliver (env_crypto env) (Response (response_view now resp)) flag q') = Some x"
    using answer [OF vreq] by blast
  let ?answer = "response_message (Response resp) from_addr (transaction_id m) (socket p)"
  obtain p' where p': "rpc_handle_message env t1 (FromV4 bs from_addr) p = (None, p')"
    "outbox (socket p') = outbox (socket p) @ [(from_addr, ?answer)]"
    by (rule request_answered [OF assms(2,13,14) wire assms(15,3) kind ans]) simp_all
  have found: "fst (rpc_handle_message env t2 (FromV4 bs' server_addr) p1) = Some (target, x)"
    if "message_to_bytes (env_bencode env) ?answer = Inr bs'" "length bs' \<le> MTU" "elapsed t2 t0 < timeout (inflight (socket (act_rpc a)))" for t2 bs'
    by (rule answer_delivered [OF assms(2) that(1,2) _ _ assms(16), where q = q])
      (use query waits q(7) that(3) assms(3) delivers in \<open>auto simp: response_message_def\<close>)
  have "\<exists>p2. rpc_handle_message env t2 (FromV4 bs' server_addr) (act_rpc a1) = (Some (target, x), p2)"
    if "message_to_bytes (env_bencode env) ?answer = Inr bs'" "length bs' \<le> MTU" "elapsed t2 t0 < timeout (inflight (socket (act_rpc a)))" for t2 bs'
    using found [OF that] a1(1) by (metis prod.collapse)
  then show ?thesis using that p' a1(2,3) by blast
qed

lemma found_received:
  assumes "get_senders a = [(t, [sender])]" "received c a = []"
  shows "received c (report_response (Some (t, x)) a) = map snd (filter (\<lambda>(c', _). c' = c) (actor_send sender x))"
  using assms by (simp add: report_response_def actor_log_def received_def)

text \<open>C4: a stored value is found. A caller asks its node, which runs no other query, for an immutable value; one of the datagrams that
  the node sends arrives at a server that holds the value. Then the server sends one answer back, and when that arrives
  before the request times out, the caller's \<open>get_immutable\<close> returns the value.\<close>

theorem stored_value_is_found:
  assumes "env_ok env" "bencode_inverts (env_bencode env)"
    and "server_inv (env_crypto env) (env_stores env) (rpc_server p)" "server_mode (socket p)" "\<And>req. srv_filter (rpc_server p) req from_addr"
    and "lru_lookup (st_immutable (env_stores env)) (immutable_values (rpc_server p)) target = Some v"
    and "iterative_queries (act_rpc a) = []" "put_queries (act_rpc a) = []" "get_senders a = []" "received c a = []"
    and "actor_receive env t0 (get_immutable_request target c) a = Some a1"
    and "(server_addr, m) \<in> set (drop (length (outbox (socket (act_rpc a)))) (outbox (socket (act_rpc a1))))"
    and "length (outbox (socket (act_rpc a1))) \<le> length (outbox (socket (act_rpc a))) + 2 ^ 32"
    and "message_type m = Request req" "request_type req \<noteq> PingRequest"
    and "message_to_bytes (env_bencode env) m = Inr bs" "length bs \<le> MTU" "sa_port from_addr \<noteq> 0" "sa_port server_addr \<noteq> 0"
  shows "\<exists>answer p'. rpc_handle_message env t1 (FromV4 bs from_addr) p = (None, p') \<and>
    outbox (socket p') = outbox (socket p) @ [(from_addr, answer)] \<and>
    (\<forall>t2 bs'. message_to_bytes (env_bencode env) answer = Inr bs' \<longrightarrow> length bs' \<le> MTU \<longrightarrow>
       elapsed t2 t0 < timeout (inflight (socket (act_rpc a))) \<longrightarrow>
       (case rpc_handle_message env t2 (FromV4 bs' server_addr) (act_rpc a1) of
          (found, p1) \<Rightarrow> recv_immutable (received c (report_response found (a1\<lparr>act_rpc := p1\<rparr>))) = Some v))"
proof -
  let ?get = "GetGetValue \<lparr>gvq_target = target, gvq_seq = None, gvq_salt = None\<rparr>"
  have stores: "stores_ok (env_stores env)" using assms(1) by (simp add: env_ok_def)
  have valid: "validate_immutable (env_crypto env) v target"
    using assms(3,6) map_of_SomeD by (fastforce simp: server_inv_def lru_lookup_def list_all_iff immutable_ok_def)
  have "\<exists>resp srv. answer_of env t1 from_addr req' p = (Some (Response resp), srv) \<and>
        (\<forall>q' flag now. query_target q' = target \<longrightarrow> request_type (iq_request q') = get_request_type ?get \<longrightarrow>
           snd (query_deliver (env_crypto env) (Response (response_view now resp)) flag q') = Some (ImmutableFound v))"
    if "request_type req' = request_view (get_request_type ?get)" for req'
    by (rule immutable_answer [OF stores assms(6) assms(5), of req' t1]) (use that in \<open>auto simp: query_deliver_def Let_def valid\<close>)
  note exchange = get_exchange [OF assms(1,2,4,7-9) _ assms(11) [unfolded get_immutable_request_def] assms(12-19) _ this]
  obtain answer p' where e: "rpc_handle_message env t1 (FromV4 bs from_addr) p = (None, p')"
    "outbox (socket p') = outbox (socket p) @ [(from_addr, answer)]"
    "\<And>t2 bs'. message_to_bytes (env_bencode env) answer = Inr bs' \<Longrightarrow> length bs' \<le> MTU \<Longrightarrow>
       elapsed t2 t0 < timeout (inflight (socket (act_rpc a))) \<Longrightarrow>
       \<exists>p1. rpc_handle_message env t2 (FromV4 bs' server_addr) (act_rpc a1) = (Some (target, ImmutableFound v), p1)"
    "get_senders a1 = [(target, [ImmutableSender c])]" "sent_log a1 = sent_log a" by (rule exchange) (simp | assumption | rule that)+
  have "recv_immutable (received c (report_response (Some (target, ImmutableFound v)) (a1\<lparr>act_rpc := p1\<rparr>))) = Some v" for p1
    using found_received [of "a1\<lparr>act_rpc := p1\<rparr>" target "ImmutableSender c" c "ImmutableFound v"] e(4,5) assms(10)
    by (simp add: actor_send_def recv_immutable_def received_def [of c "a1\<lparr>act_rpc := p1\<rparr>"] received_def [of c a])
  note returned = this
  have "(case rpc_handle_message env t2 (FromV4 bs' server_addr) (act_rpc a1) of
      (found, p1) \<Rightarrow> recv_immutable (received c (report_response found (a1\<lparr>act_rpc := p1\<rparr>))) = Some v)"
    if "message_to_bytes (env_bencode env) answer = Inr bs'" "length bs' \<le> MTU" "elapsed t2 t0 < timeout (inflight (socket (act_rpc a)))" for t2 bs'
    using e(3) [OF that] by (elim exE) (simp only: prod.case returned)
  then show ?thesis by (intro exI [of _ answer] exI [of _ p'] conjI allI impI e(1,2))
qed

text \<open>C5: a stored mutable item is found, in the same way, by a caller who knows its key and its salt and no item of the same or a newer
  sequence number: the first item that \<open>get_mutable\<close> yields is the stored one, salt included, although neither the request nor the answer carries
  the salt.\<close>

theorem stored_item_is_found:
  assumes "env_ok env" "bencode_inverts (env_bencode env)"
    and "server_inv (env_crypto env) (env_stores env) (rpc_server p)" "server_mode (socket p)" "\<And>req. srv_filter (rpc_server p) req from_addr"
    and "target = target_from_key (env_crypto env) (mi_key item) (mi_salt item)"
    and "lru_lookup (st_mutable (env_stores env)) (mutable_values (rpc_server p)) target = Some item"
    and "case known of Some s \<Rightarrow> s < mi_seq item
      | None \<Rightarrow> lru_lookup (st_immutable (env_stores env)) (immutable_values (rpc_server p)) target = None"
    and "iterative_queries (act_rpc a) = []" "put_queries (act_rpc a) = []" "get_senders a = []" "received c a = []"
    and "actor_receive env t0 (get_mutable_request (env_crypto env) (mi_key item) (mi_salt item) known c) a = Some a1"
    and "(server_addr, m) \<in> set (drop (length (outbox (socket (act_rpc a)))) (outbox (socket (act_rpc a1))))"
    and "length (outbox (socket (act_rpc a1))) \<le> length (outbox (socket (act_rpc a))) + 2 ^ 32"
    and "message_type m = Request req" "request_type req \<noteq> PingRequest"
    and "message_to_bytes (env_bencode env) m = Inr bs" "length bs \<le> MTU" "sa_port from_addr \<noteq> 0" "sa_port server_addr \<noteq> 0"
  shows "\<exists>answer p'. rpc_handle_message env t1 (FromV4 bs from_addr) p = (None, p') \<and>
    outbox (socket p') = outbox (socket p) @ [(from_addr, answer)] \<and>
    (\<forall>t2 bs'. message_to_bytes (env_bencode env) answer = Inr bs' \<longrightarrow> length bs' \<le> MTU \<longrightarrow>
       elapsed t2 t0 < timeout (inflight (socket (act_rpc a))) \<longrightarrow>
       (case rpc_handle_message env t2 (FromV4 bs' server_addr) (act_rpc a1) of
          (found, p1) \<Rightarrow> mutable_items (received c (report_response found (a1\<lparr>act_rpc := p1\<rparr>))) = [item]))"
proof -
  let ?get = "GetGetValue \<lparr>gvq_target = target, gvq_seq = known, gvq_salt = mi_salt item\<rparr>"
  have stores: "stores_ok (env_stores env)" using assms(1) by (simp add: env_ok_def)
  have valid: "from_dht_message (env_crypto env) target (mi_key item) (mi_value item) (mi_seq item) (mi_signature item) (mi_salt item) = Inr item"
    using assms(3,7) map_of_SomeD by (fastforce simp: server_inv_def lru_lookup_def list_all_iff mutable_ok_def Let_def)
  have "\<exists>resp srv. answer_of env t1 from_addr req' p = (Some (Response resp), srv) \<and>
        (\<forall>q' flag now. query_target q' = target \<longrightarrow> request_type (iq_request q') = get_request_type ?get \<longrightarrow>
           snd (query_deliver (env_crypto env) (Response (response_view now resp)) flag q') = Some (MutableFound item))"
    if "request_type req' = request_view (get_request_type ?get)" for req'
    by (rule mutable_answer [OF stores assms(7) assms(5) _ assms(8), of req' t1])
      (use that in \<open>auto simp: query_deliver_def query_salt_def Let_def valid\<close>)
  note exchange = get_exchange [OF assms(1,2,4,9-11) _ assms(13) [unfolded get_mutable_request_def assms(6) [symmetric]] assms(14-21) _ this]
  obtain answer p' where e: "rpc_handle_message env t1 (FromV4 bs from_addr) p = (None, p')"
    "outbox (socket p') = outbox (socket p) @ [(from_addr, answer)]"
    "\<And>t2 bs'. message_to_bytes (env_bencode env) answer = Inr bs' \<Longrightarrow> length bs' \<le> MTU \<Longrightarrow>
       elapsed t2 t0 < timeout (inflight (socket (act_rpc a))) \<Longrightarrow>
       \<exists>p1. rpc_handle_message env t2 (FromV4 bs' server_addr) (act_rpc a1) = (Some (target, MutableFound item), p1)"
    "get_senders a1 = [(target, [MutableSender c])]" "sent_log a1 = sent_log a" by (rule exchange) (simp | assumption | rule that)+
  have "mutable_items (received c (report_response (Some (target, MutableFound item)) (a1\<lparr>act_rpc := p1\<rparr>))) = [item]" for p1
    using found_received [of "a1\<lparr>act_rpc := p1\<rparr>" target "MutableSender c" c "MutableFound item"] e(4,5) assms(12)
    by (simp add: actor_send_def mutable_items_def List.map_filter_def received_def [of c "a1\<lparr>act_rpc := p1\<rparr>"] received_def [of c a])
  note returned = this
  have "(case rpc_handle_message env t2 (FromV4 bs' server_addr) (act_rpc a1) of
      (found, p1) \<Rightarrow> mutable_items (received c (report_response found (a1\<lparr>act_rpc := p1\<rparr>))) = [item])"
    if "message_to_bytes (env_bencode env) answer = Inr bs'" "length bs' \<le> MTU" "elapsed t2 t0 < timeout (inflight (socket (act_rpc a)))" for t2 bs'
    using e(3) [OF that] by (elim exE) (simp only: prod.case returned)
  then show ?thesis by (intro exI [of _ answer] exI [of _ p'] conjI allI impI e(1,2))
qed

lemma peers_answer:
  assumes "stores_ok (env_stores env)" "peers_of (st_peers (env_stores env)) (srv_peers (rpc_server p)) h \<noteq> []"
    and "\<And>req. srv_filter (rpc_server p) req a"
  obtains l where "\<And>req. request_type req = GetPeersRequest \<lparr>gpq_info_hash = h\<rparr> \<Longrightarrow> \<exists>tok srv. answer_of env now a req p = (Some (Response (GetPeersResponse
     \<lparr>gpr_responder_id = rpc_id p, gpr_token = tok, gpr_values = l, gpr_nodes = Some (rt_closest (env_crc env) (routing_table p) h)\<rparr>)), srv)"
    "subseq l (map snd (peers_of (st_peers (env_stores env)) (srv_peers (rpc_server p)) h))" "length l \<le> 10"
    "length (peers_of (st_peers (env_stores env)) (srv_peers (rpc_server p)) h) < 10 \<longrightarrow>
      l = map snd (peers_of (st_peers (env_stores env)) (srv_peers (rpc_server p)) h)"
proof -
  let ?tk = "tokens_refresh now (rpc_rng p) (srv_tokens (rpc_server p))"
  let ?srv = "rpc_server p\<lparr>srv_tokens := fst ?tk\<rparr>"
  have peers: "srv_peers ?srv = srv_peers (rpc_server p)" by simp
  then have ne: "peers_of (st_peers (env_stores env)) (srv_peers ?srv) h \<noteq> []" using assms(2) by simp
  obtain l where l: "fst (handle_get_peers (env_crc env) (env_stores env) (snd ?tk) (routing_table p) a h ?srv) = Response (GetPeersResponse
      \<lparr>gpr_responder_id = rt_id (routing_table p), gpr_token = generate_token (env_crc env) (srv_tokens ?srv) a, gpr_values = l,
       gpr_nodes = Some (rt_closest (env_crc env) (routing_table p) h)\<rparr>)"
    "subseq l (map snd (peers_of (st_peers (env_stores env)) (srv_peers (rpc_server p)) h))" "length l \<le> 10"
    "length (peers_of (st_peers (env_stores env)) (srv_peers (rpc_server p)) h) < 10 \<longrightarrow>
      l = map snd (peers_of (st_peers (env_stores env)) (srv_peers (rpc_server p)) h)"
    by (rule get_peers_answer [OF assms(1) ne, unfolded peers]) (rule that, assumption+)
  have "\<exists>tok srv. answer_of env now a req p = (Some (Response (GetPeersResponse
     \<lparr>gpr_responder_id = rpc_id p, gpr_token = tok, gpr_values = l, gpr_nodes = Some (rt_closest (env_crc env) (routing_table p) h)\<rparr>)), srv)"
    if "request_type req = GetPeersRequest \<lparr>gpq_info_hash = h\<rparr>" for req
    using get_peers_run [OF that assms(3), of "env_crc env" "env_crypto env" "env_stores env" now "rpc_rng p" "routing_table p"] l(1)
    by (simp add: answer_of_def case_prod_beta rpc_id_def)
  then show ?thesis using that l(2-4) by blast
qed

text \<open>C6: announced peers are found, in the same way. A caller asks for the peers of an info hash, and a server answers that has some. The caller's
  \<open>get_peers\<close> then yields one list of peers announced at that server: all of them when they are fewer than ten, otherwise at most ten.\<close>

theorem announced_peers_are_found:
  assumes "env_ok env" "bencode_inverts (env_bencode env)" "server_mode (socket p)" "\<And>req. srv_filter (rpc_server p) req from_addr"
    and "peers_of (st_peers (env_stores env)) (srv_peers (rpc_server p)) info_hash = peers" "peers \<noteq> []"
    and "iterative_queries (act_rpc a) = []" "put_queries (act_rpc a) = []" "get_senders a = []" "received c a = []"
    and "actor_receive env t0 (get_peers_request info_hash c) a = Some a1"
    and "(server_addr, m) \<in> set (drop (length (outbox (socket (act_rpc a)))) (outbox (socket (act_rpc a1))))"
    and "length (outbox (socket (act_rpc a1))) \<le> length (outbox (socket (act_rpc a))) + 2 ^ 32"
    and "message_type m = Request req" "request_type req \<noteq> PingRequest"
    and "message_to_bytes (env_bencode env) m = Inr bs" "length bs \<le> MTU" "sa_port from_addr \<noteq> 0" "sa_port server_addr \<noteq> 0"
  shows "\<exists>answer p' found. rpc_handle_message env t1 (FromV4 bs from_addr) p = (None, p') \<and>
    outbox (socket p') = outbox (socket p) @ [(from_addr, answer)] \<and>
    subseq found (map snd peers) \<and> length found \<le> 10 \<and> (length peers < 10 \<longrightarrow> found = map snd peers) \<and>
    (\<forall>t2 bs'. message_to_bytes (env_bencode env) answer = Inr bs' \<longrightarrow> length bs' \<le> MTU \<longrightarrow>
       elapsed t2 t0 < timeout (inflight (socket (act_rpc a))) \<longrightarrow>
       (case rpc_handle_message env t2 (FromV4 bs' server_addr) (act_rpc a1) of
          (report, p1) \<Rightarrow> received c (report_response report (a1\<lparr>act_rpc := p1\<rparr>)) = [SentPeers found]))"
proof -
  let ?get = "GetGetPeers \<lparr>gpq_info_hash = info_hash\<rparr>"
  have stores: "stores_ok (env_stores env)" using assms(1) by (simp add: env_ok_def)
  have ne: "peers_of (st_peers (env_stores env)) (srv_peers (rpc_server p)) info_hash \<noteq> []" using assms(5,6) by simp
  obtain l where l: "\<And>req. request_type req = GetPeersRequest \<lparr>gpq_info_hash = info_hash\<rparr> \<Longrightarrow> \<exists>tok srv. answer_of env t1 from_addr req p =
     (Some (Response (GetPeersResponse \<lparr>gpr_responder_id = rpc_id p, gpr_token = tok, gpr_values = l,
        gpr_nodes = Some (rt_closest (env_crc env) (routing_table p) info_hash)\<rparr>)), srv)"
    "subseq l (map snd peers)" "length l \<le> 10" "length peers < 10 \<longrightarrow> l = map snd peers"
    by (rule peers_answer [OF stores ne assms(4), of t1, unfolded assms(5)]) (rule that, assumption+)
  have "\<exists>resp srv. answer_of env t1 from_addr req' p = (Some (Response resp), srv) \<and>
        (\<forall>q' flag now. query_target q' = info_hash \<longrightarrow> request_type (iq_request q') = get_request_type ?get \<longrightarrow>
           snd (query_deliver (env_crypto env) (Response (response_view now resp)) flag q') = Some (PeersFound l))"
    if "request_type req' = request_view (get_request_type ?get)" for req'
  proof -
    have "request_type req' = GetPeersRequest \<lparr>gpq_info_hash = info_hash\<rparr>" using that by simp
    from l(1) [OF this] show ?thesis by (elim exE) (auto simp: query_deliver_def Let_def)
  qed
  note exchange = get_exchange [OF assms(1-3,7-9) _ assms(11) [unfolded get_peers_request_def] assms(12-19) _ this]
  obtain answer p' where e: "rpc_handle_message env t1 (FromV4 bs from_addr) p = (None, p')"
    "outbox (socket p') = outbox (socket p) @ [(from_addr, answer)]"
    "\<And>t2 bs'. message_to_bytes (env_bencode env) answer = Inr bs' \<Longrightarrow> length bs' \<le> MTU \<Longrightarrow>
       elapsed t2 t0 < timeout (inflight (socket (act_rpc a))) \<Longrightarrow>
       \<exists>p1. rpc_handle_message env t2 (FromV4 bs' server_addr) (act_rpc a1) = (Some (info_hash, PeersFound l), p1)"
    "get_senders a1 = [(info_hash, [PeersSender c])]" "sent_log a1 = sent_log a" by (rule exchange) (simp | assumption | rule that)+
  have returned: "received c (report_response (Some (info_hash, PeersFound l)) (a1\<lparr>act_rpc := p1\<rparr>)) = [SentPeers l]" for p1
    using found_received [of "a1\<lparr>act_rpc := p1\<rparr>" info_hash "PeersSender c" c "PeersFound l"] e(4,5) assms(10)
    by (simp add: actor_send_def received_def [of c "a1\<lparr>act_rpc := p1\<rparr>"] received_def [of c a])
  have "(case rpc_handle_message env t2 (FromV4 bs' server_addr) (act_rpc a1) of
      (report, p1) \<Rightarrow> received c (report_response report (a1\<lparr>act_rpc := p1\<rparr>)) = [SentPeers l])"
    if "message_to_bytes (env_bencode env) answer = Inr bs'" "length bs' \<le> MTU" "elapsed t2 t0 < timeout (inflight (socket (act_rpc a)))" for t2 bs'
    using e(3) [OF that] by (elim exE) (simp only: prod.case returned)
  then show ?thesis by (intro exI [of _ answer] exI [of _ p'] exI [of _ l] conjI allI impI e(1,2) l(2-4) [rule_format])
qed

section \<open>An acknowledged item is stored\<close>

lemma tracked_sends:
  "tracked k now (set (pq_inflight_requests q)) s \<Longrightarrow> fold (put_send now) ns (q, s, r) = (q', s', r') \<Longrightarrow>
     tracked k now (set (pq_inflight_requests q')) s'"
proof (induction ns arbitrary: q s r)
  case (Cons n ns)
  obtain q1 s1 r1 where p: "put_send now n (q, s, r) = (q1, s1, r1)" by (metis prod_cases3)
  have "tracked k now (set (pq_inflight_requests q1)) s1"
  proof (cases "node_token n")
    case (Some token)
    obtain rid r2 where "id_random r = (rid, r2)" by fastforce
    then show ?thesis using p tracked_request [OF Cons.prems(1), of "node_address n"] Some
      by (auto simp: put_send_def case_prod_beta Let_def)
  qed (use p Cons.prems(1) in \<open>simp add: put_send_def\<close>)
  then show ?case using Cons.IH [of q1 s1 r1] Cons.prems(2) p by simp
qed simp

text \<open>The messages of a put that has started.\<close>

lemma started_put:
  assumes "put_start now ns (put_query_new t request extra, s, r) = Some (Inr (), q1, s1, r1)"
  shows "tracked (length (outbox s)) now (set (pq_inflight_requests q1)) s1" "timeout (inflight s1) = timeout (inflight s)"
    and "\<And>b m req. (b, m) \<in> set (drop (length (outbox s)) (outbox s1)) \<Longrightarrow> message_type m = Request req \<Longrightarrow>
      \<exists>token. request_type req = PutRequestOf \<lparr>put_token = token, put_request_type = request\<rparr>"
proof -
  let ?q0 = "put_query_new t request extra"
  note f = put_start_Ok(2) [OF assms] and e = put_sends_effect [OF put_start_Ok(2) [OF assms]]
  show "tracked (length (outbox s)) now (set (pq_inflight_requests q1)) s1" using tracked_sends [OF tracked_start f] .
  show "timeout (inflight s1) = timeout (inflight s)" using e by simp
  let ?sent = "\<lambda>n. map_option (\<lambda>t. (node_address n, Some (PutRequestOf \<lparr>put_token = t, put_request_type = request\<rparr>))) (node_token n)"
  have "asked (outbox s1) = asked (outbox s) @ List.map_filter ?sent (ns @ pq_extra_nodes ?q0)"
    using e by (simp add: put_query_new_def)
  then have a: "asked (drop (length (outbox s)) (outbox s1)) = List.map_filter ?sent (ns @ pq_extra_nodes ?q0)"
    by (simp add: asked_def flip: drop_map)
  fix b m req
  assume m: "(b, m) \<in> set (drop (length (outbox s)) (outbox s1))" "message_type m = Request req"
  then have "(b, Some (request_type req)) \<in> set (asked (drop (length (outbox s)) (outbox s1)))" by (force simp: asked_def)
  then show "\<exists>token. request_type req = PutRequestOf \<lparr>put_token = token, put_request_type = request\<rparr>"
    unfolding a by (auto simp: List.map_filter_def)
qed

text \<open>What a node does with the answer to a put.\<close>

lemma put_answer_counted:
  assumes "bencode_inverts (env_bencode env)" "message_to_bytes (env_bencode env) m = Inr bs" "length bs \<le> MTU"
    and "\<And>r. message_type m \<noteq> Request r" "\<not> read_only m" "sa_port b \<noteq> 0"
    and "requests (inflight (socket p)) (transaction_id m) = Some \<lparr>ir_to = b, ir_sent_at = t0\<rparr>"
    and "elapsed now t0 < timeout (inflight (socket p))" "put_queries p = [(t, q)]" "transaction_id m \<in> set (pq_inflight_requests q)"
  shows "put_queries (snd (rpc_handle_message env now (FromV4 bs b) p)) = [(t, case type_view now (message_type m) of
      Response (PingResponse _) \<Rightarrow> put_on_success q | ErrorMessage err \<Rightarrow> put_on_error err q | _ \<Rightarrow> q)]"
proof -
  let ?m = "wire_view now m"
  have m: "transaction_id ?m = transaction_id m" "read_only ?m = read_only m" "message_type ?m = type_view now (message_type m)"
    by (simp_all add: wire_view_def)
  have "(\<exists>resp. message_type m = Response resp) \<or> (\<exists>err. message_type m = ErrorMessage err)"
    using assms(4) by (cases "message_type m") blast+
  then have nr: "type_view now (message_type m) \<noteq> Request r" for r by auto
  have "\<not> is_request ?m" using nr by (simp add: is_request_def m split: message_type.split)
  have "fst (is_expected_response now ?m b (socket_cleanup now (socket p)))"
    using assms(7,8) remove_found [of now "inflight (socket p)" "transaction_id m" b]
    by (simp add: expected_response remove_socket_cleanup m does_match_def)
  then obtain s where r: "socket_recv_from (env_bencode env) now (FromV4 bs b) (socket p) = (Some (?m, b), s)"
    using assms(6) \<open>\<not> is_request ?m\<close> by (simp add: socket_recv_from_datagram delivered [OF assms(1-3)] Let_def)
  have "(\<exists>resp. type_view now (message_type m) = Response resp) \<or> (\<exists>err. type_view now (message_type m) = ErrorMessage err)"
    using nr by (cases "type_view now (message_type m)") blast+
  then show ?thesis using assms(5,9,10)
    by (elim disjE exE) (simp_all add: rpc_handle_message_def r m rpc_handle_response_def find_value_def put_inflight_def)
qed

text \<open>The item or peer of a put is in a server's store. An announcement that names an implied port, whatever its value, registers the address it came from.\<close>

definition holds_item ::
  "('pc, 'ic, 'im, 'mu) stores \<Rightarrow> sock_addr \<Rightarrow> id \<Rightarrow> put_request_specific \<Rightarrow> ('ic, 'im, 'mu) server \<Rightarrow> bool" where
  "holds_item st from_addr rid request srv \<longleftrightarrow> (case request of
      PutImmutable a \<Rightarrow> lru_lookup (st_immutable st) (immutable_values srv) (pi_target a) = Some (pi_v a)
    | PutMutable a \<Rightarrow> lru_lookup (st_mutable st) (mutable_values srv) (pm_target a) =
        Some \<lparr>mi_target = pm_target a, mi_key = pm_k a, mi_seq = pm_seq a, mi_value = pm_v a, mi_signature = pm_sig a, mi_salt = pm_salt a\<rparr>
    | AnnouncePeer a \<Rightarrow> map_of (peers_of (st_peers st) (srv_peers srv) (ap_info_hash a)) rid =
        Some (if ap_implied_port a \<noteq> None then from_addr else sock_addr_new (sa_ip from_addr) (ap_port a)))"

lemma handle_put_answers: "fst (handle_put crc cr st rt a rid p srv) = ping_answer rt \<or> (\<exists>err. fst (handle_put crc cr st rt a rid p srv) = ErrorMessage err)"
  by (auto simp: handle_put_def handle_announce_peer_def handle_put_immutable_def handle_put_mutable_def store_mutable_def error_answer_def
    Let_def split: put_request_specific.split prod.split option.split sum.split)

lemma put_answer_of:
  assumes "stores_ok (env_stores env)" "server_inv (env_crypto env) (env_stores env) (rpc_server p)" "srv_filter (rpc_server p) req a"
    and "request_type req = PutRequestOf \<lparr>put_token = token, put_request_type = put_view request\<rparr>"
    and "server_peers_ok (env_stores env) (rpc_server p)"
  obtains ans srv where "answer_of env now a req p = (Some ans, srv)"
    "ans = ping_answer (routing_table p) \<and> holds_item (env_stores env) a (requester_id req) request srv \<or> (\<exists>err. ans = ErrorMessage err)"
proof -
  let ?r = "server_handle_request (env_crc env) (env_crypto env) (env_stores env) now (rpc_rng p) (routing_table p) a req (rpc_server p)"
  obtain ans where ans: "fst ?r = Some ans" using assms(3,4) by (auto simp: server_handle_request_def case_prod_beta Let_def)
  obtain tk where h: "ans = fst (handle_put (env_crc env) (env_crypto env) (env_stores env) (routing_table p) a (requester_id req)
      \<lparr>put_token = token, put_request_type = put_view request\<rparr> (rpc_server p\<lparr>srv_tokens := tk\<rparr>))"
    "fst (snd ?r) = snd (handle_put (env_crc env) (env_crypto env) (env_stores env) (routing_table p) a (requester_id req)
      \<lparr>put_token = token, put_request_type = put_view request\<rparr> (rpc_server p\<lparr>srv_tokens := tk\<rparr>))"
    by (rule put_request_split [OF assms(4) ans])
  have lru: "lru_cache (st_immutable (env_stores env))" "lru_cache (st_mutable (env_stores env))" using assms(1) by (simp_all add: stores_ok_def)
  have cap: "0 < lru_cap (st_immutable (env_stores env)) (immutable_values (rpc_server p))"
    "0 < lru_cap (st_mutable (env_stores env)) (mutable_values (rpc_server p))" using assms(2) by (simp_all add: server_inv_def)
  have stored: "holds_item (env_stores env) a (requester_id req) request (fst (snd ?r))" if "ans = ping_answer (routing_table p)"
  proof (cases request)
    case (AnnouncePeer x)
    have "server_peers_ok (env_stores env) (rpc_server p\<lparr>srv_tokens := tk\<rparr>)" using assms(5) by (simp add: server_peers_ok_def)
    note found = announce_stored [OF assms(1) this, of "env_crc env" "routing_table p" a "requester_id req" token
        "x\<lparr>ap_implied_port := Some (ap_implied_port x \<noteq> None)\<rparr>"]
    show ?thesis using that found unfolding h holds_item_def
      by (auto simp: AnnouncePeer handle_put_def announced_address_def)
  qed (use that cap in \<open>simp_all add: h holds_item_def handle_put_def put_immutable_stored [OF lru(1)] put_mutable_stored [OF lru(2)]\<close>)
  have "answer_of env now a req p = (Some ans, fst (snd ?r))" using ans by (simp add: answer_of_def case_prod_beta)
  then show ?thesis using that stored handle_put_answers h(1) by metis
qed

text \<open>C7: an acknowledged item is stored. A node has started to put an item and one of its datagrams arrives at a server. The
  server sends one answer; when that arrives in time, either the put counts one more node that stored the item, and
  the server holds exactly that item, or the put records the server's error.\<close>

theorem acknowledged_item_is_stored:
  assumes "env_ok env" "bencode_inverts (env_bencode env)"
    and "server_inv (env_crypto env) (env_stores env) (rpc_server p)" "server_mode (socket p)" "\<And>req. srv_filter (rpc_server p) req from_addr"
    and "put_start t0 ns (put_query_new target request extra, s, r) = Some (Inr (), q, s1, r1)" "server_peers_ok (env_stores env) (rpc_server p)"
    and "socket w = s1" "put_queries w = [(target, q)]" "length (outbox s1) \<le> length (outbox s) + 2 ^ 32"
    and "(server_addr, m) \<in> set (drop (length (outbox s)) (outbox s1))" "message_type m = Request req"
    and "message_to_bytes (env_bencode env) m = Inr bs" "length bs \<le> MTU" "sa_port from_addr \<noteq> 0" "sa_port server_addr \<noteq> 0"
  shows "\<exists>answer p'. rpc_handle_message env t1 (FromV4 bs from_addr) p = (None, p') \<and>
    outbox (socket p') = outbox (socket p) @ [(from_addr, answer)] \<and>
    (\<forall>t2 bs'. message_to_bytes (env_bencode env) answer = Inr bs' \<longrightarrow> length bs' \<le> MTU \<longrightarrow>
       elapsed t2 t0 < timeout (inflight s) \<longrightarrow>
       (let w' = snd (rpc_handle_message env t2 (FromV4 bs' server_addr) w)
        in put_queries w' = [(target, put_on_success q)] \<and> holds_item (env_stores env) from_addr (requester_id req) request (rpc_server p') \<or>
           (\<exists>err. message_type answer = ErrorMessage err \<and> put_queries w' = [(target, put_on_error err q)])))"
proof -
  note started = started_put [OF assms(6)]
  obtain token where token: "request_type req = PutRequestOf \<lparr>put_token = token, put_request_type = request\<rparr>"
    using started(3) [OF assms(11,12)] by blast
  have waits: "transaction_id m \<in> set (pq_inflight_requests q)"
    "requests (inflight (socket w)) (transaction_id m) = Some \<lparr>ir_to = server_addr, ir_sent_at = t0\<rparr>"
    using tracked_member [OF started(1) assms(11,10)] assms(8) by simp_all
  let ?req = "req\<lparr>request_type := request_view (request_type req)\<rparr>"
  have seen: "message_type (wire_view t1 m) = Request ?req" by (simp add: wire_view_def assms(12))
  have vreq: "request_type ?req = PutRequestOf \<lparr>put_token = token, put_request_type = put_view request\<rparr>" by (simp add: token)
  have stores: "stores_ok (env_stores env)" using assms(1) by (simp add: env_ok_def)
  obtain ans srv where ans: "answer_of env t1 from_addr ?req p = (Some ans, srv)"
    "ans = ping_answer (routing_table p) \<and> holds_item (env_stores env) from_addr (requester_id req) request srv \<or> (\<exists>err. ans = ErrorMessage err)"
    by (rule put_answer_of [OF stores assms(3) assms(5) vreq assms(7)]) (use that in simp)
  have nr: "ans \<noteq> Request x" for x using ans(2) by (auto simp: ping_answer_def)
  let ?answer = "response_message ans from_addr (transaction_id m) (socket p)"
  obtain p' where p': "rpc_handle_message env t1 (FromV4 bs from_addr) p = (None, p')" "rpc_server p' = srv"
    "outbox (socket p') = outbox (socket p) @ [(from_addr, ?answer)]"
    by (rule request_answered [OF assms(2,13,14) seen assms(15,4) _ _ ans(1) nr]) (simp_all add: vreq)
  have counted: "put_queries (snd (rpc_handle_message env t2 (FromV4 bs' server_addr) w)) = [(target, case type_view t2 ans of
      Response (PingResponse _) \<Rightarrow> put_on_success q | ErrorMessage err \<Rightarrow> put_on_error err q | _ \<Rightarrow> q)]"
    if "message_to_bytes (env_bencode env) ?answer = Inr bs'" "length bs' \<le> MTU" "elapsed t2 t0 < timeout (inflight s)" for t2 bs'
    using put_answer_counted [OF assms(2) that(1,2) _ _ assms(16), of w t0 t2 target q] nr waits that(3) assms(4,8,9) started(2)
    by (simp add: response_message_def)
  have "(let w' = snd (rpc_handle_message env t2 (FromV4 bs' server_addr) w)
        in put_queries w' = [(target, put_on_success q)] \<and> holds_item (env_stores env) from_addr (requester_id req) request (rpc_server p') \<or>
           (\<exists>err. message_type ?answer = ErrorMessage err \<and> put_queries w' = [(target, put_on_error err q)]))"
    if "message_to_bytes (env_bencode env) ?answer = Inr bs'" "length bs' \<le> MTU" "elapsed t2 t0 < timeout (inflight s)" for t2 bs'
    using counted [OF that] ans(2) p'(2) by (auto simp: Let_def ping_answer_def response_message_def)
  then show ?thesis by (intro exI [of _ ?answer] exI [of _ p'] conjI allI impI p') blast
qed

section \<open>A concrete exchange\<close>

text \<open>A codec for two messages, an asking node that knows one address, and a server behind it that holds one value.\<close>

definition wit_pair_codec :: "message \<Rightarrow> message \<Rightarrow> unit bencode" where
  "wit_pair_codec m m' =
     \<lparr>bencode_to_bytes = (\<lambda>d. if d = into_serde_message m then Inr (100 # replicate 15 0)
        else if d = into_serde_message m' then Inr (100 # replicate 15 1) else Inl ()),
      bencode_from_bytes = (\<lambda>bs. if bs = 100 # replicate 15 0 then Inr (into_serde_message m) else Inr (into_serde_message m'))\<rparr>"

lemma wit_pair_codec_inverts: "bencode_inverts (wit_pair_codec m m')"
  by (simp add: bencode_inverts_def wit_pair_codec_def)

definition wit_question :: message where
  "wit_question = \<lparr>transaction_id = 0, version = Some VERSION, requester_ip = None, message_type = Request
     \<lparr>requester_id = rpc_id wit_rpc0, request_type = GetValueRequest \<lparr>gvq_target = wit_target, gvq_seq = None, gvq_salt = None\<rparr>\<rparr>,
     read_only = True\<rparr>"

text \<open>Two servers: the first holds an immutable value at the target, the second a mutable item whose key, in the witness's
  hash, has the same target.\<close>

definition wit_server_rpc where
  "wit_server_rpc = wit_rpc0\<lparr>socket := (socket wit_rpc0)\<lparr>server_mode := True\<rparr>\<rparr>"

definition wit_holder where
  "wit_holder = wit_server_rpc\<lparr>rpc_server := (rpc_server wit_rpc0)\<lparr>immutable_values := (1000, [(wit_target, [1])])\<rparr>\<rparr>"

abbreviation wit_held_key :: bytes where
  "wit_held_key \<equiv> 49 # 58 # 1 # replicate 29 0"

definition wit_held_item :: mutable_item where
  "wit_held_item = new_signed_unchecked wit_crypto wit_held_key (sign wit_crypto [] (encode_signable 3 [1] None)) [1] 3 None"

definition wit_keeper where
  "wit_keeper = wit_server_rpc\<lparr>rpc_server := (rpc_server wit_rpc0)\<lparr>mutable_values := (1000, [(wit_target, wit_held_item)])\<rparr>\<rparr>"

abbreviation wit_token_of where
  "wit_token_of p \<equiv> generate_token (\<lambda>_. 0) (fst (tokens_refresh 11 (rpc_rng p) (srv_tokens (rpc_server p)))) (sock_addr_new 2 3)"

definition wit_reply :: message where
  "wit_reply = response_message (Response (GetImmutableResponse \<lparr>gir_responder_id = rpc_id wit_holder, gir_token = wit_token_of wit_holder,
     gir_nodes = Some (rt_closest (\<lambda>_. 0) (routing_table wit_holder) wit_target), gir_v = [1]\<rparr>)) (sock_addr_new 2 3) 0 (socket wit_holder)"

definition wit_item_reply :: message where
  "wit_item_reply = response_message (Response (GetMutableResponse \<lparr>gmr_responder_id = rpc_id wit_keeper, gmr_token = wit_token_of wit_keeper,
     gmr_nodes = Some (rt_closest (\<lambda>_. 0) (routing_table wit_keeper) wit_target), gmr_v = [1], gmr_k = wit_held_key, gmr_seq = 3,
     gmr_sig = mi_signature wit_held_item\<rparr>)) (sock_addr_new 2 3) 0 (socket wit_keeper)"

definition wit_net_env where
  "wit_net_env m reply = wit_env\<lparr>env_bencode := wit_pair_codec m reply\<rparr>"

lemma wit_net_env_simps:
  "env_ok (wit_net_env m r)" "bencode_inverts (env_bencode (wit_net_env m r))" "env_crypto (wit_net_env m r) = wit_crypto"
  "env_stores (wit_net_env m r) = wit_stores" "env_crc (wit_net_env m r) = (\<lambda>_. 0)"
  "message_to_bytes (env_bencode (wit_net_env m r)) m = Inr (100 # replicate 15 0)"
  using wit_env_ok
  by (simp_all add: wit_net_env_def env_ok_def wit_pair_codec_inverts wit_env_def message_to_bytes_def) (simp add: wit_pair_codec_def)

lemma wit_net_env_ask:
  "actor_receive (wit_net_env wit_question r) 10 (ActorGet (GetGetValue \<lparr>gvq_target = wit_target, gvq_seq = None, gvq_salt = None\<rparr>) sender) (actor_new wit_rpcb) =
     Some (actor_new (wit_rpcb\<lparr>socket := fst (snd wit_visit), rpc_rng := snd (snd wit_visit), cached_iterative_queries := (1000, []),
        iterative_queries := [(wit_target, fst wit_visit)]\<rparr>)\<lparr>get_senders := [(wit_target, [sender])]\<rparr>)"
proof -
  have parts: "env_crc (wit_net_env wit_question r) = env_crc wit_env" "env_cache (wit_net_env wit_question r) = env_cache wit_env"
    "average_subnets (wit_net_env wit_question r) = average_subnets wit_env"
    by (simp_all add: wit_net_env_def average_subnets_def cached_len_def fun_eq_iff)
  have "rpc_get (wit_net_env wit_question r) now request extra p = rpc_get wit_env now request extra p" for now request extra p
    unfolding rpc_get_def parts ..
  then show ?thesis by (simp add: actor_receive_def wit_rpcb_get actor_new_def push_sender_def)
qed

lemma wit_net_outbox: "outbox (fst (snd wit_visit)) = outbox (socket wit_rpc0) @ [(wit_address, wit_question),
    (wit_address, \<lparr>transaction_id = 1, version = Some VERSION, requester_ip = None,
       message_type = Request \<lparr>requester_id = fst (id_random (rpc_rng wit_rpc0)), request_type = PingRequest\<rparr>, read_only = True\<rparr>)]"
  by (simp add: wit_visit_def query_visit_socket socket_request_outbox wit_rpc0_fields wit_question_def)
    (simp add: query_new_def wit_rpc0_def rpc_new_def socket_new_def socket_bind_def config_default_def Let_def case_prod_beta)

lemma wit_asker:
  obtains a1 where
    "actor_receive (wit_net_env wit_question r) 10 (ActorGet (GetGetValue \<lparr>gvq_target = wit_target, gvq_seq = None, gvq_salt = None\<rparr>) sender) (actor_new wit_rpcb) = Some a1"
    "outbox (socket (act_rpc a1)) = outbox (socket (act_rpc (actor_new wit_rpcb))) @ [(wit_address, wit_question),
      (wit_address, \<lparr>transaction_id = 1, version = Some VERSION, requester_ip = None,
         message_type = Request \<lparr>requester_id = fst (id_random (rpc_rng wit_rpc0)), request_type = PingRequest\<rparr>, read_only = True\<rparr>)]"
  by (rule that [OF wit_net_env_ask]) (simp add: wit_net_outbox actor_new_def wit_rpcb_def)

lemma wit_asker_idle:
  "iterative_queries (act_rpc (actor_new wit_rpcb)) = []" "put_queries (act_rpc (actor_new wit_rpcb)) = []" "get_senders (actor_new wit_rpcb) = []"
  "received c (actor_new wit_rpcb) = []" "timeout (inflight (socket (act_rpc (actor_new wit_rpcb)))) = DEFAULT_REQUEST_TIMEOUT"
  by (simp_all add: actor_new_def wit_rpcb_def wit_rpc0_fields received_def)

lemma wit_new_server:
  "srv_filter (rpc_server wit_rpc0) = default_filter" "immutable_values (rpc_server wit_rpc0) = (1000, [])"
  "mutable_values (rpc_server wit_rpc0) = (1000, [])"
  by (simp_all add: wit_rpc0_def rpc_new_def socket_new_def socket_bind_def config_default_def Let_def case_prod_beta server_new_def
    server_settings_default_def non_zero_or_def wit_env_def wit_stores_def list_lru_def MAX_VALUES_def)

lemma wit_held_target: "target_from_key wit_crypto wit_held_key None = wit_target"
proof -
  have n: "show_nat (length [1 :: u8]) = [49]" by code_simp
  show ?thesis unfolding wit_target_def hash_immutable_def n by (simp add: target_from_key_def wit_crypto_def)
qed

lemma wit_held_item_accepted:
  "from_dht_message wit_crypto wit_target wit_held_key [1] 3 (mi_signature wit_held_item) None = Inr wit_held_item"
  using wit_held_target
  by (simp add: from_dht_message_def wit_held_item_def new_signed_unchecked_def) (simp add: wit_crypto_def)

lemma wit_holder_facts:
  "server_inv wit_crypto wit_stores (rpc_server wit_holder)" "server_mode (socket wit_holder)" "srv_filter (rpc_server wit_holder) req x"
  "lru_lookup (st_immutable wit_stores) (immutable_values (rpc_server wit_holder)) wit_target = Some [1]"
  by (simp_all add: wit_holder_def wit_server_rpc_def wit_new_server default_filter_def server_inv_def wit_stores_def list_lru_def lru_ok_def lru_lookup_def
    immutable_ok_def validate_immutable_def wit_target_def)

lemma wit_keeper_facts:
  "server_inv wit_crypto wit_stores (rpc_server wit_keeper)" "server_mode (socket wit_keeper)" "srv_filter (rpc_server wit_keeper) req x"
  "lru_lookup (st_mutable wit_stores) (mutable_values (rpc_server wit_keeper)) wit_target = Some wit_held_item"
  "lru_lookup (st_immutable wit_stores) (immutable_values (rpc_server wit_keeper)) wit_target = None"
  using wit_held_item_accepted
  by (simp_all add: wit_keeper_def wit_server_rpc_def wit_new_server default_filter_def server_inv_def wit_stores_def list_lru_def lru_ok_def lru_lookup_def
    mutable_ok_def) (simp_all add: wit_held_item_def new_signed_unchecked_def)

lemma wit_reply_bytes:
  "message_to_bytes (env_bencode (wit_net_env wit_question wit_reply)) wit_reply = Inr (100 # replicate 15 1)"
  "message_to_bytes (env_bencode (wit_net_env wit_question wit_item_reply)) wit_item_reply = Inr (100 # replicate 15 1)"
  by (simp_all add: wit_net_env_def message_to_bytes_def wit_pair_codec_def wit_reply_def wit_item_reply_def wit_question_def response_message_def
    into_serde_message_def)

lemma wit_server_replies:
  assumes "server_mode (socket p)" "\<And>req x. srv_filter (rpc_server p) req x"
    and "fst (handle_get_value (\<lambda>_. 0) wit_stores (routing_table p) (sock_addr_new 2 3) \<lparr>gvq_target = wit_target, gvq_seq = None, gvq_salt = None\<rparr>
      (rpc_server p\<lparr>srv_tokens := fst (tokens_refresh 11 (rpc_rng p) (srv_tokens (rpc_server p)))\<rparr>)) = Response resp"
  shows "\<exists>p'. rpc_handle_message (wit_net_env wit_question r) 11 (FromV4 (100 # replicate 15 0) (sock_addr_new 2 3)) p = (None, p') \<and>
     outbox (socket p') = outbox (socket p) @ [(sock_addr_new 2 3, response_message (Response resp) (sock_addr_new 2 3) 0 (socket p))]"
proof -
  let ?g = "\<lparr>gvq_target = wit_target, gvq_seq = None, gvq_salt = None\<rparr>" and ?from = "sock_addr_new 2 3"
  let ?req = "\<lparr>requester_id = rpc_id wit_rpc0, request_type = GetValueRequest ?g\<rparr>"
  let ?r = "server_handle_request (\<lambda>_. 0) wit_crypto wit_stores 11 (rpc_rng p) (routing_table p) ?from ?req (rpc_server p)"
  have "fst ?r = Some (Response resp)"
    unfolding assms(3) [symmetric] by (rule get_request_run) (simp_all add: assms(2))
  then obtain srv r' where "?r = (Some (Response resp), srv, r')" by (metis prod.collapse)
  then have a: "answer_of (wit_net_env wit_question r) 11 ?from ?req p = (Some (Response resp), srv)" by (simp add: answer_of_def wit_net_env_simps)
  obtain p' where "rpc_handle_message (wit_net_env wit_question r) 11 (FromV4 (100 # replicate 15 0) ?from) p = (None, p')"
    "outbox (socket p') = outbox (socket p) @ [(?from, response_message (Response resp) ?from (transaction_id wit_question) (socket p))]"
    by (rule request_answered [OF wit_net_env_simps(2,6) _ _ _ assms(1) _ _ a])
      (simp_all add: MTU_def wire_view_def wit_question_def sock_addr_new_def)
  then show ?thesis by (auto simp: wit_question_def)
qed

lemma wit_reply_sent:
  "\<exists>p'. rpc_handle_message (wit_net_env wit_question r) 11 (FromV4 (100 # replicate 15 0) (sock_addr_new 2 3)) wit_holder = (None, p') \<and>
     outbox (socket p') = outbox (socket wit_holder) @ [(sock_addr_new 2 3, wit_reply)]"
  unfolding wit_reply_def
proof (rule wit_server_replies)
  have "lru_cache (st_immutable wit_stores)" using wit_stores_ok by (simp add: stores_ok_def)
  then show "fst (handle_get_value (\<lambda>_. 0) wit_stores (routing_table wit_holder) (sock_addr_new 2 3)
      \<lparr>gvq_target = wit_target, gvq_seq = None, gvq_salt = None\<rparr> (rpc_server wit_holder
      \<lparr>srv_tokens := fst (tokens_refresh 11 (rpc_rng wit_holder) (srv_tokens (rpc_server wit_holder)))\<rparr>)) =
    Response (GetImmutableResponse \<lparr>gir_responder_id = rpc_id wit_holder, gir_token = wit_token_of wit_holder,
     gir_nodes = Some (rt_closest (\<lambda>_. 0) (routing_table wit_holder) wit_target), gir_v = [1]\<rparr>)"
    by (subst get_immutable_answer) (simp_all add: wit_holder_facts rpc_id_def)
qed (rule wit_holder_facts)+

lemma wit_item_reply_sent:
  "\<exists>p'. rpc_handle_message (wit_net_env wit_question r) 11 (FromV4 (100 # replicate 15 0) (sock_addr_new 2 3)) wit_keeper = (None, p') \<and>
     outbox (socket p') = outbox (socket wit_keeper) @ [(sock_addr_new 2 3, wit_item_reply)]"
  unfolding wit_item_reply_def
proof (rule wit_server_replies)
  have lru: "lru_cache (st_immutable wit_stores)" "lru_cache (st_mutable wit_stores)" using wit_stores_ok by (simp_all add: stores_ok_def)
  have item: "mi_value wit_held_item = [1]" "mi_key wit_held_item = wit_held_key" "mi_seq wit_held_item = 3"
    by (simp_all add: wit_held_item_def new_signed_unchecked_def)
  show "fst (handle_get_value (\<lambda>_. 0) wit_stores (routing_table wit_keeper) (sock_addr_new 2 3)
      \<lparr>gvq_target = wit_target, gvq_seq = None, gvq_salt = None\<rparr> (rpc_server wit_keeper
      \<lparr>srv_tokens := fst (tokens_refresh 11 (rpc_rng wit_keeper) (srv_tokens (rpc_server wit_keeper)))\<rparr>)) =
    Response (GetMutableResponse \<lparr>gmr_responder_id = rpc_id wit_keeper, gmr_token = wit_token_of wit_keeper,
     gmr_nodes = Some (rt_closest (\<lambda>_. 0) (routing_table wit_keeper) wit_target), gmr_v = [1], gmr_k = wit_held_key, gmr_seq = 3,
     gmr_sig = mi_signature wit_held_item\<rparr>)"
    using lru_cache.get_result [OF lru(1), of "immutable_values (rpc_server wit_keeper)" wit_target]
      lru_cache.get_result [OF lru(2), of "mutable_values (rpc_server wit_keeper)" wit_target]
    by (simp add: handle_get_value_def handle_get_mutable_def case_prod_beta Let_def wit_keeper_facts rpc_id_def item)
qed (rule wit_keeper_facts)+

theorem stored_value_is_found_witness:
  "\<exists>a1. actor_receive (wit_net_env wit_question wit_reply) 10 (get_immutable_request wit_target 3) (actor_new wit_rpcb) = Some a1 \<and>
     (case rpc_handle_message (wit_net_env wit_question wit_reply) 12 (FromV4 (100 # replicate 15 1) wit_address) (act_rpc a1) of
        (found, p1) \<Rightarrow> recv_immutable (received 3 (report_response found (a1\<lparr>act_rpc := p1\<rparr>))) = Some [1])"
proof -
  let ?a = "actor_new wit_rpcb" and ?env = "wit_net_env wit_question wit_reply"
  let ?returns = "\<lambda>t2 bs' a1. case rpc_handle_message ?env t2 (FromV4 bs' wit_address) (act_rpc a1) of
     (found, p1) \<Rightarrow> recv_immutable (received 3 (report_response found (a1\<lparr>act_rpc := p1\<rparr>))) = Some [1]"
  obtain a1 where a1: "actor_receive ?env 10 (get_immutable_request wit_target 3) ?a = Some a1"
    and out: "outbox (socket (act_rpc a1)) = outbox (socket (act_rpc ?a)) @ [(wit_address, wit_question),
      (wit_address, \<lparr>transaction_id = 1, version = Some VERSION, requester_ip = None,
         message_type = Request \<lparr>requester_id = fst (id_random (rpc_rng wit_rpc0)), request_type = PingRequest\<rparr>, read_only = True\<rparr>)]"
    unfolding get_immutable_request_def by (rule wit_asker)
  have "\<exists>answer p'. rpc_handle_message ?env 11 (FromV4 (100 # replicate 15 0) (sock_addr_new 2 3)) wit_holder = (None, p') \<and>
    outbox (socket p') = outbox (socket wit_holder) @ [(sock_addr_new 2 3, answer)] \<and>
    (\<forall>t2 bs'. message_to_bytes (env_bencode ?env) answer = Inr bs' \<longrightarrow> length bs' \<le> MTU \<longrightarrow>
       elapsed t2 10 < timeout (inflight (socket (act_rpc ?a))) \<longrightarrow> ?returns t2 bs' a1)"
    by (rule stored_value_is_found [OF wit_net_env_simps(1,2) _ wit_holder_facts(2,3) _ wit_asker_idle(1-4) a1, where m = wit_question and
        req = "\<lparr>requester_id = rpc_id wit_rpc0, request_type = GetValueRequest \<lparr>gvq_target = wit_target, gvq_seq = None, gvq_salt = None\<rparr>\<rparr>"])
      (simp_all add: wit_net_env_simps wit_holder_facts out, simp_all add: wit_question_def MTU_def wit_address_def sock_addr_new_def)
  then obtain answer p' where p': "rpc_handle_message ?env 11 (FromV4 (100 # replicate 15 0) (sock_addr_new 2 3)) wit_holder = (None, p')"
    "outbox (socket p') = outbox (socket wit_holder) @ [(sock_addr_new 2 3, answer)]"
    and returns: "\<forall>t2 bs'. message_to_bytes (env_bencode ?env) answer = Inr bs' \<longrightarrow> length bs' \<le> MTU \<longrightarrow>
       elapsed t2 10 < timeout (inflight (socket (act_rpc ?a))) \<longrightarrow> ?returns t2 bs' a1" by blast
  have "answer = wit_reply" using p' wit_reply_sent [of wit_reply] by auto
  then show ?thesis using returns a1 wit_reply_bytes(1) by (simp add: wit_asker_idle MTU_def elapsed_def const_facts)
qed

theorem stored_item_is_found_witness:
  "\<exists>a1. actor_receive (wit_net_env wit_question wit_item_reply) 10 (get_mutable_request wit_crypto wit_held_key None None 3) (actor_new wit_rpcb) = Some a1 \<and>
     (case rpc_handle_message (wit_net_env wit_question wit_item_reply) 12 (FromV4 (100 # replicate 15 1) wit_address) (act_rpc a1) of
        (found, p1) \<Rightarrow> mutable_items (received 3 (report_response found (a1\<lparr>act_rpc := p1\<rparr>))) = [wit_held_item])"
proof -
  let ?a = "actor_new wit_rpcb" and ?env = "wit_net_env wit_question wit_item_reply"
  let ?returns = "\<lambda>t2 bs' a1. case rpc_handle_message ?env t2 (FromV4 bs' wit_address) (act_rpc a1) of
     (found, p1) \<Rightarrow> mutable_items (received 3 (report_response found (a1\<lparr>act_rpc := p1\<rparr>))) = [wit_held_item]"
  have key: "mi_key wit_held_item = wit_held_key" "mi_salt wit_held_item = None"
    by (simp_all add: wit_held_item_def new_signed_unchecked_def)
  obtain a1 where a1: "actor_receive ?env 10 (get_mutable_request (env_crypto ?env) (mi_key wit_held_item) (mi_salt wit_held_item) None 3) ?a = Some a1"
    and out: "outbox (socket (act_rpc a1)) = outbox (socket (act_rpc ?a)) @ [(wit_address, wit_question),
      (wit_address, \<lparr>transaction_id = 1, version = Some VERSION, requester_ip = None,
         message_type = Request \<lparr>requester_id = fst (id_random (rpc_rng wit_rpc0)), request_type = PingRequest\<rparr>, read_only = True\<rparr>)]"
    unfolding get_mutable_request_def key wit_net_env_simps(3) wit_held_target by (rule wit_asker)
  have "\<exists>answer p'. rpc_handle_message ?env 11 (FromV4 (100 # replicate 15 0) (sock_addr_new 2 3)) wit_keeper = (None, p') \<and>
    outbox (socket p') = outbox (socket wit_keeper) @ [(sock_addr_new 2 3, answer)] \<and>
    (\<forall>t2 bs'. message_to_bytes (env_bencode ?env) answer = Inr bs' \<longrightarrow> length bs' \<le> MTU \<longrightarrow>
       elapsed t2 10 < timeout (inflight (socket (act_rpc ?a))) \<longrightarrow> ?returns t2 bs' a1)"
    by (rule stored_item_is_found [OF wit_net_env_simps(1,2) _ wit_keeper_facts(2,3) _ _ _ wit_asker_idle(1-4) a1, where target = wit_target and m = wit_question and
        req = "\<lparr>requester_id = rpc_id wit_rpc0, request_type = GetValueRequest \<lparr>gvq_target = wit_target, gvq_seq = None, gvq_salt = None\<rparr>\<rparr>"])
      (simp_all add: wit_net_env_simps wit_keeper_facts key wit_held_target out, simp_all add: wit_question_def MTU_def wit_address_def sock_addr_new_def)
  then obtain answer p' where p': "rpc_handle_message ?env 11 (FromV4 (100 # replicate 15 0) (sock_addr_new 2 3)) wit_keeper = (None, p')"
    "outbox (socket p') = outbox (socket wit_keeper) @ [(sock_addr_new 2 3, answer)]"
    and returns: "\<forall>t2 bs'. message_to_bytes (env_bencode ?env) answer = Inr bs' \<longrightarrow> length bs' \<le> MTU \<longrightarrow>
       elapsed t2 10 < timeout (inflight (socket (act_rpc ?a))) \<longrightarrow> ?returns t2 bs' a1" by blast
  have "answer = wit_item_reply" using p' wit_item_reply_sent [of wit_item_reply] by auto
  then show ?thesis using returns a1 wit_reply_bytes(2) by (simp add: key wit_net_env_simps(3) wit_asker_idle MTU_def elapsed_def const_facts)
qed

text \<open>The same node asks for peers of the target, and a server answers that has one.\<close>

definition wit_peers_visit where
  "wit_peers_visit = query_visit 10 wit_address (query_new (rpc_id wit_rpc0) wit_target (GetGetPeers \<lparr>gpq_info_hash = wit_target\<rparr>),
     socket wit_rpc0, rpc_rng wit_rpc0)"

definition wit_peers_question :: message where
  "wit_peers_question = \<lparr>transaction_id = 0, version = Some VERSION, requester_ip = None, message_type = Request
     \<lparr>requester_id = rpc_id wit_rpc0, request_type = GetPeersRequest \<lparr>gpq_info_hash = wit_target\<rparr>\<rparr>, read_only = True\<rparr>"

definition wit_tracker where
  "wit_tracker = wit_server_rpc\<lparr>rpc_server := (rpc_server wit_rpc0)
     \<lparr>srv_peers := \<lparr>info_hashes = (5, [(wit_target, (5, [(id_of [], sock_addr_new 9 9)]))]), max_peers = 5\<rparr>\<rparr>\<rparr>"

definition wit_peers_reply :: message where
  "wit_peers_reply = response_message (Response (GetPeersResponse \<lparr>gpr_responder_id = rpc_id wit_tracker, gpr_token = wit_token_of wit_tracker,
     gpr_values = [sock_addr_new 9 9], gpr_nodes = Some (rt_closest (\<lambda>_. 0) (routing_table wit_tracker) wit_target)\<rparr>))
     (sock_addr_new 2 3) 0 (socket wit_tracker)"

lemma wit_peers_bytes: "message_to_bytes (env_bencode (wit_net_env wit_peers_question wit_peers_reply)) wit_peers_reply = Inr (100 # replicate 15 1)"
  by (simp add: wit_net_env_def message_to_bytes_def wit_pair_codec_def wit_peers_reply_def wit_peers_question_def response_message_def
    into_serde_message_def)

lemma wit_peers_ask:
  obtains a1 where "actor_receive (wit_net_env m r) 10 (get_peers_request wit_target 3) (actor_new wit_rpcb) = Some a1"
    "outbox (socket (act_rpc a1)) = outbox (socket (act_rpc (actor_new wit_rpcb))) @ [(wit_address, wit_peers_question),
      (wit_address, \<lparr>transaction_id = 1, version = Some VERSION, requester_ip = None,
         message_type = Request \<lparr>requester_id = fst (id_random (rpc_rng wit_rpc0)), request_type = PingRequest\<rparr>, read_only = True\<rparr>)]"
proof -
  let ?get = "GetGetPeers \<lparr>gpq_info_hash = wit_target\<rparr>"
  have "iq_closest (fst wit_peers_visit) = closest_new wit_target"
    by (simp add: wit_peers_visit_def query_visit_query) (simp add: query_new_def)
  then have s: "query_start 10 wit_peers_visit = wit_peers_visit" by (simp add: query_start_def visit_closest_def to_visit_alt)
  have g: "rpc_get (wit_net_env m r) 10 ?get None wit_rpcb = (None, wit_rpcb\<lparr>socket := fst (snd wit_peers_visit), rpc_rng := snd (snd wit_peers_visit),
      cached_iterative_queries := (1000, []), iterative_queries := [(wit_target, fst wit_peers_visit)]\<rparr>)"
    by (simp add: wit_rpcb_def rpc_get_def rpc_id_def Let_def wit_rpc0_fields empty_table wit_peers_visit_def [unfolded rpc_id_def, symmetric] s
      wit_net_env_def wit_env_def list_lru_def case_prod_beta)
  have out: "outbox (fst (snd wit_peers_visit)) = outbox (socket wit_rpc0) @ [(wit_address, wit_peers_question),
      (wit_address, \<lparr>transaction_id = 1, version = Some VERSION, requester_ip = None,
         message_type = Request \<lparr>requester_id = fst (id_random (rpc_rng wit_rpc0)), request_type = PingRequest\<rparr>, read_only = True\<rparr>)]"
    by (simp add: wit_peers_visit_def query_visit_socket socket_request_outbox wit_rpc0_fields wit_peers_question_def)
      (simp add: query_new_def wit_rpc0_def rpc_new_def socket_new_def socket_bind_def config_default_def Let_def case_prod_beta)
  show ?thesis
    by (rule that [of "actor_new (wit_rpcb\<lparr>socket := fst (snd wit_peers_visit), rpc_rng := snd (snd wit_peers_visit), cached_iterative_queries := (1000, []),
        iterative_queries := [(wit_target, fst wit_peers_visit)]\<rparr>)\<lparr>get_senders := [(wit_target, [PeersSender 3])]\<rparr>"])
      (simp_all add: actor_receive_def get_peers_request_def g actor_new_def push_sender_def out, simp_all add: wit_rpcb_def)
qed

lemma wit_tracker_facts:
  "server_mode (socket wit_tracker)" "srv_filter (rpc_server wit_tracker) req x"
  "peers_of (st_peers wit_stores) (srv_peers (rpc_server wit_tracker)) wit_target = [(id_of [], sock_addr_new 9 9)]"
  by (simp_all add: wit_tracker_def wit_server_rpc_def wit_new_server default_filter_def peers_of_def wit_stores_def wit_lrus_def list_lru_def lru_lookup_def)

lemma wit_peers_reply_sent:
  "\<exists>p'. rpc_handle_message (wit_net_env wit_peers_question r) 11 (FromV4 (100 # replicate 15 0) (sock_addr_new 2 3)) wit_tracker = (None, p') \<and>
     outbox (socket p') = outbox (socket wit_tracker) @ [(sock_addr_new 2 3, wit_peers_reply)]"
proof -
  let ?from = "sock_addr_new 2 3" and ?env = "wit_net_env wit_peers_question r"
  let ?req = "\<lparr>requester_id = rpc_id wit_rpc0, request_type = GetPeersRequest \<lparr>gpq_info_hash = wit_target\<rparr>\<rparr>"
  let ?r = "server_handle_request (\<lambda>_. 0) wit_crypto wit_stores 11 (rpc_rng wit_tracker) (routing_table wit_tracker) ?from ?req (rpc_server wit_tracker)"
  let ?tk = "tokens_refresh 11 (rpc_rng wit_tracker) (srv_tokens (rpc_server wit_tracker))"
  let ?srv = "rpc_server wit_tracker\<lparr>srv_tokens := fst ?tk\<rparr>"
  have known: "peers_of (st_peers wit_stores) (srv_peers ?srv) wit_target = [(id_of [], sock_addr_new 9 9)]"
    using wit_tracker_facts(3) by (simp del: wit_target_def)
  have ne: "peers_of (st_peers wit_stores) (srv_peers ?srv) wit_target \<noteq> []" by (simp only: known) simp
  obtain l where l: "fst (handle_get_peers (\<lambda>_. 0) wit_stores (snd ?tk) (routing_table wit_tracker) ?from wit_target ?srv) = Response (GetPeersResponse
      \<lparr>gpr_responder_id = rt_id (routing_table wit_tracker), gpr_token = generate_token (\<lambda>_. 0) (srv_tokens ?srv) ?from, gpr_values = l,
       gpr_nodes = Some (rt_closest (\<lambda>_. 0) (routing_table wit_tracker) wit_target)\<rparr>)"
    "length [(id_of [], sock_addr_new 9 9)] < 10 \<longrightarrow> l = map snd [(id_of [], sock_addr_new 9 9)]"
    by (rule get_peers_answer [OF wit_stores_ok ne, unfolded known]) (rule that, assumption+)
  have "fst ?r = Some (message_type wit_peers_reply)"
    using get_peers_run [OF request_specific.select_convs(2) wit_tracker_facts(2),
        where crc = "\<lambda>_. 0" and cr = wit_crypto and st = wit_stores and now = 11 and r = "rpc_rng wit_tracker"
          and rt = "routing_table wit_tracker" and from_addr = ?from] l
    by (simp add: wit_peers_reply_def response_message_def rpc_id_def generate_token_def)
  then obtain srv r' where "?r = (Some (message_type wit_peers_reply), srv, r')" by (metis prod.collapse)
  then have a: "answer_of ?env 11 ?from ?req wit_tracker = (Some (message_type wit_peers_reply), srv)" by (simp add: answer_of_def wit_net_env_simps)
  obtain p' where "rpc_handle_message ?env 11 (FromV4 (100 # replicate 15 0) ?from) wit_tracker = (None, p')"
    "outbox (socket p') = outbox (socket wit_tracker) @ [(?from, response_message (message_type wit_peers_reply) ?from (transaction_id wit_peers_question) (socket wit_tracker))]"
    by (rule request_answered [OF wit_net_env_simps(2,6) _ _ _ wit_tracker_facts(1) _ _ a])
      (simp_all add: MTU_def wire_view_def wit_peers_question_def sock_addr_new_def, simp add: wit_peers_reply_def response_message_def)
  then show ?thesis by (simp add: wit_peers_reply_def response_message_def wit_peers_question_def)
qed

theorem announced_peers_are_found_witness:
  "\<exists>a1. actor_receive (wit_net_env wit_peers_question wit_peers_reply) 10 (get_peers_request wit_target 3) (actor_new wit_rpcb) = Some a1 \<and>
     (case rpc_handle_message (wit_net_env wit_peers_question wit_peers_reply) 12 (FromV4 (100 # replicate 15 1) wit_address) (act_rpc a1) of
        (report, p1) \<Rightarrow> received 3 (report_response report (a1\<lparr>act_rpc := p1\<rparr>)) = [SentPeers [sock_addr_new 9 9]])"
proof -
  let ?a = "actor_new wit_rpcb" and ?env = "wit_net_env wit_peers_question wit_peers_reply" and ?peers = "[(id_of [], sock_addr_new 9 9)]"
  let ?returns = "\<lambda>t2 bs' a1 found. case rpc_handle_message ?env t2 (FromV4 bs' wit_address) (act_rpc a1) of
     (report, p1) \<Rightarrow> received 3 (report_response report (a1\<lparr>act_rpc := p1\<rparr>)) = [SentPeers found]"
  obtain a1 where a1: "actor_receive ?env 10 (get_peers_request wit_target 3) ?a = Some a1"
    and out: "outbox (socket (act_rpc a1)) = outbox (socket (act_rpc ?a)) @ [(wit_address, wit_peers_question),
      (wit_address, \<lparr>transaction_id = 1, version = Some VERSION, requester_ip = None,
         message_type = Request \<lparr>requester_id = fst (id_random (rpc_rng wit_rpc0)), request_type = PingRequest\<rparr>, read_only = True\<rparr>)]"
    by (rule wit_peers_ask)
  have "\<exists>answer p' found. rpc_handle_message ?env 11 (FromV4 (100 # replicate 15 0) (sock_addr_new 2 3)) wit_tracker = (None, p') \<and>
    outbox (socket p') = outbox (socket wit_tracker) @ [(sock_addr_new 2 3, answer)] \<and>
    subseq found (map snd ?peers) \<and> length found \<le> 10 \<and> (length ?peers < 10 \<longrightarrow> found = map snd ?peers) \<and>
    (\<forall>t2 bs'. message_to_bytes (env_bencode ?env) answer = Inr bs' \<longrightarrow> length bs' \<le> MTU \<longrightarrow>
       elapsed t2 10 < timeout (inflight (socket (act_rpc ?a))) \<longrightarrow> ?returns t2 bs' a1 found)"
    by (rule announced_peers_are_found [OF wit_net_env_simps(1,2) wit_tracker_facts(1,2) _ _ wit_asker_idle(1-4) a1, where m = wit_peers_question and
        req = "\<lparr>requester_id = rpc_id wit_rpc0, request_type = GetPeersRequest \<lparr>gpq_info_hash = wit_target\<rparr>\<rparr>"])
      (simp_all add: wit_net_env_simps wit_tracker_facts out, simp_all add: wit_peers_question_def MTU_def wit_address_def sock_addr_new_def)
  then obtain answer p' where p': "rpc_handle_message ?env 11 (FromV4 (100 # replicate 15 0) (sock_addr_new 2 3)) wit_tracker = (None, p')"
    "outbox (socket p') = outbox (socket wit_tracker) @ [(sock_addr_new 2 3, answer)]"
    and returns: "\<forall>t2 bs'. message_to_bytes (env_bencode ?env) answer = Inr bs' \<longrightarrow> length bs' \<le> MTU \<longrightarrow>
       elapsed t2 10 < timeout (inflight (socket (act_rpc ?a))) \<longrightarrow> ?returns t2 bs' a1 (map snd ?peers)" by auto
  have "answer = wit_peers_reply" using p' wit_peers_reply_sent [of wit_peers_reply] by auto
  then show ?thesis using returns a1 wit_peers_bytes by (simp add: wit_asker_idle MTU_def elapsed_def const_facts)
qed

text \<open>A node that puts the same value at the server, whose tokens are all zero here.\<close>

abbreviation wit_put_request :: put_request_specific where
  "wit_put_request \<equiv> PutImmutable \<lparr>pi_target = wit_target, pi_v = [1]\<rparr>"

definition wit_put_datagram :: message where
  "wit_put_datagram = \<lparr>transaction_id = 0, version = Some VERSION, requester_ip = None, message_type = Request
     \<lparr>requester_id = fst (id_random (\<lambda>_. 0)), request_type = PutRequestOf \<lparr>put_token = [0, 0, 0, 0], put_request_type = wit_put_request\<rparr>\<rparr>,
     read_only = True\<rparr>"

definition wit_ack :: message where
  "wit_ack = response_message (ping_answer (routing_table wit_server_rpc)) (sock_addr_new 2 3) 0 (socket wit_server_rpc)"

definition wit_put_env where
  "wit_put_env = wit_env\<lparr>env_bencode := wit_pair_codec wit_put_datagram wit_ack\<rparr>"

lemma wit_put_env_simps:
  "env_ok wit_put_env" "bencode_inverts (env_bencode wit_put_env)" "env_crypto wit_put_env = wit_crypto" "env_stores wit_put_env = wit_stores"
  "message_to_bytes (env_bencode wit_put_env) wit_put_datagram = Inr (100 # replicate 15 0)"
  "message_to_bytes (env_bencode wit_put_env) wit_ack = Inr (100 # replicate 15 1)" "env_crc wit_put_env = (\<lambda>_. 0)"
  using wit_env_ok
  by (simp_all add: wit_put_env_def env_ok_def wit_pair_codec_inverts wit_env_def message_to_bytes_def)
    (simp_all add: wit_pair_codec_def wit_ack_def wit_put_datagram_def response_message_def into_serde_message_def ping_answer_def)

lemma wit_server_rpc_peers: "server_peers_ok wit_stores (rpc_server wit_server_rpc)"
  using server_peers_new [OF wit_stores_ok]
  by (simp add: wit_server_rpc_def wit_rpc0_def rpc_new_def socket_new_def socket_bind_def config_default_def Let_def case_prod_beta wit_env_def)

lemma wit_server_rpc_facts:
  "server_inv wit_crypto wit_stores (rpc_server wit_server_rpc)" "server_mode (socket wit_server_rpc)" "srv_filter (rpc_server wit_server_rpc) req x"
  by (simp_all add: wit_server_rpc_def wit_new_server default_filter_def server_inv_def wit_stores_def list_lru_def lru_ok_def)

lemma wit_put_start:
  obtains q s1 where "put_start 10 [node_new_with_token 0 (id_of []) wit_address [0, 0, 0, 0]]
      (put_query_new wit_target wit_put_request None, socket wit_rpc0, \<lambda>_. 0) = Some (Inr (), q, s1, snd (id_random (\<lambda>_. 0)))"
    "outbox s1 = outbox (socket wit_rpc0) @ [(wit_address, wit_put_datagram)]"
proof -
  have mode: "\<not> server_mode (socket wit_rpc0)"
    by (simp add: wit_rpc0_def rpc_new_def socket_new_def socket_bind_def config_default_def Let_def case_prod_beta)
  show ?thesis
    by (rule that)
      (simp_all add: put_start_def put_started_def put_query_new_def put_send_def node_new_with_token_def case_prod_beta Let_def
        wit_put_datagram_def, simp_all add: socket_request_outbox wit_rpc0_fields mode)
qed

lemma wit_ack_sent:
  "\<exists>p'. rpc_handle_message wit_put_env 11 (FromV4 (100 # replicate 15 0) (sock_addr_new 2 3)) wit_server_rpc = (None, p') \<and>
     outbox (socket p') = outbox (socket wit_server_rpc) @ [(sock_addr_new 2 3, wit_ack)]"
proof -
  let ?from = "sock_addr_new 2 3"
  let ?put = "\<lparr>put_token = [0, 0, 0, 0], put_request_type = wit_put_request\<rparr>"
  let ?req = "\<lparr>requester_id = fst (id_random (\<lambda>_. 0)), request_type = PutRequestOf ?put\<rparr>"
  let ?r = "server_handle_request (\<lambda>_. 0) wit_crypto wit_stores 11 (rpc_rng wit_server_rpc) (routing_table wit_server_rpc) ?from ?req (rpc_server wit_server_rpc)"
  have "fst (handle_put (\<lambda>_. 0) wit_crypto wit_stores (routing_table wit_server_rpc) ?from rid ?put srv) = ping_answer (routing_table wit_server_rpc)" for rid srv
    by (simp add: handle_put_def handle_put_immutable_def wit_server_simps validate_immutable_def wit_target_def)
  then have "fst ?r = Some (ping_answer (routing_table wit_server_rpc))"
    by (simp add: server_handle_request_def case_prod_beta Let_def wit_server_rpc_facts)
  then obtain srv r where "?r = (Some (ping_answer (routing_table wit_server_rpc)), srv, r)" by (metis prod.collapse)
  then have a: "answer_of wit_put_env 11 ?from ?req wit_server_rpc = (Some (ping_answer (routing_table wit_server_rpc)), srv)"
    by (simp add: answer_of_def wit_put_env_simps)
  obtain p' where "rpc_handle_message wit_put_env 11 (FromV4 (100 # replicate 15 0) ?from) wit_server_rpc = (None, p')"
    "outbox (socket p') = outbox (socket wit_server_rpc) @ [(?from, wit_ack)]"
    by (rule request_answered [OF wit_put_env_simps(2,5) _ _ _ wit_server_rpc_facts(2) _ _ a])
      (simp_all add: MTU_def wire_view_def wit_put_datagram_def sock_addr_new_def wit_ack_def ping_answer_def)
  then show ?thesis by blast
qed

theorem acknowledged_item_is_stored_witness:
  "\<exists>q s1 p' w'. put_start 10 [node_new_with_token 0 (id_of []) wit_address [0, 0, 0, 0]]
      (put_query_new wit_target wit_put_request None, socket wit_rpc0, \<lambda>_. 0) = Some (Inr (), q, s1, snd (id_random (\<lambda>_. 0))) \<and>
     p' = snd (rpc_handle_message wit_put_env 11 (FromV4 (100 # replicate 15 0) (sock_addr_new 2 3)) wit_server_rpc) \<and>
     w' = snd (rpc_handle_message wit_put_env 12 (FromV4 (100 # replicate 15 1) wit_address)
       (wit_rpc0\<lparr>socket := s1, put_queries := [(wit_target, q)]\<rparr>)) \<and>
     put_queries w' = [(wit_target, put_on_success q)] \<and> holds_item wit_stores (sock_addr_new 2 3) (fst (id_random (\<lambda>_. 0))) wit_put_request (rpc_server p')"
proof -
  obtain q s1 where start: "put_start 10 [node_new_with_token 0 (id_of []) wit_address [0, 0, 0, 0]]
      (put_query_new wit_target wit_put_request None, socket wit_rpc0, \<lambda>_. 0) = Some (Inr (), q, s1, snd (id_random (\<lambda>_. 0)))"
    and out: "outbox s1 = outbox (socket wit_rpc0) @ [(wit_address, wit_put_datagram)]" by (rule wit_put_start)
  let ?w = "wit_rpc0\<lparr>socket := s1, put_queries := [(wit_target, q)]\<rparr>"
  let ?goal = "\<lambda>p' w'. put_queries w' = [(wit_target, put_on_success q)] \<and> holds_item wit_stores (sock_addr_new 2 3) (fst (id_random (\<lambda>_. 0))) wit_put_request (rpc_server p')"
  let ?req = "\<lparr>requester_id = fst (id_random (\<lambda>_. 0)), request_type = PutRequestOf \<lparr>put_token = [0, 0, 0, 0], put_request_type = wit_put_request\<rparr>\<rparr>"
  have "\<exists>answer p'. rpc_handle_message wit_put_env 11 (FromV4 (100 # replicate 15 0) (sock_addr_new 2 3)) wit_server_rpc = (None, p') \<and>
    outbox (socket p') = outbox (socket wit_server_rpc) @ [(sock_addr_new 2 3, answer)] \<and>
    (\<forall>t2 bs'. message_to_bytes (env_bencode wit_put_env) answer = Inr bs' \<longrightarrow> length bs' \<le> MTU \<longrightarrow>
       elapsed t2 10 < timeout (inflight (socket wit_rpc0)) \<longrightarrow>
       (let w' = snd (rpc_handle_message wit_put_env t2 (FromV4 bs' wit_address) ?w)
        in put_queries w' = [(wit_target, put_on_success q)] \<and> holds_item (env_stores wit_put_env) (sock_addr_new 2 3) (requester_id ?req) wit_put_request (rpc_server p') \<or>
           (\<exists>err. message_type answer = ErrorMessage err \<and> put_queries w' = [(wit_target, put_on_error err q)])))"
    by (rule acknowledged_item_is_stored [OF wit_put_env_simps(1,2) _ wit_server_rpc_facts(2,3) start, where m = wit_put_datagram and req = ?req])
      (simp_all add: wit_put_env_simps wit_server_rpc_facts wit_server_rpc_peers out,
        simp_all add: wit_put_datagram_def MTU_def wit_address_def sock_addr_new_def)
  then obtain answer p' where p': "rpc_handle_message wit_put_env 11 (FromV4 (100 # replicate 15 0) (sock_addr_new 2 3)) wit_server_rpc = (None, p')"
    "outbox (socket p') = outbox (socket wit_server_rpc) @ [(sock_addr_new 2 3, answer)]"
    and counts: "message_to_bytes (env_bencode wit_put_env) answer = Inr bs' \<Longrightarrow> length bs' \<le> MTU \<Longrightarrow>
       elapsed t2 10 < timeout (inflight (socket wit_rpc0)) \<Longrightarrow>
       ?goal p' (snd (rpc_handle_message wit_put_env t2 (FromV4 bs' wit_address) ?w)) \<or> (\<exists>err. message_type answer = ErrorMessage err)" for bs' t2
    unfolding Let_def wit_put_env_simps(4) request_specific.simps by blast
  have "answer = wit_ack" using p' wit_ack_sent by auto
  then have "?goal p' (snd (rpc_handle_message wit_put_env 12 (FromV4 (100 # replicate 15 1) wit_address) ?w)) \<or>
      (\<exists>err. message_type answer = ErrorMessage err)"
    by (intro counts) (simp_all add: wit_put_env_simps MTU_def elapsed_def wit_rpc0_fields const_facts)
  moreover have "message_type answer \<noteq> ErrorMessage err" for err by (simp add: \<open>answer = wit_ack\<close> wit_ack_def response_message_def ping_answer_def)
  ultimately have "?goal p' (snd (rpc_handle_message wit_put_env 12 (FromV4 (100 # replicate 15 1) wit_address) ?w))" by blast
  then show ?thesis using start p'(1) by - (rule exI [of _ q], rule exI [of _ s1], rule exI [of _ p'], simp)
qed

end
