(* ===== verification/Lookup.thy ===== *)
theory Lookup
  imports Rpc_Properties
begin

text \<open>
  A whole lookup: one iterative query (\<^verbatim>\<open>src/src/rpc/iterative_query.rs\<close>) from its start to its end, as \<^verbatim>\<open>src/src/rpc.rs\<close> drives it.
  Between the ticks of the query come the answers it hears and whatever else the node does with its socket. Two
  theorems: a lookup among finitely many addresses ends within a bounded time, whatever is answered, and a lookup that ends has
  found the twenty nodes closest to its target, when the nodes it found to be closest answer honestly.
\<close>

section \<open>The run of a query\<close>

type_synonym walk = "iterative_query \<times> krpc_socket \<times> rng"

text \<open>What the node does with an answer that its query waits for, as in \<open>rpc_handle_response\<close>.\<close>

definition query_hear ::
  "('pc, 'ic, 'im, 'mu, 'q, 'be) rpc_env \<Rightarrow> instant \<Rightarrow> sock_addr \<Rightarrow> message \<Rightarrow> bool \<Rightarrow> iterative_query \<Rightarrow> iterative_query" where
  "query_hear env now from_addr m is_mutable_get q =
     fst (query_deliver (env_crypto env) (message_type m) is_mutable_get (query_learn env now from_addr m q))"

text \<open>The node hears an accepted answer in this way, and does nothing else to its queries; an answer of a read-only node is only counted.\<close>

lemma response_is_heard:
  assumes "\<not> read_only m" "find_value (\<lambda>q. put_inflight q (transaction_id m)) (put_queries p) = None"
    and "find_value (\<lambda>q. query_is_inflight q (transaction_id m)) (iterative_queries p) = Some (k, q)"
  obtains g where "iterative_queries (snd (rpc_handle_response env now a m p)) = AList.update k (query_hear env now a m g q) (iterative_queries p)"
  by (rule that [of "is_inflight_query_request q (transaction_id m) \<and>
      (case request_type (iq_request q) of GetValueRequest _ \<Rightarrow> True | _ \<Rightarrow> False)"])
    (use assms in \<open>simp add: rpc_handle_response_def query_hear_def case_prod_beta Let_def split: option.split\<close>)

lemma read_only_response_is_counted:
  assumes "read_only m" "find_value (\<lambda>q. is_inflight_query_request q (transaction_id m)) (iterative_queries p) = Some (k, q)"
  shows "iterative_queries (snd (rpc_handle_response env now a m p)) =
    AList.update k (query_record outcome_record_invalid_response q) (iterative_queries p)"
  using assms by (simp add: rpc_handle_response_def)

text \<open>\<open>lookup env ok gap t0 w0 H t w\<close>: from the walk \<open>w0\<close> at \<open>t0\<close>, by ticks that do not end the query, each at most \<open>gap\<close> after the one before,
  the walk is \<open>w\<close>; the last tick was at \<open>t\<close> and the senders of the answers heard so far are \<open>H\<close>. Only answers that satisfy \<open>ok\<close> are heard. Read-only
  answers are only counted. The other uses of the socket may settle the requests of the query, but do not renew them.\<close>

inductive lookup ::
  "('pc, 'ic, 'im, 'mu, 'q, 'be) rpc_env \<Rightarrow> (sock_addr \<Rightarrow> message \<Rightarrow> bool) \<Rightarrow> duration \<Rightarrow> instant \<Rightarrow> walk \<Rightarrow>
     sock_addr set \<Rightarrow> instant \<Rightarrow> walk \<Rightarrow> bool"
  for env ok gap t0 w0 where
  lookup_start: "lookup env ok gap t0 w0 {} t0 w0"
| lookup_tick: "lookup env ok gap t0 w0 H t w \<Longrightarrow> t \<le> now \<Longrightarrow> now \<le> t + gap \<Longrightarrow> query_tick now w = (False, w') \<Longrightarrow>
    lookup env ok gap t0 w0 H now w'"
| lookup_hear: "lookup env ok gap t0 w0 H t (q, s, r) \<Longrightarrow> ok from_addr m \<Longrightarrow>
    lookup env ok gap t0 w0 (insert from_addr H) t (query_hear env now from_addr m is_mutable_get q, s, r)"
| lookup_count: "lookup env ok gap t0 w0 H t (q, s, r) \<Longrightarrow> lookup env ok gap t0 w0 H t (query_record f q, s, r)"
| lookup_other: "lookup env ok gap t0 w0 H t (q, s, r) \<Longrightarrow> timeout (inflight s') = timeout (inflight s) \<Longrightarrow>
    list_all (\<lambda>tid. requests (inflight s') tid \<in> {None, requests (inflight s) tid}) (iq_inflight_requests q) \<Longrightarrow>
    lookup env ok gap t0 w0 H t (q, s', r')"

lemma add_candidates_closest:
  "fold (add_candidate crc) ns q = q\<lparr>iq_closest := closest_add_all crc (iq_closest q) ns\<rparr>"
  by (induction ns arbitrary: q) (simp_all add: add_candidate_def)

definition heard_nodes :: "message \<Rightarrow> node list" where
  "heard_nodes m = (case get_closer_nodes m of Some ns \<Rightarrow> ns | None \<Rightarrow> [])"

lemma query_record_keeps [simp]:
  "iq_closest (query_record f q) = iq_closest q" "iq_responders (query_record f q) = iq_responders q"
  "iq_visited (query_record f q) = iq_visited q" "iq_inflight_requests (query_record f q) = iq_inflight_requests q"
  by (simp_all add: query_record_def)

lemma query_deliver_keeps [simp]:
  "iq_closest (fst (query_deliver cr mt g q)) = iq_closest q" "iq_responders (fst (query_deliver cr mt g q)) = iq_responders q"
  "iq_visited (fst (query_deliver cr mt g q)) = iq_visited q"
  "iq_inflight_requests (fst (query_deliver cr mt g q)) = iq_inflight_requests q"
  by (auto simp: query_deliver_def query_add_response_def Let_def split: message_type.split response_specific.split sum.split)

lemma query_hear_keeps [simp]:
  "iq_visited (query_hear env now a m g q) = iq_visited q"
  "iq_inflight_requests (query_hear env now a m g q) = iq_inflight_requests q"
  by (auto simp: query_hear_def query_learn_def add_candidates_closest add_responding_node_def add_address_vote_def Let_def split: option.split prod.split)

lemma query_hear_closest:
  "iq_closest (query_hear env now a m g q) = closest_add_all (env_crc env) (iq_closest q) (heard_nodes m)"
  "iq_responders (query_hear env now a m g q) = (case get_token m of
     Some (rid, token) \<Rightarrow> closest_add (env_crc env) (iq_responders q) (node_new_with_token now rid a token) | None \<Rightarrow> iq_responders q)"
  by (auto simp: query_hear_def query_learn_def heard_nodes_def add_candidates_closest add_responding_node_def add_address_vote_def Let_def
    split: option.split prod.split)

section \<open>A lookup ends in time\<close>

text \<open>The requests of the query that the socket still holds were sent by \<open>t\<close>.\<close>

definition asked_by :: "instant \<Rightarrow> iterative_query \<Rightarrow> krpc_socket \<Rightarrow> bool" where
  "asked_by t q s \<longleftrightarrow>
     list_all (\<lambda>tid. case requests (inflight s) tid of Some req \<Rightarrow> ir_sent_at req \<le> t | None \<Rightarrow> True) (iq_inflight_requests q)"

lemma visits_asked_by:
  assumes "fold (query_visit now) as (q, s, r) = (q', s', r')" "asked_by now q s"
  shows "asked_by now q' s'"
  using assms
proof (induction as arbitrary: q s r)
  case (Cons a as)
  obtain q1 s1 r1 where v: "query_visit now a (q, s, r) = (q1, s1, r1)" by (metis prod_cases3)
  have q1: "q1 = fst (query_visit now a (q, s, r))" and s1: "s1 = fst (snd (query_visit now a (q, s, r)))" using v by simp_all
  have "asked_by now q1 s1" using Cons.prems(2)
    by (auto simp: q1 s1 query_visit_query query_visit_socket asked_by_def list_all_iff inflight_add_def)
  then show ?case using Cons.IH [of q1 s1 r1] Cons.prems(1) v by simp
qed simp

lemma asked_by_mono: "asked_by t q s \<Longrightarrow> t \<le> t' \<Longrightarrow> asked_by t' q s"
  by (fastforce simp: asked_by_def list_all_iff split: option.splits)

lemma tick_not_done:
  assumes "query_tick now (q, s, r) = (False, q', s', r')" "asked_by t q' s'"
  shows "now < t + timeout (inflight s')"
proof -
  obtain tid where tid: "tid \<in> set (iq_inflight_requests q')" "socket_inflight now s' tid"
    using assms(1) by (auto simp: query_tick_def list_ex_iff split: prod.splits)
  then obtain req where "requests (inflight s') tid = Some req" "elapsed now (ir_sent_at req) < timeout (inflight s')"
    by (auto simp: socket_inflight_def inflight_contains_def split: option.splits)
  moreover from this(1) have "ir_sent_at req \<le> t" using assms(2) tid(1) by (auto simp: asked_by_def list_all_iff)
  ultimately show ?thesis by (simp add: elapsed_def)
qed

text \<open>At any time the last request was sent at some \<open>l\<close>, at most a timeout before the last tick, and every time the query sent something it had found an
  address that it had not visited.\<close>

definition in_time :: "sock_addr set \<Rightarrow> duration \<Rightarrow> duration \<Rightarrow> instant \<Rightarrow> nat \<Rightarrow> instant \<Rightarrow> walk \<Rightarrow> bool" where
  "in_time A gap tout t0 k0 t = (\<lambda>(q, s, r). timeout (inflight s) = tout \<and> node_address ` set (cn_nodes (iq_closest q)) \<subseteq> A \<and>
     (\<exists>l k. l \<le> t \<and> t \<le> l + tout \<and> asked_by l q s \<and> k + card (A - set (iq_visited q)) \<le> k0 \<and> l \<le> t0 + k * (tout + gap)))"

lemma in_time_tick:
  assumes "finite A" "in_time A gap tout t0 k0 t w" "t \<le> now" "now \<le> t + gap" "query_tick now w = (False, w')"
  shows "in_time A gap tout t0 k0 now w'"
proof -
  obtain q s r where w: "w = (q, s, r)" by (metis prod_cases3)
  obtain q' s' r' where w': "w' = (q', s', r')" by (metis prod_cases3)
  have f: "fold (query_visit now) (to_visit q) (q, s, r) = (q', s', r')" using assms(5) query_tick_fold by (simp add: w w')
  obtain l k where i: "timeout (inflight s) = tout" "node_address ` set (cn_nodes (iq_closest q)) \<subseteq> A" "l \<le> t" "t \<le> l + tout" "asked_by l q s"
    "k + card (A - set (iq_visited q)) \<le> k0" "l \<le> t0 + k * (tout + gap)" using assms(2) by (auto simp: in_time_def w)
  have e: "iq_closest q' = iq_closest q" "set (iq_visited q') = set (iq_visited q) \<union> set (to_visit q)" "timeout (inflight s') = tout"
    using visits_effect [OF f] i(1) by (simp_all add: same_walk_def)
  have late: "now < l' + tout" if "asked_by l' q' s'" for l' using tick_not_done [of now q s r q' s' r' l'] assms(5) that e(3) by (simp add: w w')
  show ?thesis
  proof (cases "to_visit q = []")
    case True
    then have "q' = q" "s' = s" using f by simp_all
    then have "now \<le> l + tout" "asked_by l q' s'" using late [of l] i(5) by simp_all
    then show ?thesis using i e \<open>q' = q\<close> assms(3) unfolding in_time_def w' prod.case
      by (intro conjI exI [of _ l] exI [of _ k]) simp_all
  next
    case False
    have now: "asked_by now q' s'" using visits_asked_by [OF f] asked_by_mono [OF i(5)] i(3) assms(3) by simp
    obtain a where a: "a \<in> set (to_visit q)" using False by (meson list.set_sel(1))
    then have "a \<in> A - set (iq_visited q)" "a \<notin> A - set (iq_visited q')" using i(2) e(2) by (auto simp: to_visit_alt dest: in_set_takeD)
    then have "A - set (iq_visited q') \<subset> A - set (iq_visited q)" using e(2) by blast
    then have "card (A - set (iq_visited q')) < card (A - set (iq_visited q))" using assms(1) by (simp add: psubset_card_mono)
    then have "Suc k + card (A - set (iq_visited q')) \<le> k0" using i(6) by simp
    moreover have "now \<le> t0 + Suc k * (tout + gap)" using i(4,7) assms(4) by simp
    ultimately show ?thesis using i(2) e now unfolding in_time_def w' prod.case
      by (intro conjI exI [of _ now] exI [of _ "Suc k"]) simp_all
  qed
qed

lemma closest_add_all_addresses:
  "set (cn_nodes (closest_add_all crc c ns)) \<subseteq> set (cn_nodes c) \<union> set ns"
  using set_mset_mono [OF closest_add_all_mset [of crc c ns]] by simp

lemma in_time_run:
  assumes "lookup env ok gap t0 (q0, s0, r0) H t w" "finite A" "node_address ` set (cn_nodes (iq_closest q0)) \<subseteq> A" "asked_by t0 q0 s0"
    and "\<And>a m. ok a m \<Longrightarrow> node_address ` set (heard_nodes m) \<subseteq> A"
  shows "in_time A gap (timeout (inflight s0)) t0 (card (A - set (iq_visited q0))) t w"
  using assms(1)
proof (induction rule: lookup.induct)
  case lookup_start
  show ?case using assms(3,4) unfolding in_time_def prod.case by (intro conjI exI [of _ t0] exI [of _ 0]) simp_all
next
  case (lookup_tick H t w now w')
  then show ?case using in_time_tick [OF assms(2)] by blast
next
  case (lookup_hear H t q s r a m now g)
  have "node_address ` set (heard_nodes m) \<subseteq> A" by (rule assms(5)) (rule lookup_hear.hyps)
  then show ?case using lookup_hear.IH closest_add_all_addresses [of "env_crc env" "iq_closest q" "heard_nodes m"]
    unfolding in_time_def prod.case query_hear_keeps query_hear_closest asked_by_def by blast
next
  case (lookup_count H t q s r f)
  then show ?case by (simp add: in_time_def asked_by_def)
next
  case (lookup_other H t q s r s' r')
  have "asked_by l q s'" if "asked_by l q s" for l
    using that lookup_other.hyps by (fastforce simp: asked_by_def list_all_iff split: option.splits)
  then show ?case using lookup_other.IH lookup_other.hyps(2) unfolding in_time_def prod.case by (metis (no_types, lifting))
qed

text \<open>C9: a lookup ends in time. When everything it hears of lies at finitely many addresses \<open>A\<close>, then the first tick later than a request timeout after
  the start, and a timeout and a gap between ticks for each address not yet visited, reports the query done, whatever was answered or lost.\<close>

theorem lookup_ends_in_time:
  assumes "lookup env ok gap t0 (q0, s0, r0) H t w" "finite A" "node_address ` set (cn_nodes (iq_closest q0)) \<subseteq> A" "asked_by t0 q0 s0"
    and "\<And>a m. ok a m \<Longrightarrow> node_address ` set (heard_nodes m) \<subseteq> A"
    and "t \<le> now" "now \<le> t + gap"
    and "t0 + timeout (inflight s0) + card (A - set (iq_visited q0)) * (timeout (inflight s0) + gap) < now"
  shows "fst (query_tick now w)"
proof (rule ccontr)
  let ?k0 = "card (A - set (iq_visited q0))" and ?t = "timeout (inflight s0)"
  assume "\<not> fst (query_tick now w)"
  then obtain w' where w': "query_tick now w = (False, w')" by (cases "query_tick now w") simp
  have "lookup env ok gap t0 (q0, s0, r0) H now w'" by (rule lookup_tick [OF assms(1,6,7) w'])
  then have "in_time A gap ?t t0 ?k0 now w'" by (rule in_time_run) (use assms(2-5) in auto)
  moreover obtain q s r where "w' = (q, s, r)" by (metis prod_cases3)
  ultimately obtain l k where "now \<le> l + ?t" "k + card (A - set (iq_visited q)) \<le> ?k0" "l \<le> t0 + k * (?t + gap)"
    unfolding in_time_def by auto
  moreover from this(2) have "k \<le> ?k0" by simp
  moreover from this have "k * (?t + gap) \<le> ?k0 * (?t + gap)" by (rule mult_le_mono1)
  ultimately show False using assms(8) by simp
qed

section \<open>A lookup finds the closest nodes\<close>

text \<open>A node of the network is an id with its address; \<open>net\<close> lists them, the closest to the target first, secure ones before insecure ones, as the
  candidates are listed. No two share an id or a socket address,
  and nodes of one IP address are all secure and differ in the first 21 bits of their ids, so that none keeps another out of a list.\<close>

definition spot :: "node \<Rightarrow> id \<times> sock_addr" where
  "spot n = (node_id n, node_address n)"

definition spot_key :: "crc32c \<Rightarrow> id \<Rightarrow> id \<times> sock_addr \<Rightarrow> bool \<times> id" where
  "spot_key crc t p = closest_key crc t (node_new 0 (fst p) (snd p))"

lemma closest_key_spot: "closest_key crc t n = spot_key crc t (spot n)"
  by (simp add: closest_key_def spot_key_def spot_def is_secure_def node_new_def)

definition network :: "crc32c \<Rightarrow> id \<Rightarrow> (id \<times> sock_addr) list \<Rightarrow> bool" where
  "network crc t net \<longleftrightarrow> sorted_wrt (<) (map (spot_key crc t) net) \<and> distinct (map fst net) \<and> distinct (map snd net) \<and>
     (\<forall>p \<in> set net. \<forall>p' \<in> set net. p \<noteq> p' \<longrightarrow> sa_ip (snd p) = sa_ip (snd p') \<longrightarrow>
        is_valid_for_ip crc (fst p') (sa_ip (snd p')) \<and> id_first_21_bits (fst p) \<noteq> id_first_21_bits (fst p'))"

text \<open>An honest answer names only nodes of the network. The closest node of all names the twenty closest, apart from itself, and any other node names one that is
  closer than itself. A token comes with the node's own id.\<close>

definition told :: "crc32c \<Rightarrow> id \<Rightarrow> (id \<times> sock_addr) list \<Rightarrow> id \<times> sock_addr \<Rightarrow> (id \<times> sock_addr) set \<Rightarrow> bool" where
  "told crc t net p X \<longleftrightarrow> (if p = hd net then set (take 20 net) \<subseteq> insert p X else \<exists>x \<in> X. spot_key crc t x < spot_key crc t p)"


definition honest :: "crc32c \<Rightarrow> id \<Rightarrow> (id \<times> sock_addr) list \<Rightarrow> sock_addr \<Rightarrow> message \<Rightarrow> bool" where
  "honest crc t net a m \<longleftrightarrow> spot ` set (heard_nodes m) \<subseteq> set net \<and>
     (\<exists>p \<in> set net. snd p = a \<and> (case get_token m of Some (rid, _) \<Rightarrow> rid = fst p | None \<Rightarrow> True) \<and>
        told crc t net p (spot ` set (heard_nodes m)))"

text \<open>A candidate list that holds nodes of the network only admits each of them.\<close>

definition lists_net :: "crc32c \<Rightarrow> id \<Rightarrow> (id \<times> sock_addr) list \<Rightarrow> closest_nodes \<Rightarrow> bool" where
  "lists_net crc t net c \<longleftrightarrow> closest_inv crc c \<and> cn_target c = t \<and> spot ` set (cn_nodes c) \<subseteq> set net"

lemma network_unique:
  assumes "network crc t net" "p \<in> set net" "p' \<in> set net"
  shows "fst p = fst p' \<Longrightarrow> p = p'" "snd p = snd p' \<Longrightarrow> p = p'"
    and "sa_ip (snd p) = sa_ip (snd p') \<Longrightarrow>
      \<not> is_valid_for_ip crc (fst p') (sa_ip (snd p')) \<or> id_first_21_bits (fst p) = id_first_21_bits (fst p') \<Longrightarrow> p = p'"
proof -
  show "fst p = fst p' \<Longrightarrow> p = p'" "snd p = snd p' \<Longrightarrow> p = p'" using assms by (auto simp: network_def distinct_map inj_on_def)
  show "sa_ip (snd p) = sa_ip (snd p') \<Longrightarrow>
      \<not> is_valid_for_ip crc (fst p') (sa_ip (snd p')) \<or> id_first_21_bits (fst p) = id_first_21_bits (fst p') \<Longrightarrow> p = p'"
    using assms unfolding network_def by blast
qed

lemma spot_key_fst: "spot_key crc t p = spot_key crc t p' \<Longrightarrow> fst p = fst p'"
  by (simp add: spot_key_def closest_key_def node_new_def id_xor_cancel)

lemma lists_net_add_all:
  assumes "network crc t net" "lists_net crc t net c" "spot ` set ns \<subseteq> set net"
  shows "lists_net crc t net (closest_add_all crc c ns)"
    "spot ` set (cn_nodes c) \<union> spot ` set ns \<subseteq> spot ` set (cn_nodes (closest_add_all crc c ns))"
proof -
  let ?c = "closest_add_all crc c ns"
  have sub: "spot ` set (cn_nodes ?c) \<subseteq> set net" 
    using image_mono [OF closest_add_all_addresses [of crc c ns], of spot] assms(2,3) unfolding lists_net_def image_Un by blast
  show "lists_net crc t net ?c" using assms(2) sub by (simp add: lists_net_def closest_inv_add_all)
  have "spot n \<in> spot ` set (cn_nodes ?c)" if n: "n \<in> set ns" for n
  proof -
    have net: "spot n \<in> set net" using n assms(3) by blast
    let ?blocks = "\<lambda>e. same_ip n e \<and> (\<not> is_secure crc e \<or> id_first_21_bits (node_id n) = id_first_21_bits (node_id e))"
    have same: "spot n = spot e" if e: "e \<in> set (cn_nodes ?c)" "?blocks e \<or> closest_key crc t n = closest_key crc t e" for e
    proof -
      have "spot e \<in> set net" using e(1) sub by blast
      note unique = network_unique [OF assms(1) net this]
      show ?thesis using e(2)
      proof
        assume "?blocks e"
        then show ?thesis by (intro unique(3)) (auto simp: same_ip_def is_secure_def spot_def)
      next
        assume "closest_key crc t n = closest_key crc t e"
        then show ?thesis unfolding closest_key_spot by (rule unique(1) [OF spot_key_fst])
      qed
    qed
    from closest_add_all_offered [OF _ n, of crc c] assms(2)
    consider "n \<in> set (cn_nodes ?c)" | "already_exists crc n (cn_nodes ?c)"
      | "closest_key crc t n \<in> closest_key crc t ` set (cn_nodes ?c)"
      unfolding lists_net_def Let_def by blast
    then obtain e where "e \<in> set (cn_nodes ?c)" "n = e \<or> ?blocks e \<or> closest_key crc t n = closest_key crc t e"
      by cases (auto simp: already_exists_def list_ex_iff)
    then have "e \<in> set (cn_nodes ?c)" "spot n = spot e" using same [of e] by auto
    then show ?thesis by (rule image_eqI [rotated])
  qed
  then show "spot ` set (cn_nodes c) \<union> spot ` set ns \<subseteq> spot ` set (cn_nodes ?c)" using closest_add_all_keeps by blast
qed












section \<open>Servers answer honestly\<close>

lemma sorted_take_member:
  fixes f :: "'a \<Rightarrow> 'b :: linorder"
  assumes "sorted_wrt (<) (map f xs)" "sorted_wrt (<) (map f ys)" "set xs \<subseteq> set ys" "x \<in> set xs" "x \<in> set (take k ys)"
  shows "x \<in> set (take k xs)"
  using assms
proof (induction k arbitrary: xs ys)
  case (Suc k)
  obtain y ys' where ys: "ys = y # ys'" using Suc.prems(5) by (cases ys) auto
  obtain z zs where xs: "xs = z # zs" using Suc.prems(4) by (cases xs) auto
  show ?case
  proof (cases "z = y")
    case True
    have "z \<notin> set zs" using Suc.prems(1) by (auto simp: xs)
    then have "set zs \<subseteq> set ys'" using Suc.prems(3) True by (auto simp: xs ys)
    then show ?thesis using Suc.IH [of zs ys'] Suc.prems(1,2,4,5) True by (auto simp: xs ys)
  next
    case False
    have "z \<in> set ys'" using Suc.prems(3) False by (auto simp: xs ys)
    then have "f y < f z" using Suc.prems(2) by (auto simp: ys)
    then have y: "y \<notin> set xs" using Suc.prems(1) by (auto simp: xs dest: order.strict_trans)
    then have "x \<in> set (take k xs)" using Suc.IH [of xs ys'] Suc.prems by (auto simp: ys)
    then show ?thesis using set_take_subset_set_take [of k "Suc k" xs] by auto
  qed
qed simp

text \<open>A routing table that serves lookups of \<open>t\<close>: the closest node of all knows its neighbourhood, and any other a node closer than itself.\<close>

definition routes :: "crc32c \<Rightarrow> id \<Rightarrow> (id \<times> sock_addr) list \<Rightarrow> id \<times> sock_addr \<Rightarrow> routing_table \<Rightarrow> bool" where
  "routes crc t net p table \<longleftrightarrow> rt_id table = fst p \<and> spot ` set (rt_entries table) \<subseteq> set net \<and> told crc t net p (spot ` set (rt_entries table))"

lemma table_answers:
  assumes "network crc t net" "routes crc t net p table"
  shows "spot ` set (rt_closest crc table t) \<subseteq> set net" "told crc t net p (spot ` set (rt_closest crc table t))"
proof -
  let ?c = "closest_add_all crc (closest_new t) (rt_entries table)" and ?X = "spot ` set (rt_entries table)"
  let ?xs = "map spot (cn_nodes ?c)"
  have X: "?X \<subseteq> set net" "told crc t net p ?X" using assms(2) by (simp_all add: routes_def)
  have "lists_net crc t net (closest_new t)" by (simp add: lists_net_def)
  note added = lists_net_add_all [OF assms(1) this X(1)]
  have xs: "set ?xs = ?X" using added(2) image_mono [OF closest_add_all_addresses [of crc "closest_new t" "rt_entries table"], of spot] by auto
  have found: "spot ` set (rt_closest crc table t) = set (take 20 ?xs)" by (simp add: rt_closest_entries take_map)
  show "spot ` set (rt_closest crc table t) \<subseteq> set net" using X(1) xs set_take_subset [of 20 ?xs] unfolding found by simp
  have "map (spot_key crc t) ?xs = map (closest_key crc t) (cn_nodes ?c)" by (simp add: closest_key_spot)
  then have sorted: "sorted_wrt (<) (map (spot_key crc t) ?xs)" "sorted_wrt (<) (map (spot_key crc t) net)"
    using added(1) assms(1) by (auto simp: lists_net_def closest_inv_def network_def simp del: map_map map_eq_conv)
  show "told crc t net p (spot ` set (rt_closest crc table t))"
  proof (cases "p = hd net")
    case True
    have "x \<in> set (take 20 ?xs)" if "x \<in> set (take 20 net)" "x \<noteq> p" for x
      by (rule sorted_take_member [OF sorted]) (use that X xs True in \<open>auto simp: told_def\<close>)
    then show ?thesis unfolding found told_def using True by auto
  next
    case False
    then have "\<exists>x \<in> set ?xs. spot_key crc t x < spot_key crc t p" using X(2) unfolding told_def xs by simp
    then obtain x where x: "x \<in> set ?xs" "spot_key crc t x < spot_key crc t p" by (rule bexE)
    then obtain y ys where ys: "?xs = y # ys" by (cases ?xs) auto
    have "spot_key crc t y \<le> spot_key crc t x" using sorted(1) x(1) unfolding ys by auto
    then have "y \<in> set (take 20 ?xs)" "spot_key crc t y < spot_key crc t p" using x(2) unfolding ys by simp_all
    then show ?thesis unfolding found told_def using False by auto
  qed
qed

text \<open>The target of the three requests that carry a lookup.\<close>

definition lookup_target :: "request_type_specific \<Rightarrow> id option" where
  "lookup_target request = (case request of FindNodeRequest a \<Rightarrow> Some (fnq_target a) | GetPeersRequest a \<Rightarrow> Some (gpq_info_hash a)
     | GetValueRequest a \<Rightarrow> Some (gvq_target a) | _ \<Rightarrow> None)"

lemma lookup_answer:
  assumes "lookup_target (request_type req) = Some t" "fst (server_handle_request crc cr st now r table from_addr req srv) = Some ans"
  obtains resp where "ans = Response resp" "response_nodes resp = Some (rt_closest crc table t)"
    "case response_token resp of Some (rid, _) \<Rightarrow> rid = rt_id table | None \<Rightarrow> True"
proof -
  have "\<exists>resp. ans = Response resp \<and> response_nodes resp = Some (rt_closest crc table t) \<and>
      (case response_token resp of Some (rid, _) \<Rightarrow> rid = rt_id table | None \<Rightarrow> True)"
    using assms
    by (auto simp: lookup_target_def server_handle_request_def handle_get_peers_def handle_get_value_def handle_get_mutable_def case_prod_beta Let_def
      split: request_type_specific.splits if_splits option.splits bool.splits)
  then show ?thesis using that by blast
qed

text \<open>C10: servers answer honestly. Whatever a server stores, its answer to a find_node, get_peers or get of the target, as the asking node
  decodes it, is honest if its routing table serves lookups of the target.\<close>

theorem server_answers_honestly:
  assumes "network crc t net" "routes crc t net p table" "p \<in> set net" "lookup_target (request_type req) = Some t"
    and "fst (server_handle_request crc cr st now r table from_addr req srv) = Some ans" "message_type m = ans"
  shows "honest crc t net (snd p) (wire_view now' m)"
proof -
  obtain resp where resp: "ans = Response resp" "response_nodes resp = Some (rt_closest crc table t)"
    "case response_token resp of Some (rid, _) \<Rightarrow> rid = rt_id table | None \<Rightarrow> True" by (rule lookup_answer [OF assms(4,5)])
  have seen: "get_token (wire_view now' m) = response_token resp"
    "map_option (map spot) (get_closer_nodes (wire_view now' m)) = Some (map spot (rt_closest crc table t))"
    using wire_view_keeps [of now' m] resp(1,2) assms(6) by (simp_all add: get_token_def get_closer_nodes_def spot_def [abs_def])
  then have "map spot (heard_nodes (wire_view now' m)) = map spot (rt_closest crc table t)" by (auto simp: heard_nodes_def)
  then have spots: "spot ` set (heard_nodes (wire_view now' m)) = spot ` set (rt_closest crc table t)" by (metis list.set_map)
  have "rt_id table = fst p" using assms(2) by (simp add: routes_def)
  with resp(3) have "case get_token (wire_view now' m) of Some (rid, _) \<Rightarrow> rid = fst p | None \<Rightarrow> True"
    unfolding seen(1) by (auto split: option.splits)
  then show ?thesis using table_answers [OF assms(1,2)] assms(3) unfolding honest_def spots by blast
qed

text \<open>In particular the full tables of a small network, such as a seeded test network, serve every lookup.\<close>

lemma full_table_routes:
  assumes "network crc t net" "rt_id table = fst p" "spot ` set (rt_entries table) = set net - {p}" "p \<in> set net"
  shows "routes crc t net p table"
proof -
  obtain c cs where net: "net = c # cs" using assms(4) by (cases net) auto
  have "spot_key crc t c < spot_key crc t p" if "p \<noteq> c" using assms(1,4) that by (auto simp: network_def net)
  moreover have "set (take 20 net) \<subseteq> insert p (set net - {p})" using set_take_subset [of 20 net] by blast
  ultimately show ?thesis using assms(2,3) unfolding routes_def told_def by (auto simp: net)
qed

section \<open>A network of two nodes\<close>

text \<open>The target is the id of zeros; both nodes have private addresses, so that both count as secure.\<close>

definition wit_near :: node where "wit_near = wit_node 1 0x0A000001"

definition wit_far :: node where "wit_far = wit_node 2 0x0A000002"

definition wit_net :: "(id \<times> sock_addr) list" where
  "wit_net = [spot wit_near, spot wit_far]"

definition wit_names :: "node \<Rightarrow> node \<Rightarrow> message" where
  "wit_names n other = \<lparr>transaction_id = 0, version = None, requester_ip = None,
     message_type = Response (NoValuesResponse \<lparr>nvr_responder_id = node_id n, nvr_token = [], nvr_nodes = Some [other]\<rparr>), read_only = False\<rparr>"

lemma wit_net_facts:
  "network (\<lambda>_. 0) (id_of []) wit_net" "honest (\<lambda>_. 0) (id_of []) wit_net (node_address wit_far) (wit_names wit_far wit_near)"
  "honest (\<lambda>_. 0) (id_of []) wit_net (node_address wit_near) (wit_names wit_near wit_far)"
  by code_simp+


definition wit_lookup :: iterative_query where
  "wit_lookup = add_candidate (\<lambda>_. 0) wit_far (query_new (id_of []) (id_of []) (GetGetPeers \<lparr>gpq_info_hash = id_of []\<rparr>))"


lemma wit_lookup_start: "iq_closest wit_lookup = closest_add_all (\<lambda>_. 0) (closest_new (id_of [])) [wit_far]"
  "iq_responders wit_lookup = closest_new (id_of [])" "iq_visited wit_lookup = []" "iq_inflight_requests wit_lookup = []"
  by (simp_all add: wit_lookup_def add_candidate_def query_new_def)





text \<open>The lookup that asks one address and hears nothing.\<close>

theorem lookup_ends_in_time_witness:
  "\<exists>w. query_tick (10 + 3 * DEFAULT_REQUEST_TIMEOUT) (wit_lookup, wit_socket, \<lambda>_. 7) = (False, w) \<and>
     fst (query_tick (10 + 6 * DEFAULT_REQUEST_TIMEOUT) w)"
proof -
  let ?gap = "3 * DEFAULT_REQUEST_TIMEOUT" and ?never = "\<lambda>_ _. False"
  have c: "cn_nodes (iq_closest wit_lookup) = [wit_far]" unfolding wit_lookup_start by code_simp
  have "\<not> fst (query_tick (10 + ?gap) (wit_lookup, wit_socket, \<lambda>_. 7))"
    by (simp add: query_tick_def visit_closest_def to_visit_alt c wit_lookup_start(2-4) query_visit_def case_prod_beta Let_def
      socket_inflight_def inflight_contains_def inflight_add_def elapsed_def wit_socket_def const_facts)
  then obtain w where w: "query_tick (10 + ?gap) (wit_lookup, wit_socket, \<lambda>_. 7) = (False, w)"
    by (cases "query_tick (10 + ?gap) (wit_lookup, wit_socket, \<lambda>_. 7)") simp
  have run: "lookup wit_env ?never ?gap 10 (wit_lookup, wit_socket, \<lambda>_. 7) {} (10 + ?gap) w"
    by (rule lookup_tick [OF lookup_start _ _ w]) simp_all
  have "fst (query_tick (10 + 6 * DEFAULT_REQUEST_TIMEOUT) w)"
    by (rule lookup_ends_in_time [OF run, where A = "{node_address wit_far}"])
      (simp_all add: c asked_by_def wit_lookup_start(2-4) wit_socket_def const_facts)
  then show ?thesis using w by blast
qed

definition wit_table :: routing_table where
  "wit_table = \<lparr>rt_id = node_id wit_far, rt_buckets = [0 \<mapsto> \<lparr>kb_nodes = [wit_near]\<rparr>]\<rparr>"

definition wit_find_node :: request_specific where
  "wit_find_node = \<lparr>requester_id = id_of [], request_type = FindNodeRequest \<lparr>fnq_target = id_of []\<rparr>\<rparr>"

definition wit_find_node_answer :: message_type where
  "wit_find_node_answer = the (fst (server_handle_request (\<lambda>_. 0) wit_crypto wit_stores 0 (\<lambda>_. 0) wit_table (sock_addr_new 1 2) wit_find_node
     (fst (server_new wit_stores 0 (\<lambda>_. 0) server_settings_default))))"

theorem server_answers_honestly_witness:
  "honest (\<lambda>_. 0) (id_of []) wit_net (snd (spot wit_far)) (wire_view 5 \<lparr>transaction_id = 0, version = None, requester_ip = None,
     message_type = wit_find_node_answer, read_only = False\<rparr>)"
proof -
  have "set (rt_entries wit_table) = {wit_near}"
    by (auto simp: set_rt_entries wit_table_def split: option.splits if_splits)
  moreover have "spot_key (\<lambda>_. 0) (id_of []) (spot wit_near) < spot_key (\<lambda>_. 0) (id_of []) (spot wit_far)" "spot wit_near \<noteq> spot wit_far"
    by code_simp+
  ultimately have routes: "routes (\<lambda>_. 0) (id_of []) wit_net (spot wit_far) wit_table"
    by (simp add: routes_def told_def wit_net_def wit_table_def spot_def)
  show ?thesis
    by (rule server_answers_honestly [OF wit_net_facts(1) routes, where req = wit_find_node and cr = wit_crypto and
        st = wit_stores and srv = "fst (server_new wit_stores 0 (\<lambda>_. 0) server_settings_default)" and from_addr = "sock_addr_new 1 2" and
        r = "\<lambda>_. 0" and now = 0])
      (simp_all add: wit_net_def lookup_target_def wit_find_node_def wit_find_node_answer_def server_handle_request_def server_new_def
        server_settings_default_def default_filter_def case_prod_beta Let_def)
qed

end
