(* ===== verification/Server_Spec.thy ===== *)
theory Server_Spec
  imports Server
begin

text \<open>
  What the item stores of the server (\<^verbatim>\<open>src/src/rpc/server.rs\<close>) promise, as an abstract service: two maps from targets to values and a
  function that says which puts are accepted and what a get finds. The caches, tokens and answer messages of the code are gone;
  what remains of the caches is that an accepted put may evict one other item when the store is full. The theorem is the refinement:
  every request takes the abstraction of the server's state to what the service allows, and is answered as the
  service says.
\<close>

section \<open>The service\<close>

record item_service =
  sv_immutable :: "id \<rightharpoonup> bytes"
  sv_mutable :: "id \<rightharpoonup> mutable_item"

datatype service_answer = FoundImmutable bytes | FoundMutable mutable_item | NotNewer i64 | NothingFound

definition service_get :: "item_service \<Rightarrow> get_value_request_args \<Rightarrow> service_answer" where
  "service_get s g =
     (case (gvq_seq g, sv_immutable s (gvq_target g)) of
        (None, Some v) \<Rightarrow> FoundImmutable v
      | (known, _) \<Rightarrow>
          (case sv_mutable s (gvq_target g) of
             None \<Rightarrow> NothingFound
           | Some item \<Rightarrow> (case known of
               Some seq \<Rightarrow> if mi_seq item \<le> seq then NotNewer (mi_seq item) else FoundMutable item
             | None \<Rightarrow> FoundMutable item)))"

text \<open>A put is refused (\<open>None\<close>) or gives the store with the item.\<close>

definition service_put :: "crypto \<Rightarrow> item_service \<Rightarrow> put_request_specific \<Rightarrow> item_service option" where
  "service_put cr s request =
     (case request of
        PutImmutable a \<Rightarrow>
          if length (pi_v a) \<le> 1000 \<and> validate_immutable cr (pi_v a) (pi_target a)
          then Some (s\<lparr>sv_immutable := (sv_immutable s)(pi_target a \<mapsto> pi_v a)\<rparr>) else None
      | PutMutable a \<Rightarrow>
          (case from_dht_message cr (pm_target a) (pm_k a) (pm_v a) (pm_seq a) (pm_sig a) (pm_salt a) of
             Inl _ \<Rightarrow> None
           | Inr item \<Rightarrow>
               if length (pm_v a) \<le> 1000 \<and> (case pm_salt a of Some salt \<Rightarrow> length salt \<le> 64 | None \<Rightarrow> True) \<and>
                  (case sv_mutable s (pm_target a) of
                     Some prev \<Rightarrow> mi_seq prev \<le> pm_seq a \<and> pm_cas a \<in> {None, Some (mi_seq prev)} | None \<Rightarrow> True)
               then Some (s\<lparr>sv_mutable := (sv_mutable s)(pm_target a \<mapsto> item)\<rparr>) else None)
      | AnnouncePeer _ \<Rightarrow> Some s)"

text \<open>A map of at most \<open>cap\<close> entries keeps what it was given, or evicts one other entry when it would hold more.\<close>

definition bounded_to :: "nat \<Rightarrow> 'k \<Rightarrow> ('k \<rightharpoonup> 'v) \<Rightarrow> ('k \<rightharpoonup> 'v) \<Rightarrow> bool" where
  "bounded_to cap k m m' \<longleftrightarrow> m' = m \<or> cap < card (dom m) \<and> (\<exists>j. j \<noteq> k \<and> m' = m(j := None))"

section \<open>The abstraction\<close>

definition abs_service :: "('pc, 'ic, 'im, 'mu) stores \<Rightarrow> ('ic, 'im, 'mu) server \<Rightarrow> item_service" where
  "abs_service st srv = \<lparr>sv_immutable = lru_lookup (st_immutable st) (immutable_values srv),
     sv_mutable = lru_lookup (st_mutable st) (mutable_values srv)\<rparr>"

text \<open>What a get sees in an answer; a mutable item is sent without its salt and target, which the asker knows.\<close>

definition answers :: "message_type \<Rightarrow> service_answer \<Rightarrow> bool" where
  "answers ans found \<longleftrightarrow> (case (ans, found) of
      (Response (GetImmutableResponse r), FoundImmutable v) \<Rightarrow> gir_v r = v
    | (Response (GetMutableResponse r), FoundMutable item) \<Rightarrow>
        gmr_v r = mi_value item \<and> gmr_k r = mi_key item \<and> gmr_seq r = mi_seq item \<and> gmr_sig r = mi_signature item
    | (Response (NoMoreRecentResponse r), NotNewer seq) \<Rightarrow> nmr_seq r = seq
    | (Response (NoValuesResponse r), NothingFound) \<Rightarrow> True
    | _ \<Rightarrow> False)"

lemma lru_put_bounded:
  assumes "lru_cache ops" "lru_ok ops c" "0 < lru_cap ops c"
  shows "bounded_to (lru_cap ops c) k ((lru_lookup ops c)(k \<mapsto> v)) (lru_lookup ops (snd (lru_put ops c k v)))"
proof -
  let ?cap = "lru_cap ops c" and ?w = "without k (lru_iter ops c)"
  have it: "lru_iter ops (snd (lru_put ops c k v)) = take ?cap ((k, v) # ?w)"
    using lru_cache.put [OF assms(1), of c k v "fst (lru_put ops c k v)" "snd (lru_put ops c k v)"] by simp
  have len: "length ?w \<le> ?cap" using assms(2)
    unfolding lru_ok_def without_def by (blast intro: order_trans [OF length_filter_le])
  have full: "(lru_lookup ops c)(k \<mapsto> v) = map_of ((k, v) # ?w)"
    using lru_cache.map_of_without [OF assms(1), of _ k "lru_iter ops c"] by (auto simp: lru_lookup_def fun_eq_iff)
  show ?thesis
  proof (cases "length ?w < ?cap")
    case True
    then have "take ?cap ((k, v) # ?w) = (k, v) # ?w" by simp
    then show ?thesis unfolding bounded_to_def full lru_lookup_def it by simp
  next
    case False
    then have l: "length ?w = ?cap" using len by simp
    then have ne: "?w \<noteq> []" using assms(3) by auto
    obtain j x where jx: "last ?w = (j, x)" by fastforce
    have w: "?w = butlast ?w @ [(j, x)]" using ne jx by (metis append_butlast_last_id)
    have "distinct (map fst ?w)" using assms(2) unfolding lru_ok_def by (blast intro: lru_cache.without_distinct [OF assms(1)])
    then have d: "distinct (map fst (butlast ?w @ [(j, x)]))" using w by simp
    then have nj: "j \<notin> fst ` set (butlast ?w)" by auto
    have jk: "j \<noteq> k" using lru_cache.without_fst [OF assms(1), of k "lru_iter ops c"] w by (metis fst_conv image_eqI in_set_conv_decomp)
    have "take ?cap ((k, v) # ?w) = (k, v) # butlast ?w"
      using l assms(3) by (cases ?cap) (simp_all add: butlast_conv_take)
    moreover have "map_of ((k, v) # butlast ?w) = (map_of ((k, v) # ?w))(j := None)"
    proof -
      have "map_of (butlast ?w) j = None" using nj by (simp add: map_of_eq_None_iff)
      then have "map_of (butlast ?w) = (map_of (butlast ?w @ [(j, x)]))(j := None)"
        by (auto simp: fun_eq_iff map_add_def split: option.split)
      then show ?thesis using jk w by (auto simp: fun_eq_iff)
    qed
    moreover have "?cap < card (dom (map_of ((k, v) # ?w)))"
    proof -
      have "distinct (map fst ((k, v) # ?w))"
        using d w lru_cache.without_fst [OF assms(1), of k "lru_iter ops c"] by simp
      then have "card (dom (map_of ((k, v) # ?w))) = length ((k, v) # ?w)"
        by (metis dom_map_of_conv_image_fst distinct_card length_map set_map)
      then show ?thesis using l by simp
    qed
    ultimately show ?thesis using jk unfolding bounded_to_def full lru_lookup_def it by auto
  qed
qed

text \<open>What the service allows a request to do, given whether it carries a valid token and the capacities of the two stores.\<close>

definition service_step ::
  "crypto \<Rightarrow> nat \<Rightarrow> nat \<Rightarrow> (bytes \<Rightarrow> bool) \<Rightarrow> request_type_specific \<Rightarrow> item_service \<Rightarrow> message_type \<Rightarrow> item_service \<Rightarrow> bool" where
  "service_step cr icap mcap valid request s ans s' \<longleftrightarrow>
     (case request of
        GetValueRequest g \<Rightarrow> answers ans (service_get s g) \<and> s' = s
      | PutRequestOf p \<Rightarrow>
          (case if valid (put_token p) then service_put cr s (put_request_type p) else None of
             None \<Rightarrow> (\<exists>err. ans = ErrorMessage err) \<and> s' = s
           | Some s1 \<Rightarrow> (\<exists>r. ans = Response (PingResponse r)) \<and>
               (case put_request_type p of
                  PutImmutable a \<Rightarrow> sv_mutable s' = sv_mutable s1 \<and> bounded_to icap (pi_target a) (sv_immutable s1) (sv_immutable s')
                | PutMutable a \<Rightarrow> sv_immutable s' = sv_immutable s1 \<and> bounded_to mcap (pm_target a) (sv_mutable s1) (sv_mutable s')
                | AnnouncePeer _ \<Rightarrow> s' = s1))
      | _ \<Rightarrow> s' = s)"

lemma abs_service_tokens [simp]: "abs_service st (srv\<lparr>srv_tokens := tk\<rparr>) = abs_service st srv"
  "abs_service st (srv\<lparr>srv_peers := ps\<rparr>) = abs_service st srv"
  by (simp_all add: abs_service_def)

lemma abs_service_get [simp]:
  assumes "stores_ok st"
  shows "abs_service st (srv\<lparr>immutable_values := snd (lru_get (st_immutable st) (immutable_values srv) k)\<rparr>) = abs_service st srv"
    "abs_service st (srv\<lparr>mutable_values := snd (lru_get (st_mutable st) (mutable_values srv) k)\<rparr>) = abs_service st srv"
  using assms by (simp_all add: abs_service_def stores_ok_def lru_cache.get_lookup fun_eq_iff)

lemma get_mutable_refines:
  assumes "stores_ok st" "seq \<noteq> None \<or> sv_immutable (abs_service st srv) target = None"
  shows "answers (Response (fst (handle_get_mutable crc st rt a target seq srv)))
     (service_get (abs_service st srv) \<lparr>gvq_target = target, gvq_seq = seq, gvq_salt = salt\<rparr>)"
proof -
  have "fst (lru_get (st_mutable st) (mutable_values srv) target) = sv_mutable (abs_service st srv) target"
    using assms(1) by (simp add: stores_ok_def lru_cache.get_result abs_service_def)
  then show ?thesis using assms(2)
    by (cases seq; cases "sv_mutable (abs_service st srv) target")
      (auto simp: handle_get_mutable_def answers_def service_get_def case_prod_beta Let_def split: option.split)
qed

lemma get_refines:
  assumes "stores_ok st"
  shows "answers (fst (handle_get_value crc st rt a g srv)) (service_get (abs_service st srv) g) \<and>
     abs_service st (snd (handle_get_value crc st rt a g srv)) = abs_service st srv"
proof -
  note m = get_mutable_refines [OF assms]
  have i: "fst (lru_get (st_immutable st) (immutable_values srv) t) = sv_immutable (abs_service st srv) t" for t
    using assms by (simp add: stores_ok_def lru_cache.get_result abs_service_def)
  obtain t seq salt where g: "g = \<lparr>gvq_target = t, gvq_seq = seq, gvq_salt = salt\<rparr>" by (cases g)
  let ?srv1 = "srv\<lparr>immutable_values := snd (lru_get (st_immutable st) (immutable_values srv) t)\<rparr>"
  have a1: "abs_service st ?srv1 = abs_service st srv" using assms by simp
  show ?thesis
  proof (cases "seq = None")
    case False
    then show ?thesis using m [of seq srv t crc rt a salt] assms by (auto simp: g handle_get_value_def case_prod_beta Let_def)
  next
    case True
    show ?thesis
    proof (cases "sv_immutable (abs_service st srv) t")
      case None
      then show ?thesis using m [of seq ?srv1 t crc rt a salt] assms i [of t] True a1 abs_service_get(2) [OF assms, of ?srv1 t]
        by (auto simp: g handle_get_value_def case_prod_beta Let_def)
    next
      case (Some v)
      then show ?thesis using assms i [of t] True a1
        by (auto simp: g handle_get_value_def case_prod_beta Let_def answers_def service_get_def)
    qed
  qed
qed

text \<open>The puts, given that the token was checked.\<close>

abbreviation put_contract where
  "put_contract st cr p s srv result \<equiv>
     service_step cr (lru_cap (st_immutable st) (immutable_values srv)) (lru_cap (st_mutable st) (mutable_values srv)) (\<lambda>_. True)
       (PutRequestOf p) s (fst result) (abs_service st (snd result))"

lemma store_mutable_refines:
  assumes "stores_ok st" "lru_ok (st_mutable st) (mutable_values srv)" "0 < lru_cap (st_mutable st) (mutable_values srv)"
    and "length (pm_v a) \<le> 1000" "case pm_salt a of Some salt \<Rightarrow> length salt \<le> 64 | None \<Rightarrow> True"
    and "case sv_mutable (abs_service st srv) (pm_target a) of
      Some prev \<Rightarrow> mi_seq prev \<le> pm_seq a \<and> pm_cas a \<in> {None, Some (mi_seq prev)} | None \<Rightarrow> True"
  shows "put_contract st cr \<lparr>put_token = token, put_request_type = PutMutable a\<rparr> (abs_service st srv) srv (store_mutable cr st rt a srv)"
proof (cases "from_dht_message cr (pm_target a) (pm_k a) (pm_v a) (pm_seq a) (pm_sig a) (pm_salt a)")
  case (Inl e)
  then show ?thesis by (simp add: service_step_def service_put_def store_mutable_def error_answer_def)
next
  case (Inr item)
  have "lru_cache (st_mutable st)" using assms(1) by (simp add: stores_ok_def)
  from lru_put_bounded [OF this assms(2,3), of "pm_target a" item] show ?thesis using Inr assms(4-6)
    by (simp add: service_step_def service_put_def store_mutable_def ping_answer_def abs_service_def)
qed

lemma put_refines:
  assumes "stores_ok st" "server_inv cr st srv" "tokens_validate crc (srv_tokens srv) from_addr token"
  shows "put_contract st cr \<lparr>put_token = token, put_request_type = request\<rparr> (abs_service st srv) srv
    (handle_put crc cr st rt from_addr rid \<lparr>put_token = token, put_request_type = request\<rparr> srv)"
proof -
  have lru: "lru_cache (st_immutable st)" "lru_cache (st_mutable st)" using assms(1) by (simp_all add: stores_ok_def)
  have inv: "lru_ok (st_immutable st) (immutable_values srv)" "lru_ok (st_mutable st) (mutable_values srv)"
    "0 < lru_cap (st_immutable st) (immutable_values srv)" "0 < lru_cap (st_mutable st) (mutable_values srv)"
    using assms(2) by (simp_all add: server_inv_def)
  show ?thesis
  proof (cases request)
    case (AnnouncePeer a)
    then show ?thesis using assms(3)
      by (simp add: service_step_def service_put_def handle_put_def handle_announce_peer_def ping_answer_def Let_def)
  next
    case (PutImmutable a)
    then show ?thesis using assms(3) lru_put_bounded [OF lru(1) inv(1,3), of "pi_target a" "pi_v a"]
      by (simp add: service_step_def service_put_def handle_put_def handle_put_immutable_def ping_answer_def error_answer_def abs_service_def)
  next
    case (PutMutable a)
    let ?srv = "srv\<lparr>mutable_values := snd (lru_get (st_mutable st) (mutable_values srv) (pm_target a))\<rparr>"
    have ok: "lru_ok (st_mutable st) (mutable_values ?srv)" "0 < lru_cap (st_mutable st) (mutable_values ?srv)"
      using lru_cache.ok_get [OF lru(2) inv(2)] lru_cache.get_cap [OF lru(2)] inv(4) by simp_all
    have same: "abs_service st ?srv = abs_service st srv" using assms(1) by simp
    have prev: "fst (lru_get (st_mutable st) (mutable_values srv) (pm_target a)) = sv_mutable (abs_service st srv) (pm_target a)"
      by (simp add: lru_cache.get_result [OF lru(2)] abs_service_def)
    note store = store_mutable_refines [OF assms(1) ok, of a cr token rt, unfolded same]
    let ?ok = "length (pm_v a) \<le> 1000 \<and> (case pm_salt a of Some salt \<Rightarrow> length salt \<le> 64 | None \<Rightarrow> True) \<and>
      (case sv_mutable (abs_service st srv) (pm_target a) of
         Some prev \<Rightarrow> mi_seq prev \<le> pm_seq a \<and> pm_cas a \<in> {None, Some (mi_seq prev)} | None \<Rightarrow> True)"
    let ?h = "handle_put_mutable crc cr st rt from_addr token a srv"
    show ?thesis
    proof (cases ?ok)
      case True
      then have "?h = store_mutable cr st rt a ?srv" using assms(3) prev
        by (auto simp: handle_put_mutable_def case_prod_beta Let_def split: option.splits)
      then show ?thesis using store True by (simp add: PutMutable handle_put_def lru_cache.get_cap [OF lru(2)])
    next
      case False
      have "service_put cr (abs_service st srv) request = None" using False by (auto simp: service_put_def PutMutable split: sum.split)
      moreover have "(\<exists>err. fst ?h = ErrorMessage err) \<and> abs_service st (snd ?h) = abs_service st srv"
        using False assms(3) prev same
        by (auto simp: handle_put_mutable_def error_answer_def case_prod_beta Let_def not_le split: option.splits)
      ultimately show ?thesis by (simp add: service_step_def PutMutable handle_put_def)
    qed
  qed
qed

lemma put_refused_token:
  assumes "\<not> tokens_validate crc (srv_tokens srv) from_addr (put_token p)"
  shows "(\<exists>err. fst (handle_put crc cr st rt from_addr rid p srv) = ErrorMessage err) \<and>
    abs_service st (snd (handle_put crc cr st rt from_addr rid p srv)) = abs_service st srv"
  using assms
  by (simp add: handle_put_def handle_announce_peer_def handle_put_immutable_def handle_put_mutable_def error_answer_def
    split: put_request_specific.split)

text \<open>C16: the server implements the abstract item service: whatever request its filter lets through, it answers as the service says, and
  its stores afterwards are what the service allows. A get finds exactly what the maps hold and changes nothing; a put is acknowledged exactly when
  its token is valid and the service accepts it, and then the maps hold the item, all else as before but for at most
  one other item that is evicted from a full store; a refused put changes nothing.\<close>

theorem server_refines_service:
  assumes "stores_ok st" "server_inv cr st srv" "srv_filter srv request from_addr"
    and "server_handle_request crc cr st now r rt from_addr request srv = (answer, srv', r')"
  shows "\<exists>ans. answer = Some ans \<and>
    service_step cr (lru_cap (st_immutable st) (immutable_values srv)) (lru_cap (st_mutable st) (mutable_values srv))
      (tokens_validate crc (srv_tokens srv') from_addr) (request_type request) (abs_service st srv) ans (abs_service st srv')"
proof -
  obtain tk r1 where tk: "tokens_refresh now r (srv_tokens srv) = (tk, r1)" by fastforce
  let ?srv = "srv\<lparr>srv_tokens := tk\<rparr>"
  have inv: "server_inv cr st ?srv" using assms(2) by (simp add: server_inv_def)
  have run: "server_handle_request crc cr st now r rt from_addr request srv = (answer, srv', r')" by (rule assms(4))
  show ?thesis
  proof (cases "request_type request")
    case (GetValueRequest g)
    then show ?thesis using run assms(3) get_refines [OF assms(1), of crc rt from_addr g ?srv]
      by (auto simp: server_handle_request_def tk service_step_def case_prod_beta Let_def)
  next
    case (PutRequestOf p)
    let ?h = "handle_put crc cr st rt from_addr (requester_id request) p ?srv"
    have h: "answer = Some (fst ?h)" "srv' = snd ?h"
      using run assms(3) by (auto simp: server_handle_request_def tk PutRequestOf case_prod_beta Let_def)
    have t: "srv_tokens srv' = tk" unfolding h(2)
      by (auto simp: handle_put_def handle_announce_peer_def handle_put_immutable_def handle_put_mutable_def store_mutable_def Let_def
        split: put_request_specific.split prod.split option.split sum.split)
    obtain token pr where p: "p = \<lparr>put_token = token, put_request_type = pr\<rparr>" by (cases p)
    show ?thesis
    proof (cases "tokens_validate crc tk from_addr token")
      case True
      then show ?thesis using put_refines [OF assms(1) inv, of crc from_addr token pr rt "requester_id request"]
        unfolding t by (simp add: h p PutRequestOf service_step_def)
    next
      case False
      then show ?thesis using put_refused_token [of crc ?srv from_addr p cr st rt "requester_id request"]
        unfolding t by (simp add: h p PutRequestOf service_step_def)
    qed
  next
    case PingRequest
    then show ?thesis using run assms(3) by (auto simp: server_handle_request_def tk service_step_def Let_def)
  next
    case (FindNodeRequest f)
    then show ?thesis using run assms(3) by (auto simp: server_handle_request_def tk service_step_def Let_def)
  next
    case (GetPeersRequest f)
    then show ?thesis using run assms(3)
      by (auto simp: server_handle_request_def tk service_step_def handle_get_peers_def case_prod_beta Let_def)
  qed
qed

theorem server_refines_service_witness:
  "\<exists>ans. service_step wit_crypto 1000 1000 (tokens_validate (\<lambda>_. 0) (srv_tokens wit_server) (sock_addr_new 1 2))
     (request_type (wit_put (PutMutable (put_mutable_args_from (wit_item 4) (Some 3))))) (abs_service wit_stores wit_server) ans
     (abs_service wit_stores (wit_server\<lparr>mutable_values := (1000, [(mi_target (wit_item 3), wit_item 4)])\<rparr>))"
proof -
  let ?r = "server_handle_request (\<lambda>_. 0) wit_crypto wit_stores 0 (\<lambda>_. 0) (rt_new (id_of [])) (sock_addr_new 1 2)
      (wit_put (PutMutable (put_mutable_args_from (wit_item 4) (Some 3)))) wit_server"
  have srv': "fst (snd ?r) = wit_server\<lparr>mutable_values := (1000, [(mi_target (wit_item 3), wit_item 4)])\<rparr>"
    using wit_put_mutable [of "rt_new (id_of [])" "sock_addr_new 1 2"] by (simp add: Let_def)
  have r: "?r = (fst ?r, fst (snd ?r), snd (snd ?r))" by simp
  have "lru_cap (st_immutable wit_stores) (immutable_values wit_server) = 1000" "lru_cap (st_mutable wit_stores) (mutable_values wit_server) = 1000"
    by (simp_all add: wit_server_simps wit_stores_def list_lru_def)
  then show ?thesis using server_refines_service [OF wit_stores_ok wit_server_inv _ r] by (auto simp: wit_server_simps default_filter_def srv')
qed

end
