(* ===== verification/Testnet.thy ===== *)
theory Testnet
  imports Dht_Actor
begin

text \<open>
  The test network of \<^verbatim>\<open>src/src/dht.rs\<close> (\<open>TestnetBuilder\<close>, \<open>Testnet\<close>): several nodes of one machine, each of which is told about
  all others before the network is used. What differs between the nodes is in arguments indexed by the node: the
  operating system's bind, which has to find a free port, and the random supply. The messages of the main thread are
  handled in the order it sends them; the rounds that the actors run on their own meanwhile are left out. The theorems show that a network on a loopback address starts with full
  tables, and that one on the unspecified address, the default of \<open>Testnet::new\<close>, does not.
\<close>

section \<open>Building\<close>

record testnet_builder =
  tb_count :: nat
  tb_bind_address :: u32
  tb_seeded :: bool

definition LOCALHOST :: u32 where
  "LOCALHOST = 0x7F000001"

definition UNSPECIFIED :: u32 where
  "UNSPECIFIED = 0"

definition testnet_builder_new :: "nat \<Rightarrow> testnet_builder" where
  "testnet_builder_new cnt = \<lparr>tb_count = cnt, tb_bind_address = LOCALHOST, tb_seeded = True\<rparr>"

definition tb_set_bind_address :: "u32 \<Rightarrow> testnet_builder \<Rightarrow> testnet_builder" where
  "tb_set_bind_address ip b = b\<lparr>tb_bind_address := ip\<rparr>"

definition tb_set_seeded :: "bool \<Rightarrow> testnet_builder \<Rightarrow> testnet_builder" where
  "tb_set_seeded s b = b\<lparr>tb_seeded := s\<rparr>"

text \<open>\<open>Dht::new\<close>: start the actor and wait for the answer to its first message, which is the error of the node if it could not start.\<close>

definition dht_new ::
  "('pc, 'ic, 'im, 'mu, 'q, 'be) rpc_env \<Rightarrow> (sock_addr \<Rightarrow> 'io + sock_addr) \<Rightarrow> (bytes \<Rightarrow> 'io + (ip_addr \<times> u16) list) \<Rightarrow>
     instant \<Rightarrow> rng \<Rightarrow> config \<Rightarrow> 'io + ('ic, 'im, 'mu, 'q) actor" where
  "dht_new env bind resolve now r cfg =
     bindE (rpc_new env bind resolve now r cfg) (\<lambda>p. Inr (actor_new p))"

text \<open>\<open>DhtBuilder::build\<close>, \<open>Dht::client\<close> and \<open>Dht::server\<close>.\<close>

definition dht_build where
  "dht_build env bind resolve now r builder = dht_new env bind resolve now r builder"

definition dht_client where
  "dht_client env bind resolve now r = dht_build env bind resolve now r config_default"

definition dht_server where
  "dht_server env bind resolve now r = dht_build env bind resolve now r (builder_server_mode config_default)"

record ('ic, 'im, 'mu, 'q) testnet =
  tn_bootstrap :: "bytes list"
  tn_nodes :: "('ic, 'im, 'mu, 'q) actor list"

definition dht_info :: "('pc, 'ic, 'im, 'mu, 'q, 'be) rpc_env \<Rightarrow> ('ic, 'im, 'mu, 'q) actor \<Rightarrow> info" where
  "dht_info env a = rpc_info env (act_rpc a)"

text \<open>Sending \<open>SeedRouting\<close> and waiting for its answer.\<close>

definition dht_seed_routing ::
  "('pc, 'ic, 'im, 'mu, 'q, 'be) rpc_env \<Rightarrow> instant \<Rightarrow> node list \<Rightarrow> ('ic, 'im, 'mu, 'q) actor \<Rightarrow> ('ic, 'im, 'mu, 'q) actor" where
  "dht_seed_routing env now peers a =
     (case actor_receive env now (ActorSeedRouting peers 0) a of Some a' \<Rightarrow> a' | None \<Rightarrow> a)"

definition testnet_config :: "u32 \<Rightarrow> config" where
  "testnet_config ip = builder_bind_address ip (builder_no_bootstrap (builder_server_mode config_default))"

definition build_seeded ::
  "('pc, 'ic, 'im, 'mu, 'q, 'be) rpc_env \<Rightarrow> (nat \<Rightarrow> sock_addr \<Rightarrow> 'io + sock_addr) \<Rightarrow> (bytes \<Rightarrow> 'io + (ip_addr \<times> u16) list) \<Rightarrow>
     instant \<Rightarrow> (nat \<Rightarrow> rng) \<Rightarrow> nat \<Rightarrow> u32 \<Rightarrow> 'io + ('ic, 'im, 'mu, 'q) testnet" where
  "build_seeded env binds resolve now rngs cnt ip =
     bindE (traverse (\<lambda>i. dht_build env (binds i) resolve now (rngs i) (testnet_config ip)) [0..<cnt]) (\<lambda>nodes.
       let infos = map (dht_info env) nodes;
           seeded_nodes = map (\<lambda>inf. node_new now (info_id inf) (info_local_addr inf)) infos
       in Inr \<lparr>tn_bootstrap = map (\<lambda>inf. sock_addr_to_string (info_local_addr inf)) infos,
               tn_nodes = map2 (\<lambda>node inf. dht_seed_routing env now (filter (\<lambda>peer. node_id peer \<noteq> info_id inf) seeded_nodes) node)
                 nodes infos\<rparr>)"

text \<open>The loop of \<open>build_unseeded\<close>: the first node is the bootstrapping node of all others.\<close>

fun build_unseeded_loop ::
  "('pc, 'ic, 'im, 'mu, 'q, 'be) rpc_env \<Rightarrow> (nat \<Rightarrow> sock_addr \<Rightarrow> 'io + sock_addr) \<Rightarrow> (bytes \<Rightarrow> 'io + (ip_addr \<times> u16) list) \<Rightarrow>
     instant \<Rightarrow> (nat \<Rightarrow> rng) \<Rightarrow> u32 \<Rightarrow> nat list \<Rightarrow> ('ic, 'im, 'mu, 'q) testnet \<Rightarrow> 'io + ('ic, 'im, 'mu, 'q) testnet" where
  "build_unseeded_loop env binds resolve now rngs ip [] net = Inr net"
| "build_unseeded_loop env binds resolve now rngs ip (i # is) net =
     (if i = 0
      then bindE (dht_build env (binds i) resolve now (rngs i) (testnet_config ip)) (\<lambda>node.
        build_unseeded_loop env binds resolve now rngs ip is
          \<lparr>tn_bootstrap = tn_bootstrap net @ [sock_addr_to_string (info_local_addr (dht_info env node))],
           tn_nodes = tn_nodes net @ [node]\<rparr>)
      else bindE (dht_build env (binds i) resolve now (rngs i)
          (builder_bind_address ip (builder_bootstrap resolve (tn_bootstrap net) (builder_server_mode config_default)))) (\<lambda>node.
        build_unseeded_loop env binds resolve now rngs ip is (net\<lparr>tn_nodes := tn_nodes net @ [node]\<rparr>)))"

definition build_unseeded where
  "build_unseeded env binds resolve now rngs cnt ip =
     build_unseeded_loop env binds resolve now rngs ip [0..<cnt] \<lparr>tn_bootstrap = [], tn_nodes = []\<rparr>"

definition testnet_build where
  "testnet_build env binds resolve now rngs b =
     (if tb_seeded b then build_seeded env binds resolve now rngs (tb_count b) (tb_bind_address b)
      else build_unseeded env binds resolve now rngs (tb_count b) (tb_bind_address b))"

definition testnet_new where
  "testnet_new env binds resolve now rngs cnt = build_seeded env binds resolve now rngs cnt UNSPECIFIED"

definition testnet_new_unseeded where
  "testnet_new_unseeded env binds resolve now rngs cnt = build_unseeded env binds resolve now rngs cnt UNSPECIFIED"

section \<open>Seeding a table\<close>

abbreviation seed_table :: "crc32c \<Rightarrow> instant \<Rightarrow> routing_table \<Rightarrow> node list \<Rightarrow> routing_table" where
  "seed_table crc now t ns \<equiv> foldl (\<lambda>t n. fst (rt_add crc now t n)) t ns"

lemma rt_add_inserts:
  assumes "node_id n \<noteq> rt_id t" "\<not> already_exists crc n (rt_entries t)" "length (rt_entries t) < 20"
    and "\<forall>m \<in> set (rt_entries t). node_id m \<noteq> node_id n"
  shows "mset (rt_entries (fst (rt_add crc now t n))) = add_mset n (mset (rt_entries t))"
proof -
  let ?d = "id_distance (rt_id t) (node_id n)" and ?b = "bucket_for t n"
  have upd: "mset (rt_entries (fst (rt_add crc now t n))) + mset (kb_nodes ?b) =
      mset (rt_entries t) + mset (kb_nodes (fst (kbucket_add crc now ?b n)))"
    using mset_entries_upd [of ?d t "fst (kbucket_add crc now ?b n)"] id_distance_le [of "rt_id t" "node_id n"]
    by (simp add: rt_add_admitted [OF assms(1,2)] bucket_nodes_for)
  have b: "mset (kb_nodes ?b) \<subseteq># mset (rt_entries t)"
  proof -
    have "mset (rt_entries (t\<lparr>rt_buckets := (rt_buckets t)(?d \<mapsto> kbucket_new)\<rparr>)) + mset (kb_nodes ?b) = mset (rt_entries t)"
      using mset_entries_upd [of ?d t kbucket_new] id_distance_le [of "rt_id t" "node_id n"]
      by (simp add: bucket_nodes_for kbucket_new_def)
    then show ?thesis by (metis mset_subset_eq_add_right)
  qed
  then have "length (kb_nodes ?b) < 20" using assms(3) size_mset_mono [OF b] by simp
  moreover have "\<forall>m \<in> set (kb_nodes ?b). node_id m \<noteq> node_id n" using assms(4) set_mset_mono [OF b] by auto
  moreover have "position (\<lambda>m. node_id m = node_id n) (kb_nodes ?b) = None" using calculation(2) by simp
  ultimately have "kb_nodes (fst (kbucket_add crc now ?b n)) = kb_nodes ?b @ [n]"
    by (simp add: kbucket_add_def MAX_BUCKET_SIZE_K_def del: position_None)
  then have "mset (rt_entries (fst (rt_add crc now t n))) + mset (kb_nodes ?b) =
      add_mset n (mset (rt_entries t)) + mset (kb_nodes ?b)"
    unfolding upd by simp
  then show ?thesis by (rule add_right_imp_eq)
qed


abbreviation prefix_of :: "node \<Rightarrow> bytes" where
  "prefix_of n \<equiv> id_first_21_bits (node_id n)"

lemma seed_table_all:
  assumes "\<forall>n \<in> set ns. node_id n \<noteq> rt_id t" "\<forall>n \<in> set (rt_entries t @ ns). is_secure crc n"
    and "distinct (map prefix_of (rt_entries t @ ns))" "length (rt_entries t @ ns) \<le> 20"
  shows "mset (rt_entries (seed_table crc now t ns)) = mset (rt_entries t @ ns)"
  using assms
proof (induction ns arbitrary: t)
  case (Cons n ns)
  let ?t = "fst (rt_add crc now t n)"
  have new: "prefix_of m \<noteq> prefix_of n" if "m \<in> set (rt_entries t)" for m
    using Cons.prems(3) imageI [OF that, of prefix_of] by auto
  then have "\<not> already_exists crc n (rt_entries t)" "\<forall>m \<in> set (rt_entries t). node_id m \<noteq> node_id n"
    using Cons.prems(2) by (fastforce simp: already_exists_def list_ex_iff)+
  then have m: "mset (rt_entries ?t) = add_mset n (mset (rt_entries t))"
    using Cons.prems(1,4) by (intro rt_add_inserts) auto
  then have s: "mset (rt_entries ?t @ ns) = mset (rt_entries t @ n # ns)" by simp
  have "mset (rt_entries (seed_table crc now ?t ns)) = mset (rt_entries ?t @ ns)"
  proof (rule Cons.IH)
    show "distinct (map prefix_of (rt_entries ?t @ ns))"
      using Cons.prems(3) mset_eq_imp_distinct_iff [of "map prefix_of (rt_entries ?t @ ns)" "map prefix_of (rt_entries t @ n # ns)"] s
      by (metis mset_map)
    show "\<forall>m \<in> set (rt_entries ?t @ ns). is_secure crc m" using Cons.prems(2) s by (metis set_mset_mset)
    show "length (rt_entries ?t @ ns) \<le> 20" using Cons.prems(4) s by (metis size_mset)
  qed (use Cons.prems(1) in simp)
  then show ?case using s by simp
qed simp

lemma seed_table_stuck:
  assumes "rt_entries t = [m]" "\<not> is_secure crc m" "\<forall>n \<in> set ns. same_ip n m"
  shows "seed_table crc now t ns = t"
  using assms(3)
proof (induction ns)
  case (Cons n ns)
  then have "already_exists crc n (rt_entries t)" using assms(1,2) by (simp add: already_exists_def)
  then show ?case using Cons by (simp add: rt_add_rejects)
qed simp

lemma rt_entries_new [simp]: "rt_entries (rt_new a) = []"
  by (simp add: rt_entries_def rt_new_def)

lemma rt_id_new [simp]: "rt_id (rt_new a) = a"
  by (simp add: rt_new_def)

lemma seed_table_one:
  assumes "\<forall>n \<in> set ns. node_id n \<noteq> a \<and> \<not> is_secure crc n \<and> sa_ip (node_address n) = ip"
  shows "rt_entries (seed_table crc now (rt_new a) ns) = take 1 ns"
proof (cases ns)
  case (Cons m ms)
  have "mset (rt_entries (fst (rt_add crc now (rt_new a) m))) = {#m#}"
    using rt_add_inserts [of m "rt_new a" crc now] assms Cons by (simp add: already_exists_def rt_id_new)
  then have e: "rt_entries (fst (rt_add crc now (rt_new a) m)) = [m]" by simp
  show ?thesis using seed_table_stuck [OF e, of crc ms now] assms Cons by (simp add: e same_ip_def)
qed simp

lemma seed_table_inv: "rt_inv crc t \<Longrightarrow> rt_inv crc (seed_table crc now t ns) \<and> rt_id (seed_table crc now t ns) = rt_id t"
  by (induction ns arbitrary: t) (simp_all add: rt_inv_add)

section \<open>Seeded networks\<close>

lemma traverse_eq_Inr: "traverse f xs = Inr ys \<longleftrightarrow> list_all2 (\<lambda>x y. f x = Inr y) xs ys"
proof (induction xs arbitrary: ys)
  case (Cons x xs)
  have "traverse f (x # xs) = Inr ys \<longleftrightarrow> (\<exists>z zs. f x = Inr z \<and> traverse f xs = Inr zs \<and> ys = z # zs)"
    by (cases "f x"; cases "traverse f xs") auto
  then show ?case by (auto simp: Cons.IH list_all2_Cons1)
qed auto

text \<open>What binding to an address leaves open is the port.\<close>

definition binds_address :: "(nat \<Rightarrow> sock_addr \<Rightarrow> 'io + sock_addr) \<Rightarrow> nat \<Rightarrow> bool" where
  "binds_address binds cnt \<longleftrightarrow> (\<forall>i < cnt. \<forall>a b. binds i a = Inr b \<longrightarrow> sa_ip b = sa_ip a)"

lemma dht_new_testnet:
  assumes "dht_new env bind resolve now r (testnet_config ip) = Inr a" "\<And>x y. bind x = Inr y \<Longrightarrow> sa_ip y = sa_ip x"
  shows "routing_table (act_rpc a) = rt_new (fst (id_random r)) \<and> info_id (dht_info env a) = fst (id_random r) \<and>
    sa_ip (info_local_addr (dht_info env a)) = ip"
proof -
  obtain s where s: "socket_new bind now (Some ip) None DEFAULT_REQUEST_TIMEOUT True = Inr s"
    "a = actor_new (act_rpc a)" "routing_table (act_rpc a) = rt_new (fst (id_random r))" "socket (act_rpc a) = s"
    using assms(1)
    by (auto simp: dht_new_def rpc_new_def testnet_config_def builder_bind_address_def builder_no_bootstrap_def
      builder_server_mode_def config_default_def bindE_def Let_def actor_new_def case_prod_beta split: sum.splits)
  have "sa_ip (local_addr s) = ip" using s(1) assms(2)
    by (auto simp: socket_new_def socket_bind_def bindE_def sock_addr_new_def split: sum.splits)
  then show ?thesis using s(3,4) by (simp add: dht_info_def rpc_info_def rpc_id_def rpc_local_addr_def rt_new_def)
qed

lemma dht_seed_routing_table:
  "routing_table (act_rpc (dht_seed_routing env now peers a)) = seed_table (env_crc env) now (routing_table (act_rpc a)) peers"
  by (simp add: dht_seed_routing_def actor_receive_def actor_log_def Let_def)

text \<open>A seeded network: node \<open>i\<close> starts with an empty table for its random id and is handed the others in order.\<close>

lemma build_seeded_nodes:
  assumes "build_seeded env binds resolve now rngs cnt ip = Inr net" "binds_address binds cnt"
  obtains peers where "length peers = cnt" "length (tn_nodes net) = cnt"
    "\<And>i. i < cnt \<Longrightarrow> node_id (peers ! i) = fst (id_random (rngs i)) \<and> sa_ip (node_address (peers ! i)) = ip"
    "\<And>i. i < cnt \<Longrightarrow> routing_table (act_rpc (tn_nodes net ! i)) =
       seed_table (env_crc env) now (rt_new (fst (id_random (rngs i))))
         (filter (\<lambda>p. node_id p \<noteq> fst (id_random (rngs i))) peers)"
proof -
  let ?mk = "\<lambda>i. dht_build env (binds i) resolve now (rngs i) (testnet_config ip)"
  obtain nodes where nodes: "list_all2 (\<lambda>i a. ?mk i = Inr a) [0..<cnt] nodes"
    and net: "net = (let infos = map (dht_info env) nodes;
           seeded_nodes = map (\<lambda>inf. node_new now (info_id inf) (info_local_addr inf)) infos
       in \<lparr>tn_bootstrap = map (\<lambda>inf. sock_addr_to_string (info_local_addr inf)) infos,
           tn_nodes = map2 (\<lambda>node inf. dht_seed_routing env now (filter (\<lambda>peer. node_id peer \<noteq> info_id inf) seeded_nodes) node)
             nodes infos\<rparr>)"
    using assms(1) by (auto simp: build_seeded_def bindE_def Let_def traverse_eq_Inr [symmetric] split: sum.splits)
  have len: "length nodes = cnt" using list_all2_lengthD [OF nodes] by simp
  have each: "routing_table (act_rpc (nodes ! i)) = rt_new (fst (id_random (rngs i))) \<and>
      info_id (dht_info env (nodes ! i)) = fst (id_random (rngs i)) \<and> sa_ip (info_local_addr (dht_info env (nodes ! i))) = ip"
    if "i < cnt" for i
  proof (rule dht_new_testnet)
    show "dht_new env (binds i) resolve now (rngs i) (testnet_config ip) = Inr (nodes ! i)"
      using list_all2_nthD2 [OF nodes, of i] that by (simp add: len dht_build_def)
  qed (use assms(2) that in \<open>auto simp: binds_address_def\<close>)
  let ?peers = "map (\<lambda>a. node_new now (info_id (dht_info env a)) (info_local_addr (dht_info env a))) nodes"
  show ?thesis
    by (rule that [of ?peers]) (simp_all add: net Let_def len each node_new_def dht_seed_routing_table comp_def)
qed


definition node_ids :: "(nat \<Rightarrow> rng) \<Rightarrow> nat \<Rightarrow> id" where
  "node_ids rngs i = fst (id_random (rngs i))"

text \<open>A seeded network of up to 21 nodes on a private, link-local or loopback address starts with full routing tables:
  every node knows exactly all others, provided their random ids differ in the first 21 bits.\<close>

theorem testnet_loopback_full:
  assumes "build_seeded env binds resolve now rngs cnt ip = Inr net" "binds_address binds cnt"
    and "is_private ip \<or> is_link_local ip \<or> is_loopback ip" "cnt \<le> 21"
    and "distinct (map (\<lambda>i. id_first_21_bits (node_ids rngs i)) [0..<cnt])" "i < cnt"
  shows "set (map node_id (rt_nodes (routing_table (act_rpc (tn_nodes net ! i))))) =
    {node_ids rngs j | j. j < cnt \<and> j \<noteq> i}"
proof -
  obtain peers where p: "length peers = cnt"
    "\<And>j. j < cnt \<Longrightarrow> node_id (peers ! j) = node_ids rngs j \<and> sa_ip (node_address (peers ! j)) = ip"
    "routing_table (act_rpc (tn_nodes net ! i)) = seed_table (env_crc env) now (rt_new (node_ids rngs i))
       (filter (\<lambda>p. node_id p \<noteq> node_ids rngs i) peers)"
    using build_seeded_nodes [OF assms(1,2)] assms(6) unfolding node_ids_def by metis
  let ?a = "node_ids rngs i" and ?others = "filter (\<lambda>p. node_id p \<noteq> node_ids rngs i) peers"
  have ids: "map node_id peers = map (node_ids rngs) [0..<cnt]" using p(1,2) by (simp add: list_eq_iff_nth_eq)
  then have pre: "map prefix_of peers = map (\<lambda>i. id_first_21_bits (node_ids rngs i)) [0..<cnt]"
    by (metis (no_types, lifting) comp_apply list.map_comp map_eq_conv)
  have self: "peers ! i \<in> set peers" "node_id (peers ! i) = ?a" using p(1,2) assms(6) by simp_all
  have "is_secure (env_crc env) n" if "n \<in> set peers" for n
    using that p(1,2) assms(3) by (auto simp: in_set_conv_nth is_secure_def is_valid_for_ip_def)
  moreover have "distinct (map prefix_of ?others)" using assms(5) unfolding pre [symmetric] by (rule distinct_map_filter)
  moreover have "length ?others \<le> 20"
    using length_filter_less [OF self(1), of "\<lambda>p. node_id p \<noteq> ?a"] self(2) p(1) assms(4) by simp
  ultimately have "mset (rt_entries (seed_table (env_crc env) now (rt_new ?a) ?others)) = mset ?others"
    using seed_table_all [of ?others "rt_new ?a" "env_crc env" now] by simp
  then have "set (rt_nodes (routing_table (act_rpc (tn_nodes net ! i)))) = set ?others"
    unfolding p(3) using rt_nodes_entries [of "env_crc env"] seed_table_inv [OF rt_inv_new] by (metis set_mset_mset)
  then have "set (map node_id (rt_nodes (routing_table (act_rpc (tn_nodes net ! i))))) = set (map node_id peers) - {?a}" by auto
  also have "\<dots> = {node_ids rngs j | j. j < cnt \<and> j \<noteq> i}"
  proof -
    have "id_first_21_bits (node_ids rngs j) \<noteq> id_first_21_bits ?a" if "j < cnt" "j \<noteq> i" for j
      using assms(5,6) that by (simp add: distinct_conv_nth)
    then have "node_ids rngs j = ?a \<longleftrightarrow> j = i" if "j < cnt" for j using that by metis
    then show ?thesis unfolding ids by auto
  qed
  finally show ?thesis .
qed

text \<open>The default network is not seeded: \<open>Testnet::new\<close> binds to the unspecified address, which is the address its nodes are
  seeded with; random ids are not valid for it, and a routing table takes one insecure node of an address. So every
  node of a network of any size starts with a table of a single node.\<close>

theorem testnet_unspecified_underseeded:
  assumes "testnet_new env binds resolve now rngs cnt = Inr net" "binds_address binds cnt" "2 \<le> cnt"
    and "\<forall>j < cnt. \<not> is_valid_for_ip (env_crc env) (node_ids rngs j) UNSPECIFIED"
    and "distinct (map (node_ids rngs) [0..<cnt])" "i < cnt"
  shows "length (rt_nodes (routing_table (act_rpc (tn_nodes net ! i)))) = 1"
proof -
  obtain peers where p: "length peers = cnt"
    "\<And>j. j < cnt \<Longrightarrow> node_id (peers ! j) = node_ids rngs j \<and> sa_ip (node_address (peers ! j)) = UNSPECIFIED"
    "routing_table (act_rpc (tn_nodes net ! i)) = seed_table (env_crc env) now (rt_new (node_ids rngs i))
       (filter (\<lambda>p. node_id p \<noteq> node_ids rngs i) peers)"
    using build_seeded_nodes [OF assms(1) [unfolded testnet_new_def] assms(2)] assms(6) unfolding node_ids_def by metis
  let ?a = "node_ids rngs i" and ?others = "filter (\<lambda>p. node_id p \<noteq> node_ids rngs i) peers"
  have "node_id n \<noteq> ?a \<and> \<not> is_secure (env_crc env) n \<and> sa_ip (node_address n) = UNSPECIFIED" if "n \<in> set ?others" for n
    using that p(1,2) assms(4) by (auto simp: in_set_conv_nth is_secure_def)
  then have e: "rt_entries (seed_table (env_crc env) now (rt_new ?a) ?others) = take 1 ?others"
    by (intro seed_table_one) blast
  define j where "j = (if i = 0 then 1 else 0 :: nat)"
  have j: "j < cnt" "j \<noteq> i" using assms(3) by (auto simp: j_def)
  then have "node_ids rngs j \<noteq> ?a" using assms(5,6) by (auto simp: distinct_conv_nth)
  then have "peers ! j \<in> set ?others" using j(1) p(1,2) by simp
  then have "?others \<noteq> []" by (metis empty_iff empty_set)
  then have "length (rt_entries (seed_table (env_crc env) now (rt_new ?a) ?others)) = 1"
    unfolding e by (cases ?others) simp_all
  then show ?thesis unfolding p(3)
    using rt_nodes_entries [of "env_crc env"] seed_table_inv [OF rt_inv_new] by metis
qed


text \<open>Two nodes whose random supplies are constant, 1 and 2, on ports that the system picks.\<close>

definition wit_binds :: "nat \<Rightarrow> sock_addr \<Rightarrow> unit + sock_addr" where
  "wit_binds i a = Inr (sock_addr_new (sa_ip a) (6881 + of_nat i))"

definition wit_rngs :: "nat \<Rightarrow> rng" where
  "wit_rngs i = (\<lambda>_. of_nat (Suc i))"

lemma wit_binds_address: "binds_address wit_binds n"
  by (simp add: binds_address_def wit_binds_def sock_addr_new_def)

lemma wit_build_seeded: "\<exists>net. build_seeded wit_env wit_binds (\<lambda>_. Inl ()) 0 wit_rngs 2 ip = Inr net"
  by (simp add: build_seeded_def upt_rec numeral_2_eq_2 dht_build_def dht_new_def rpc_new_def socket_new_def socket_bind_def testnet_config_def
    builder_bind_address_def builder_no_bootstrap_def builder_server_mode_def config_default_def wit_binds_def Let_def
    case_prod_beta)

lemma wit_node_ids: "node_ids wit_rngs i = id_of (replicate 20 (of_nat (Suc i)))"
  by (simp add: node_ids_def id_random_def rng_take_def wit_rngs_def map_replicate_const)

theorem testnet_loopback_full_witness:
  "\<exists>net. build_seeded wit_env wit_binds (\<lambda>_. Inl ()) 0 wit_rngs 2 LOCALHOST = Inr net \<and>
     set (map node_id (rt_nodes (routing_table (act_rpc (tn_nodes net ! 0))))) = {node_ids wit_rngs 1}"
proof -
  obtain net where net: "build_seeded wit_env wit_binds (\<lambda>_. Inl ()) 0 wit_rngs 2 LOCALHOST = Inr net"
    using wit_build_seeded by blast
  have "is_private LOCALHOST \<or> is_link_local LOCALHOST \<or> is_loopback LOCALHOST"
    by (simp add: is_loopback_def octet_def u32_to_be_bytes_def LOCALHOST_def)
  moreover have "distinct (map (\<lambda>i. id_first_21_bits (node_ids wit_rngs i)) [0..<2])"
    by (simp add: upt_rec numeral_2_eq_2 id_first_21_bits_def first_21_bits_def wit_node_ids as_bytes_id_of)
  ultimately have "set (map node_id (rt_nodes (routing_table (act_rpc (tn_nodes net ! 0))))) =
      {node_ids wit_rngs j | j. j < 2 \<and> j \<noteq> 0}"
    by (intro testnet_loopback_full [OF net wit_binds_address]) simp_all
  also have "\<dots> = {node_ids wit_rngs 1}" by (auto simp: less_2_cases_iff)
  finally show ?thesis using net by blast
qed

theorem testnet_unspecified_underseeded_witness:
  "\<exists>net. testnet_new wit_env wit_binds (\<lambda>_. Inl ()) 0 wit_rngs 2 = Inr net \<and>
     length (rt_nodes (routing_table (act_rpc (tn_nodes net ! 0)))) = 1"
proof -
  obtain net where net: "testnet_new wit_env wit_binds (\<lambda>_. Inl ()) 0 wit_rngs 2 = Inr net"
    unfolding testnet_new_def using wit_build_seeded by blast
  have crc: "env_crc wit_env = (\<lambda>_. 0)" by (simp add: wit_env_def)
  have "\<forall>j < 2. \<not> is_valid_for_ip (env_crc wit_env) (node_ids wit_rngs j) UNSPECIFIED"
    by (auto simp: less_2_cases_iff crc is_valid_for_ip_def UNSPECIFIED_def is_private_def is_link_local_def is_loopback_def octet_def
      wit_node_ids as_bytes_id_of first_21_bits_def id_prefix_ipv4_def Let_def u32_to_be_bytes_def)
  moreover have "distinct (map (node_ids wit_rngs) [0..<2])"
  proof -
    have "as_bytes (node_ids wit_rngs 0) \<noteq> as_bytes (node_ids wit_rngs 1)" by (simp add: wit_node_ids as_bytes_id_of)
    then have "node_ids wit_rngs 0 \<noteq> node_ids wit_rngs 1" by metis
    then show ?thesis by (simp add: upt_rec numeral_2_eq_2)
  qed
  ultimately have "length (rt_nodes (routing_table (act_rpc (tn_nodes net ! 0)))) = 1"
    by (intro testnet_unspecified_underseeded [OF net wit_binds_address]) simp_all
  then show ?thesis using net by blast
qed

end
