(* ===== verification/Next_Wire.thy ===== *)
theory Next_Wire
  imports Message_Codec
begin

unbundle bit_operations_syntax

text \<open>
  The rewrite of the wire layer in the crate \<^verbatim>\<open>src/mainline-next\<close>: BEP 42 contacts (\<^verbatim>\<open>bep42.rs\<close>), XOR
  distances (\<^verbatim>\<open>distance.rs\<close>) and the compact encodings of \<^verbatim>\<open>wire/\<close>. Serde visitors are functions from the byte string or integer
  that the codec hands them. The theorems show that the rewrite agrees with the main crate: the same
  ids are valid for an address, the same buckets hold an id, and the same bytes stand for a list of nodes.
\<close>

section \<open>Binary strings\<close>

definition byte_array_deserialize :: "nat \<Rightarrow> bytes \<Rightarrow> nat + bytes" where
  "byte_array_deserialize n bs = (if length bs = n then Inr bs else Inl (length bs))"

definition byte_string_deserialize :: "bytes \<Rightarrow> bytes" where
  "byte_string_deserialize bs = bs"

definition wire_bool_serialize :: "bool \<Rightarrow> i64" where
  "wire_bool_serialize b = (if b then 1 else 0)"

definition wire_bool_deserialize :: "i64 \<Rightarrow> bool" where
  "wire_bool_deserialize i \<longleftrightarrow> i \<noteq> 0"

section \<open>Compact addresses and nodes\<close>

definition compact_address_to_bytes :: "sock_addr \<Rightarrow> bytes" where
  "compact_address_to_bytes a = u32_to_be_bytes (sa_ip a) @ u16_to_be_bytes (sa_port a)"

definition compact_address_from_bytes :: "bytes \<Rightarrow> sock_addr" where
  "compact_address_from_bytes bs =
     sock_addr_new (u32_from_be_bytes (bs ! 0) (bs ! 1) (bs ! 2) (bs ! 3)) (u16_from_be_bytes (bs ! 4) (bs ! 5))"

definition compact_address_deserialize :: "bytes \<Rightarrow> nat + sock_addr" where
  "compact_address_deserialize bs = bindE (byte_array_deserialize 6 bs) (\<lambda>b. Inr (compact_address_from_bytes b))"

definition CONTACT_BYTES :: nat where
  "CONTACT_BYTES = 26"

record node_contact =
  contact_id :: id
  contact_address :: sock_addr

definition compact_nodes_serialize :: "node_contact list \<Rightarrow> bytes" where
  "compact_nodes_serialize cs =
     concat (map (\<lambda>c. as_bytes (contact_id c) @ compact_address_to_bytes (contact_address c)) cs)"

text \<open>\<open>chunks_exact\<close>: as many whole chunks as fit, and the remainder.\<close>

fun chunks_exact :: "nat \<Rightarrow> nat \<Rightarrow> bytes \<Rightarrow> bytes list" where
  "chunks_exact n 0 bs = []"
| "chunks_exact n (Suc k) bs = take n bs # chunks_exact n k (drop n bs)"

definition contact_of :: "bytes \<Rightarrow> node_contact" where
  "contact_of chunk =
     \<lparr>contact_id = id_of (take 20 chunk), contact_address = compact_address_from_bytes (drop 20 chunk)\<rparr>"

definition compact_nodes_deserialize :: "bytes \<Rightarrow> nat + node_contact list" where
  "compact_nodes_deserialize bs =
     (let n = length bs div CONTACT_BYTES
      in if length bs mod CONTACT_BYTES \<noteq> 0 then Inl (length bs)
         else Inr (map contact_of (chunks_exact CONTACT_BYTES n bs)))"

section \<open>Distances\<close>

definition xor_distance :: "id \<Rightarrow> id \<Rightarrow> bytes" where
  "xor_distance a b = map (\<lambda>i. as_bytes a ! i XOR as_bytes b ! i) [0..<20]"

fun bucket_distance_from :: "nat \<Rightarrow> (u8 \<times> u8) list \<Rightarrow> nat" where
  "bucket_distance_from index [] = 0"
| "bucket_distance_from index ((left, right) # rest) =
     (let byte = left XOR right
      in if byte \<noteq> 0 then 160 - index * 8 - u8_leading_zeros byte
         else bucket_distance_from (Suc index) rest)"

definition bucket_distance :: "id \<Rightarrow> id \<Rightarrow> nat" where
  "bucket_distance a b = bucket_distance_from 0 (zip (as_bytes a) (as_bytes b))"

section \<open>BEP 42\<close>

definition BEP42_IPV4_MASK :: u32 where
  "BEP42_IPV4_MASK = 0x030f3fff"

definition BEP42_RANDOM_BITS :: nat where
  "BEP42_RANDOM_BITS = 3"

definition BEP42_RANDOM_MASK :: u8 where
  "BEP42_RANDOM_MASK = 7"

definition BEP42_PREFIX_MASK :: u8 where
  "BEP42_PREFIX_MASK = NOT BEP42_RANDOM_MASK"

definition bep42_id_prefix :: "crc32c \<Rightarrow> u32 \<Rightarrow> u8 \<Rightarrow> bytes" where
  "bep42_id_prefix crc ip random =
     (let masked_ip = ip AND BEP42_IPV4_MASK;
          random_bits = ucast (random AND BEP42_RANDOM_MASK) :: u32;
          shifted = push_bit (32 - BEP42_RANDOM_BITS) random_bits;
          digest = u32_to_be_bytes (crc (u32_to_be_bytes (masked_ip OR shifted)))
      in [digest ! 0, digest ! 1, digest ! 2 AND BEP42_PREFIX_MASK])"

definition bep42_is_exempt :: "u32 \<Rightarrow> bool" where
  "bep42_is_exempt ip \<longleftrightarrow> is_private ip \<or> is_link_local ip \<or> is_loopback ip"

definition id_matches_ipv4 :: "crc32c \<Rightarrow> id \<Rightarrow> u32 \<Rightarrow> bool" where
  "id_matches_ipv4 crc a ip \<longleftrightarrow>
     (let prefix = bep42_id_prefix crc ip (as_bytes a ! 19)
      in as_bytes a ! 0 = prefix ! 0 \<and> as_bytes a ! 1 = prefix ! 1 \<and>
         as_bytes a ! 2 AND BEP42_PREFIX_MASK = prefix ! 2)"

text \<open>\<open>TryFrom<NodeContact>\<close>: the contact itself, or the error that carries it.\<close>

definition bep42_try_from :: "crc32c \<Rightarrow> node_contact \<Rightarrow> node_contact + node_contact" where
  "bep42_try_from crc c =
     (if bep42_is_exempt (sa_ip (contact_address c)) \<or> id_matches_ipv4 crc (contact_id c) (sa_ip (contact_address c))
      then Inr c else Inl c)"

definition bep42_from_random_bytes :: "crc32c \<Rightarrow> sock_addr \<Rightarrow> bytes \<Rightarrow> node_contact" where
  "bep42_from_random_bytes crc a random_id =
     (let prefix = bep42_id_prefix crc (sa_ip a) (random_id ! 19);
          b1 = random_id[0 := prefix ! 0];
          b2 = b1[1 := prefix ! 1];
          b3 = b2[2 := prefix ! 2 OR (b2 ! 2 AND BEP42_RANDOM_MASK)]
      in \<lparr>contact_id = id_of b3, contact_address = a\<rparr>)"

definition bep42_generate :: "crc32c \<Rightarrow> sock_addr \<Rightarrow> rng \<Rightarrow> node_contact \<times> rng" where
  "bep42_generate crc a r = (bep42_from_random_bytes crc a (rng_take 20 r), rng_drop 20 r)"

section \<open>Agreement with the main crate\<close>

lemma shifted_random: "push_bit 29 (ucast (r AND 7) :: u32) = push_bit 29 (ucast (r :: u8))"
proof (rule bit_word_eqI)
  fix n assume "n < LENGTH(32)"
  then have "n < 29 \<or> n = 29 \<or> n = 30 \<or> n = 31" by auto
  then show "bit (push_bit 29 (ucast (r AND 7) :: u32)) n = bit (push_bit 29 (ucast r :: u32)) n"
    by (auto simp: bit_simps bit_numeral_rec)
qed

lemma bep42_id_prefix_first_21_bits: "bep42_id_prefix crc ip r = first_21_bits (id_prefix_ipv4 crc ip r)"
proof -
  have "BEP42_PREFIX_MASK = 0xf8" by (simp add: BEP42_PREFIX_MASK_def BEP42_RANDOM_MASK_def)
  then show ?thesis
    by (simp add: bep42_id_prefix_def first_21_bits_def id_prefix_ipv4_def Let_def BEP42_RANDOM_MASK_def BEP42_RANDOM_BITS_def
      BEP42_IPV4_MASK_def IPV4_MASK_def shifted_random)
qed

lemma id_matches_ipv4_iff:
  "id_matches_ipv4 crc a ip \<longleftrightarrow> first_21_bits (as_bytes a) = first_21_bits (id_prefix_ipv4 crc ip (as_bytes a ! 19))"
proof -
  have "BEP42_PREFIX_MASK = 0xf8" by (simp add: BEP42_PREFIX_MASK_def BEP42_RANDOM_MASK_def)
  then show ?thesis by (simp add: id_matches_ipv4_def bep42_id_prefix_first_21_bits Let_def) (simp add: first_21_bits_def)
qed

lemma bep42_try_from_valid:
  "bep42_try_from crc c = (if is_valid_for_ip crc (contact_id c) (sa_ip (contact_address c)) then Inr c else Inl c)"
  by (simp add: bep42_try_from_def is_valid_for_ip_def bep42_is_exempt_def id_matches_ipv4_iff ID_SIZE_def)

lemma generated_matches:
  assumes "length bs = 20"
  shows "id_matches_ipv4 crc (contact_id (bep42_from_random_bytes crc a bs)) (sa_ip a)"
proof -
  let ?p = "id_prefix_ipv4 crc (sa_ip a) (bs ! 19)"
  have m: "BEP42_RANDOM_MASK = 7" by (simp add: BEP42_RANDOM_MASK_def)
  have b: "as_bytes (contact_id (bep42_from_random_bytes crc a bs)) =
      bs[0 := ?p ! 0, 1 := ?p ! 1, 2 := (?p ! 2 AND 0xf8) OR (bs ! 2 AND 7)]"
    using assms by (simp add: bep42_from_random_bytes_def Let_def bep42_id_prefix_first_21_bits m as_bytes_id_of)
      (simp add: first_21_bits_def)
  show ?thesis unfolding id_matches_ipv4_iff b using assms
    by (simp add: first_21_bits_def prefix_merge)
qed

text \<open>C39: the rewrite of BEP 42 accepts exactly the contacts whose id the main crate holds valid for the address, hands
  every contact back unchanged, and accepts every contact it generates.\<close>

theorem next_bep42_agrees:
  "bep42_try_from crc c = (if is_valid_for_ip crc (contact_id c) (sa_ip (contact_address c)) then Inr c else Inl c) \<and>
   bep42_try_from crc (fst (bep42_generate crc a r)) = Inr (fst (bep42_generate crc a r)) \<and>
   contact_address (fst (bep42_generate crc a r)) = a"
proof -
  have g: "contact_address (fst (bep42_generate crc a r)) = a"
    by (simp add: bep42_generate_def bep42_from_random_bytes_def Let_def)
  moreover have "id_matches_ipv4 crc (contact_id (fst (bep42_generate crc a r))) (sa_ip a)"
    by (simp add: bep42_generate_def generated_matches)
  ultimately show ?thesis using bep42_try_from_valid by (simp add: bep42_try_from_def)
qed

lemma bucket_distance_from_zeros:
  "length xs = length ys \<Longrightarrow> bucket_distance_from i (zip xs ys) = 160 - leading_zeros_from i (xor_bytes xs ys)"
  by (induction xs ys arbitrary: i rule: list_induct2) (auto simp: Let_def)

lemma bucket_distance_id_distance: "bucket_distance a b = id_distance a b"
  by (simp add: bucket_distance_def id_distance_def id_leading_zeros_def bucket_distance_from_zeros MAX_DISTANCE_def)

lemma xor_distance_id_xor: "xor_distance a b = as_bytes (id_xor a b)"
  by (rule nth_equalityI) (simp_all add: xor_distance_def xor_bytes_def)

definition contact_of_node :: "node \<Rightarrow> node_contact" where
  "contact_of_node n = \<lparr>contact_id = node_id n, contact_address = node_address n\<rparr>"

lemma compact_nodes_serialize_nodes4: "compact_nodes_serialize (map contact_of_node ns) = nodes4_to_bytes ns"
  by (simp add: compact_nodes_serialize_def nodes4_to_bytes_def contact_of_node_def sockaddr_to_bytes_def
    compact_address_to_bytes_def comp_def)

lemma compact_address_roundtrip: "compact_address_from_bytes (compact_address_to_bytes a) = a"
  by (simp add: compact_address_from_bytes_def compact_address_to_bytes_def u32_to_be_bytes_def u16_to_be_bytes_def byte_facts
    sock_addr_new_def)

lemma chunks_serialized: "map contact_of (chunks_exact 26 (length cs) (compact_nodes_serialize cs)) = cs"
proof (induction cs)
  case (Cons c cs)
  let ?b = "as_bytes (contact_id c) @ compact_address_to_bytes (contact_address c)"
  have l: "length ?b = 26" by (simp add: compact_address_to_bytes_def)
  have s: "compact_nodes_serialize (c # cs) = ?b @ compact_nodes_serialize cs" by (simp add: compact_nodes_serialize_def)
  have "contact_of ?b = c" by (simp add: contact_of_def compact_address_roundtrip)
  then show ?case using Cons.IH l unfolding s by simp
qed simp

lemma compact_nodes_roundtrip: "compact_nodes_deserialize (compact_nodes_serialize cs) = Inr cs"
proof -
  have "length (compact_nodes_serialize cs) = length cs * 26"
    unfolding compact_nodes_serialize_def by (rule length_concat_blocks) (simp add: compact_address_to_bytes_def)
  then show ?thesis by (simp add: compact_nodes_deserialize_def CONTACT_BYTES_def chunks_serialized)
qed

text \<open>C40: the rewrite agrees with the main crate on distances and on compact node lists: it files an id in the same bucket, computes the same
  XOR, writes the same bytes, reads back what it wrote, and reads any byte string as the same contacts or rejects it too.\<close>

theorem next_wire_agrees:
  "bucket_distance a b = id_distance a b \<and> xor_distance a b = as_bytes (id_xor a b) \<and>
   compact_nodes_serialize (map contact_of_node ns) = nodes4_to_bytes ns \<and>
   compact_nodes_deserialize (compact_nodes_serialize cs) = Inr cs \<and>
   (case compact_nodes_deserialize bs of
      Inr contacts \<Rightarrow> \<exists>nodes. (bytes_to_nodes4 now bs :: 'be decode_message_error + node list) = Inr nodes \<and>
        map contact_of_node nodes = contacts
    | Inl _ \<Rightarrow> (bytes_to_nodes4 now bs :: 'be decode_message_error + node list) = Inl InvalidNodes4)"
proof -
  have "case compact_nodes_deserialize bs of
      Inr contacts \<Rightarrow> \<exists>nodes. (bytes_to_nodes4 now bs :: 'be decode_message_error + node list) = Inr nodes \<and>
        map contact_of_node nodes = contacts
    | Inl _ \<Rightarrow> (bytes_to_nodes4 now bs :: 'be decode_message_error + node list) = Inl InvalidNodes4"
  proof (cases "length bs mod 26 = 0")
    case True
    then obtain ms where ms: "nodes4_to_bytes ms = bs" using nodes4_surj [of bs "length bs div 26"] by auto
    have "compact_nodes_deserialize bs = Inr (map contact_of_node ms)"
      using compact_nodes_roundtrip [of "map contact_of_node ms"] by (simp add: compact_nodes_serialize_nodes4 ms)
    moreover have "(bytes_to_nodes4 now bs :: 'be decode_message_error + node list) = Inr (map (fresh now) ms)"
      unfolding ms [symmetric] by (rule nodes4_roundtrip)
    ultimately show ?thesis by (simp add: contact_of_node_def fresh_def node_new_def comp_def)
  qed (simp add: compact_nodes_deserialize_def CONTACT_BYTES_def bytes_to_nodes4_def node_byte_size)
  then show ?thesis
    by (simp only: bucket_distance_id_distance xor_distance_id_xor compact_nodes_serialize_nodes4 compact_nodes_roundtrip simp_thms)
qed

end
