(* ===== verification/Next_Messages.thy ===== *)
theory Next_Messages
  imports Next_Wire "HOL-Library.Monad_Syntax"
begin

text \<open>
  The KRPC messages of the rewrite, from \<^verbatim>\<open>src/mainline-next/src/wire\<close> (\<^verbatim>\<open>message.rs\<close>, \<^verbatim>\<open>query.rs\<close>, \<^verbatim>\<open>response.rs\<close>,
  \<^verbatim>\<open>wire_map.rs\<close>, \<^verbatim>\<open>error_code.rs\<close>): structs and enums whose serde attributes say which dictionary stands for which message. An
  encoder follows the attributes of a type (\<open>rename\<close>, \<open>tag\<close>, \<open>flatten\<close>, \<open>skip_serializing_if\<close>) and a decoder
  reads them back (\<open>default\<close>, missing options, unknown keys ignored). The domain is the value type of the codec, in which a dictionary
  is a hash map, so it is an association list of which only the lookups matter. The translation of a value to
  bytes is the codec's (crate \<^verbatim>\<open>serde_bencode\<close>). A decoding error is \<open>None\<close>. The theorems show that a message survives
  encoding, also among fields of other kinds, and that whatever decodes has the field shapes its types promise.
\<close>

section \<open>Values and fields\<close>

datatype bvalue = BInt i64 | BBytes bytes | BList "bvalue list" | BDict "(bytes \<times> bvalue) list"

type_synonym dict = "(bytes \<times> bvalue) list"

definition ok_option :: "'e + 'a \<Rightarrow> 'a option" where
  "ok_option r = (case r of Inl _ \<Rightarrow> None | Inr x \<Rightarrow> Some x)"

lemma ok_option_simps [simp]: "ok_option (Inr x) = Some x" "ok_option (Inl e) = None"
  by (simp_all add: ok_option_def)

text \<open>Serde visitors: a byte string, an integer, a list or a map is handed to the visitor, anything else is a type error.\<close>

definition visit_bytes :: "(bytes \<Rightarrow> 'a option) \<Rightarrow> bvalue \<Rightarrow> 'a option" where
  "visit_bytes f v = (case v of BBytes bs \<Rightarrow> f bs | _ \<Rightarrow> None)"

definition de_byte_string :: "bvalue \<Rightarrow> bytes option" where
  "de_byte_string = visit_bytes (\<lambda>bs. Some (byte_string_deserialize bs))"

definition de_byte_array :: "nat \<Rightarrow> bvalue \<Rightarrow> bytes option" where
  "de_byte_array n = visit_bytes (\<lambda>bs. ok_option (byte_array_deserialize n bs))"

definition de_id :: "bvalue \<Rightarrow> id option" where
  "de_id v = map_option id_of (de_byte_array 20 v)"

definition de_compact_address :: "bvalue \<Rightarrow> sock_addr option" where
  "de_compact_address = visit_bytes (\<lambda>bs. ok_option (compact_address_deserialize bs))"

definition de_compact_nodes :: "bvalue \<Rightarrow> node_contact list option" where
  "de_compact_nodes = visit_bytes (\<lambda>bs. ok_option (compact_nodes_deserialize bs))"

definition de_i64 :: "bvalue \<Rightarrow> i64 option" where
  "de_i64 v = (case v of BInt i \<Rightarrow> Some i | _ \<Rightarrow> None)"

definition de_u16 :: "bvalue \<Rightarrow> u16 option" where
  "de_u16 v = (case v of BInt i \<Rightarrow> if 0 \<le> i \<and> i < 65536 then Some (of_int i) else None | _ \<Rightarrow> None)"

definition de_wire_bool :: "bvalue \<Rightarrow> bool option" where
  "de_wire_bool v = map_option wire_bool_deserialize (de_i64 v)"

definition de_list :: "(bvalue \<Rightarrow> 'a option) \<Rightarrow> bvalue \<Rightarrow> 'a list option" where
  "de_list f v = (case v of BList vs \<Rightarrow> those (map f vs) | _ \<Rightarrow> None)"

text \<open>The wrapper \<open>WireMap\<close> passes the fields of a dictionary on and refuses positional lists.\<close>

definition wire_map_deserialize :: "(dict \<Rightarrow> 'a option) \<Rightarrow> bvalue \<Rightarrow> 'a option" where
  "wire_map_deserialize f v = (case v of BDict d \<Rightarrow> f d | _ \<Rightarrow> None)"

text \<open>A field is required, optional, or has a default; on the way out it is always written, skipped when absent, or skipped when false.\<close>

definition dict_get :: "dict \<Rightarrow> string \<Rightarrow> bvalue option" where
  "dict_get d k = map_of d (ascii k)"

definition de_required :: "string \<Rightarrow> (bvalue \<Rightarrow> 'a option) \<Rightarrow> dict \<Rightarrow> 'a option" where
  "de_required k f d = (case dict_get d k of Some v \<Rightarrow> f v | None \<Rightarrow> None)"

definition de_optional :: "string \<Rightarrow> (bvalue \<Rightarrow> 'a option) \<Rightarrow> dict \<Rightarrow> 'a option option" where
  "de_optional k f d = (case dict_get d k of Some v \<Rightarrow> map_option Some (f v) | None \<Rightarrow> Some None)"

definition de_default :: "'a \<Rightarrow> string \<Rightarrow> (bvalue \<Rightarrow> 'a option) \<Rightarrow> dict \<Rightarrow> 'a option" where
  "de_default x k f d = (case dict_get d k of Some v \<Rightarrow> f v | None \<Rightarrow> Some x)"

definition ser_field :: "string \<Rightarrow> bvalue \<Rightarrow> dict" where
  "ser_field k v = [(ascii k, v)]"

definition ser_optional :: "string \<Rightarrow> ('a \<Rightarrow> bvalue) \<Rightarrow> 'a option \<Rightarrow> dict" where
  "ser_optional k f x = (case x of Some y \<Rightarrow> [(ascii k, f y)] | None \<Rightarrow> [])"

definition wire_bool_is_false :: "bool \<Rightarrow> bool" where
  "wire_bool_is_false b \<longleftrightarrow> \<not> b"

definition ser_unless_false :: "string \<Rightarrow> bool \<Rightarrow> dict" where
  "ser_unless_false k b = (if wire_bool_is_false b then [] else [(ascii k, BInt (wire_bool_serialize b))])"

definition ser_id :: "id \<Rightarrow> bvalue" where
  "ser_id a = BBytes (as_bytes a)"

definition ser_compact_address :: "sock_addr \<Rightarrow> bvalue" where
  "ser_compact_address a = BBytes (compact_address_to_bytes a)"

definition ser_compact_nodes :: "node_contact list \<Rightarrow> bvalue" where
  "ser_compact_nodes cs = BBytes (compact_nodes_serialize cs)"

section \<open>Queries\<close>

record ping_arguments =
  pa_id :: id

record find_node_arguments =
  fna_id :: id
  fna_target :: id

record get_peers_arguments =
  gpa_id :: id
  gpa_info_hash :: id

record announce_peer_arguments =
  apa_id :: id
  apa_info_hash :: id
  apa_port :: u16
  apa_implied_port :: bool
  apa_token :: bytes

record get_arguments =
  ga_id :: id
  ga_target :: id
  ga_seq :: "i64 option"

record put_arguments =
  pua_id :: id
  pua_token :: bytes
  pua_value :: bvalue
  pua_key :: "bytes option"
  pua_signature :: "bytes option"
  pua_seq :: "i64 option"
  pua_salt :: "bytes option"
  pua_cas :: "i64 option"

datatype wire_query =
    WirePing ping_arguments
  | WireFindNode find_node_arguments
  | WireGetPeers get_peers_arguments
  | WireAnnouncePeer announce_peer_arguments
  | WireGet get_arguments
  | WirePut put_arguments

definition ser_ping :: "ping_arguments \<Rightarrow> dict" where
  "ser_ping a = ser_field ''id'' (ser_id (pa_id a))"

definition ser_find_node :: "find_node_arguments \<Rightarrow> dict" where
  "ser_find_node a = ser_field ''id'' (ser_id (fna_id a)) @ ser_field ''target'' (ser_id (fna_target a))"

definition ser_get_peers :: "get_peers_arguments \<Rightarrow> dict" where
  "ser_get_peers a = ser_field ''id'' (ser_id (gpa_id a)) @ ser_field ''info_hash'' (ser_id (gpa_info_hash a))"

definition ser_announce_peer :: "announce_peer_arguments \<Rightarrow> dict" where
  "ser_announce_peer a =
     ser_field ''id'' (ser_id (apa_id a)) @ ser_field ''info_hash'' (ser_id (apa_info_hash a)) @
     ser_field ''port'' (BInt (uint (apa_port a))) @ ser_unless_false ''implied_port'' (apa_implied_port a) @
     ser_field ''token'' (BBytes (apa_token a))"

definition ser_get :: "get_arguments \<Rightarrow> dict" where
  "ser_get a =
     ser_field ''id'' (ser_id (ga_id a)) @ ser_field ''target'' (ser_id (ga_target a)) @ ser_optional ''seq'' BInt (ga_seq a)"

definition ser_put :: "put_arguments \<Rightarrow> dict" where
  "ser_put a =
     ser_field ''id'' (ser_id (pua_id a)) @ ser_field ''token'' (BBytes (pua_token a)) @ ser_field ''v'' (pua_value a) @
     ser_optional ''k'' BBytes (pua_key a) @ ser_optional ''sig'' BBytes (pua_signature a) @
     ser_optional ''seq'' BInt (pua_seq a) @ ser_optional ''salt'' BBytes (pua_salt a) @ ser_optional ''cas'' BInt (pua_cas a)"

text \<open>The tag \<open>q\<close> names the method in snake case; the arguments are under \<open>a\<close>.\<close>

definition ser_method :: "string \<Rightarrow> dict \<Rightarrow> dict" where
  "ser_method m args = ser_field ''q'' (BBytes (ascii m)) @ ser_field ''a'' (BDict args)"

definition ser_query :: "wire_query \<Rightarrow> dict" where
  "ser_query q =
     (case q of
        WirePing a \<Rightarrow> ser_method ''ping'' (ser_ping a)
      | WireFindNode a \<Rightarrow> ser_method ''find_node'' (ser_find_node a)
      | WireGetPeers a \<Rightarrow> ser_method ''get_peers'' (ser_get_peers a)
      | WireAnnouncePeer a \<Rightarrow> ser_method ''announce_peer'' (ser_announce_peer a)
      | WireGet a \<Rightarrow> ser_method ''get'' (ser_get a)
      | WirePut a \<Rightarrow> ser_method ''put'' (ser_put a))"

definition de_ping :: "dict \<Rightarrow> ping_arguments option" where
  "de_ping d = do { i \<leftarrow> de_required ''id'' de_id d; Some \<lparr>pa_id = i\<rparr> }"

definition de_find_node :: "dict \<Rightarrow> find_node_arguments option" where
  "de_find_node d = do {
     i \<leftarrow> de_required ''id'' de_id d;
     target \<leftarrow> de_required ''target'' de_id d;
     Some \<lparr>fna_id = i, fna_target = target\<rparr> }"

definition de_get_peers :: "dict \<Rightarrow> get_peers_arguments option" where
  "de_get_peers d = do {
     i \<leftarrow> de_required ''id'' de_id d;
     info_hash \<leftarrow> de_required ''info_hash'' de_id d;
     Some \<lparr>gpa_id = i, gpa_info_hash = info_hash\<rparr> }"

definition de_announce_peer :: "dict \<Rightarrow> announce_peer_arguments option" where
  "de_announce_peer d = do {
     i \<leftarrow> de_required ''id'' de_id d;
     info_hash \<leftarrow> de_required ''info_hash'' de_id d;
     port \<leftarrow> de_required ''port'' de_u16 d;
     implied \<leftarrow> de_default False ''implied_port'' de_wire_bool d;
     token \<leftarrow> de_required ''token'' de_byte_string d;
     Some \<lparr>apa_id = i, apa_info_hash = info_hash, apa_port = port, apa_implied_port = implied, apa_token = token\<rparr> }"

definition de_get :: "dict \<Rightarrow> get_arguments option" where
  "de_get d = do {
     i \<leftarrow> de_required ''id'' de_id d;
     target \<leftarrow> de_required ''target'' de_id d;
     seq \<leftarrow> de_optional ''seq'' de_i64 d;
     Some \<lparr>ga_id = i, ga_target = target, ga_seq = seq\<rparr> }"

definition de_put :: "dict \<Rightarrow> put_arguments option" where
  "de_put d = do {
     i \<leftarrow> de_required ''id'' de_id d;
     token \<leftarrow> de_required ''token'' de_byte_string d;
     v \<leftarrow> de_required ''v'' Some d;
     k \<leftarrow> de_optional ''k'' (de_byte_array 32) d;
     sig \<leftarrow> de_optional ''sig'' (de_byte_array 64) d;
     seq \<leftarrow> de_optional ''seq'' de_i64 d;
     salt \<leftarrow> de_optional ''salt'' de_byte_string d;
     cas \<leftarrow> de_optional ''cas'' de_i64 d;
     Some \<lparr>pua_id = i, pua_token = token, pua_value = v, pua_key = k, pua_signature = sig, pua_seq = seq,
       pua_salt = salt, pua_cas = cas\<rparr> }"

definition de_arguments :: "(dict \<Rightarrow> 'a option) \<Rightarrow> ('a \<Rightarrow> wire_query) \<Rightarrow> dict \<Rightarrow> wire_query option" where
  "de_arguments f c d = map_option c (de_required ''a'' (wire_map_deserialize f) d)"

definition de_query :: "dict \<Rightarrow> wire_query option" where
  "de_query d = do {
     m \<leftarrow> de_required ''q'' de_byte_string d;
     if m = ascii ''ping'' then de_arguments de_ping WirePing d
     else if m = ascii ''find_node'' then de_arguments de_find_node WireFindNode d
     else if m = ascii ''get_peers'' then de_arguments de_get_peers WireGetPeers d
     else if m = ascii ''announce_peer'' then de_arguments de_announce_peer WireAnnouncePeer d
     else if m = ascii ''get'' then de_arguments de_get WireGet d
     else if m = ascii ''put'' then de_arguments de_put WirePut d
     else None }"

section \<open>Responses and errors\<close>

record response_arguments =
  ra_id :: id
  ra_token :: "bytes option"
  ra_nodes :: "node_contact list option"
  ra_values :: "sock_addr list option"
  ra_value :: "bvalue option"
  ra_key :: "bytes option"
  ra_signature :: "bytes option"
  ra_seq :: "i64 option"

definition ser_response :: "response_arguments \<Rightarrow> dict" where
  "ser_response a =
     ser_field ''id'' (ser_id (ra_id a)) @ ser_optional ''token'' BBytes (ra_token a) @
     ser_optional ''nodes'' ser_compact_nodes (ra_nodes a) @
     ser_optional ''values'' (\<lambda>vs. BList (map ser_compact_address vs)) (ra_values a) @
     ser_optional ''v'' (\<lambda>v. v) (ra_value a) @ ser_optional ''k'' BBytes (ra_key a) @
     ser_optional ''sig'' BBytes (ra_signature a) @ ser_optional ''seq'' BInt (ra_seq a)"

definition de_response :: "dict \<Rightarrow> response_arguments option" where
  "de_response d = do {
     i \<leftarrow> de_required ''id'' de_id d;
     token \<leftarrow> de_optional ''token'' de_byte_string d;
     nodes \<leftarrow> de_optional ''nodes'' de_compact_nodes d;
     values \<leftarrow> de_optional ''values'' (de_list de_compact_address) d;
     v \<leftarrow> de_optional ''v'' Some d;
     k \<leftarrow> de_optional ''k'' (de_byte_array 32) d;
     sig \<leftarrow> de_optional ''sig'' (de_byte_array 64) d;
     seq \<leftarrow> de_optional ''seq'' de_i64 d;
     Some \<lparr>ra_id = i, ra_token = token, ra_nodes = nodes, ra_values = values, ra_value = v, ra_key = k,
       ra_signature = sig, ra_seq = seq\<rparr> }"

definition GENERIC :: i64 where "GENERIC = 201"
definition SERVER :: i64 where "SERVER = 202"
definition PROTOCOL :: i64 where "PROTOCOL = 203"
definition METHOD_UNKNOWN :: i64 where "METHOD_UNKNOWN = 204"
definition VALUE_TOO_LARGE :: i64 where "VALUE_TOO_LARGE = 205"
definition INVALID_SIGNATURE :: i64 where "INVALID_SIGNATURE = 206"
definition SALT_TOO_LARGE :: i64 where "SALT_TOO_LARGE = 207"
definition CAS_MISMATCH :: i64 where "CAS_MISMATCH = 301"
definition SEQUENCE_TOO_LOW :: i64 where "SEQUENCE_TOO_LOW = 302"

text \<open>An error is a pair of a code and a description, which is a list of exactly two elements.\<close>

definition ser_error :: "i64 \<times> bytes \<Rightarrow> bvalue" where
  "ser_error e = BList [BInt (fst e), BBytes (snd e)]"

definition de_error :: "bvalue \<Rightarrow> (i64 \<times> bytes) option" where
  "de_error v =
     (case v of
        BList [c, desc] \<Rightarrow> do { code \<leftarrow> de_i64 c; description \<leftarrow> de_byte_string desc; Some (code, description) }
      | _ \<Rightarrow> None)"

section \<open>Messages\<close>

datatype wire_kind =
    WireQueryKind wire_query bool
  | WireResponseKind response_arguments "sock_addr option"
  | WireErrorKind "i64 \<times> bytes" "sock_addr option"

record wire_message =
  wm_transaction_id :: bytes
  wm_version :: "bytes option"
  wm_kind :: wire_kind

definition ser_kind :: "wire_kind \<Rightarrow> dict" where
  "ser_kind k =
     (case k of
        WireQueryKind q ro \<Rightarrow> ser_field ''y'' (BBytes (ascii ''q'')) @ ser_query q @ ser_unless_false ''ro'' ro
      | WireResponseKind a requester \<Rightarrow>
          ser_field ''y'' (BBytes (ascii ''r'')) @ ser_field ''r'' (BDict (ser_response a)) @
          ser_optional ''ip'' ser_compact_address requester
      | WireErrorKind e requester \<Rightarrow>
          ser_field ''y'' (BBytes (ascii ''e'')) @ ser_field ''e'' (ser_error e) @
          ser_optional ''ip'' ser_compact_address requester)"

definition wire_message_fields :: "wire_message \<Rightarrow> dict" where
  "wire_message_fields m =
     ser_field ''t'' (BBytes (wm_transaction_id m)) @ ser_optional ''v'' BBytes (wm_version m) @ ser_kind (wm_kind m)"

definition wire_message_serialize :: "wire_message \<Rightarrow> bvalue" where
  "wire_message_serialize m = BDict (wire_message_fields m)"

definition de_kind :: "dict \<Rightarrow> wire_kind option" where
  "de_kind d = do {
     y \<leftarrow> de_required ''y'' de_byte_string d;
     if y = ascii ''q'' then do {
       q \<leftarrow> de_query d;
       ro \<leftarrow> de_default False ''ro'' de_wire_bool d;
       Some (WireQueryKind q ro) }
     else if y = ascii ''r'' then do {
       a \<leftarrow> de_required ''r'' (wire_map_deserialize de_response) d;
       requester \<leftarrow> de_optional ''ip'' de_compact_address d;
       Some (WireResponseKind a requester) }
     else if y = ascii ''e'' then do {
       e \<leftarrow> de_required ''e'' de_error d;
       requester \<leftarrow> de_optional ''ip'' de_compact_address d;
       Some (WireErrorKind e requester) }
     else None }"

text \<open>The codec reads the field names of the envelope, ignored ones too, as text: \<open>utf8\<close> says which byte strings it accepts.\<close>

definition wire_message_deserialize :: "(bytes \<Rightarrow> bool) \<Rightarrow> bvalue \<Rightarrow> wire_message option" where
  "wire_message_deserialize utf8 v =
     (case v of
        BDict d \<Rightarrow>
          (if list_all (\<lambda>(k, _). utf8 k) d
           then do {
             t \<leftarrow> de_required ''t'' de_byte_string d;
             version \<leftarrow> de_optional ''v'' de_byte_string d;
             kind \<leftarrow> de_kind d;
             Some \<lparr>wm_transaction_id = t, wm_version = version, wm_kind = kind\<rparr> }
           else None)
      | _ \<Rightarrow> None)"


section \<open>Field laws\<close>

lemma ascii_inject [simp]: "ascii s = ascii t \<longleftrightarrow> s = t"
proof -
  have "inj (\<lambda>c :: char. of_nat (of_char c) :: u8)"
  proof (rule injI)
    fix a b :: char
    assume "(of_nat (of_char a) :: u8) = of_nat (of_char b)"
    then have "unat (of_nat (of_char a) :: u8) = unat (of_nat (of_char b) :: u8)" by simp
    then have "(of_char a :: nat) = of_char b" by (simp add: unat_of_nat take_bit_nat_eq_self [of 8] flip: take_bit_eq_mod)
    then show "a = b" by simp
  qed
  then show ?thesis by (simp add: ascii_def inj_map_eq_map)
qed

lemma dict_get_Nil [simp]: "dict_get [] k = None"
  by (simp add: dict_get_def)

lemma dict_get_append: "dict_get (d @ d') k = (case dict_get d k of Some v \<Rightarrow> Some v | None \<Rightarrow> dict_get d' k)"
  by (simp add: dict_get_def map_add_def split: option.split)

lemma dict_get_field [simp]:
  "dict_get (ser_field k v @ d) k' = (if k = k' then Some v else dict_get d k')"
  "dict_get (ser_field k v) k' = (if k = k' then Some v else None)"
  by (simp_all add: ser_field_def dict_get_def)

lemma dict_get_optional [simp]:
  "dict_get (ser_optional k f x @ d) k' = (if k = k' \<and> x \<noteq> None then map_option f x else dict_get d k')"
  "dict_get (ser_optional k f x) k' = (if k = k' then map_option f x else None)"
  by (auto simp: ser_optional_def dict_get_def split: option.split)

lemma dict_get_unless_false [simp]:
  "dict_get (ser_unless_false k b @ d) k' = (if k = k' \<and> b then Some (BInt 1) else dict_get d k')"
  "dict_get (ser_unless_false k b) k' = (if k = k' \<and> b then Some (BInt 1) else None)"
  by (auto simp: ser_unless_false_def wire_bool_is_false_def wire_bool_serialize_def dict_get_def)

lemma de_required_Some: "dict_get d k = Some v \<Longrightarrow> de_required k f d = f v"
  by (simp add: de_required_def)

lemma de_optional_option:
  "dict_get d k = map_option g x \<Longrightarrow> (\<And>y. x = Some y \<Longrightarrow> f (g y) = Some y) \<Longrightarrow> de_optional k f d = Some x"
  by (cases x) (simp_all add: de_optional_def)

lemma de_flag:
  "dict_get d k = (if b then Some (BInt 1) else None) \<Longrightarrow> de_default False k de_wire_bool d = Some b"
  by (cases b) (simp_all add: de_default_def de_wire_bool_def de_i64_def wire_bool_deserialize_def)

lemma de_ser_id [simp]: "de_id (ser_id a) = Some a"
  by (simp add: de_id_def ser_id_def de_byte_array_def visit_bytes_def byte_array_deserialize_def)

lemma de_ser_compact_address [simp]: "de_compact_address (ser_compact_address a) = Some a"
  by (simp add: de_compact_address_def ser_compact_address_def visit_bytes_def compact_address_deserialize_def
    byte_array_deserialize_def compact_address_roundtrip) (simp add: compact_address_to_bytes_def)

lemma de_ser_compact_nodes [simp]: "de_compact_nodes (ser_compact_nodes cs) = Some cs"
  by (simp add: de_compact_nodes_def ser_compact_nodes_def visit_bytes_def compact_nodes_roundtrip)

lemma de_byte_string_BBytes [simp]: "de_byte_string (BBytes bs) = Some bs"
  by (simp add: de_byte_string_def visit_bytes_def byte_string_deserialize_def)

lemma de_byte_array_BBytes [simp]: "de_byte_array n (BBytes bs) = (if length bs = n then Some bs else None)"
  by (simp add: de_byte_array_def visit_bytes_def byte_array_deserialize_def)

lemma de_i64_BInt [simp]: "de_i64 (BInt i) = Some i"
  by (simp add: de_i64_def)

lemma de_u16_uint [simp]: "de_u16 (BInt (uint (p :: u16))) = Some p"
  using uint_lt2p [of p] by (simp add: de_u16_def)

lemma those_map_inverse: "(\<And>x. x \<in> set xs \<Longrightarrow> f (g x) = Some x) \<Longrightarrow> those (map f (map g xs)) = Some xs"
  by (induction xs) simp_all

lemma de_ser_addresses [simp]: "de_list de_compact_address (BList (map ser_compact_address as)) = Some as"
  using those_map_inverse [of as de_compact_address ser_compact_address] by (simp add: de_list_def)

lemma de_ser_error [simp]: "de_error (ser_error e) = Some e"
  by (simp add: de_error_def ser_error_def)


section \<open>Round trips, among unknown fields\<close>

text \<open>What the fixed-size arrays of the structs guarantee.\<close>

definition sized :: "nat \<Rightarrow> bytes option \<Rightarrow> bool" where
  "sized n x = (case x of Some bs \<Rightarrow> length bs = n | None \<Rightarrow> True)"

definition wire_message_wf :: "wire_message \<Rightarrow> bool" where
  "wire_message_wf m =
     (case wm_kind m of
        WireQueryKind (WirePut a) _ \<Rightarrow> sized 32 (pua_key a) \<and> sized 64 (pua_signature a)
      | WireResponseKind a _ \<Rightarrow> sized 32 (ra_key a) \<and> sized 64 (ra_signature a)
      | _ \<Rightarrow> True)"

text \<open>The fields that a message of a kind reads from the envelope and from its arguments.\<close>

definition envelope_fields :: "wire_kind \<Rightarrow> string list" where
  "envelope_fields k = [''t'', ''v'', ''y''] @
     (case k of
        WireQueryKind _ _ \<Rightarrow> [''q'', ''a'', ''ro'']
      | WireResponseKind _ _ \<Rightarrow> [''r'', ''ip'']
      | WireErrorKind _ _ \<Rightarrow> [''e'', ''ip''])"

definition argument_fields :: "wire_kind \<Rightarrow> string list" where
  "argument_fields k =
     (case k of
        WireQueryKind q _ \<Rightarrow> ''id'' #
          (case q of
             WirePing _ \<Rightarrow> []
           | WireFindNode _ \<Rightarrow> [''target'']
           | WireGetPeers _ \<Rightarrow> [''info_hash'']
           | WireAnnouncePeer _ \<Rightarrow> [''info_hash'', ''port'', ''implied_port'', ''token'']
           | WireGet _ \<Rightarrow> [''target'', ''seq'']
           | WirePut _ \<Rightarrow> [''token'', ''v'', ''k'', ''sig'', ''seq'', ''salt'', ''cas''])
      | WireResponseKind _ _ \<Rightarrow> [''id'', ''token'', ''nodes'', ''values'', ''v'', ''k'', ''sig'', ''seq'']
      | WireErrorKind _ _ \<Rightarrow> [])"

definition lacks :: "dict \<Rightarrow> string list \<Rightarrow> bool" where
  "lacks d ks = list_all (\<lambda>k. dict_get d k = None) ks"

lemma lacks_simps [simp]: "lacks d [] = True" "lacks d (k # ks) \<longleftrightarrow> dict_get d k = None \<and> lacks d ks"
  by (simp_all add: lacks_def)

text \<open>A message as another implementation may send it: with further fields in the envelope and in the arguments.\<close>

definition add_arguments :: "dict \<Rightarrow> dict \<Rightarrow> dict" where
  "add_arguments extra d = map (\<lambda>(k, v). (k, case v of BDict args \<Rightarrow> BDict (args @ extra) | _ \<Rightarrow> v)) d"

definition extended_message :: "dict \<Rightarrow> dict \<Rightarrow> wire_message \<Rightarrow> bvalue" where
  "extended_message extra_args extra m = BDict (add_arguments extra_args (wire_message_fields m) @ extra)"

lemma dict_get_add_arguments [simp]:
  "dict_get (add_arguments x d) k =
     map_option (\<lambda>v. case v of BDict args \<Rightarrow> BDict (args @ x) | _ \<Rightarrow> v) (dict_get d k)"
  by (simp add: add_arguments_def dict_get_def map_of_map)

lemma de_ser_ping: "de_ping (ser_ping a @ x) = Some a"
  by (simp add: de_ping_def ser_ping_def de_required_Some)

lemma de_ser_find_node: "de_find_node (ser_find_node a @ x) = Some a"
  by (simp add: de_find_node_def ser_find_node_def de_required_Some)

lemma de_ser_get_peers: "de_get_peers (ser_get_peers a @ x) = Some a"
  by (simp add: de_get_peers_def ser_get_peers_def de_required_Some)

lemma de_ser_announce_peer:
  assumes "dict_get x ''implied_port'' = None"
  shows "de_announce_peer (ser_announce_peer a @ x) = Some a"
proof -
  have "de_default False ''implied_port'' de_wire_bool (ser_announce_peer a @ x) = Some (apa_implied_port a)"
    by (rule de_flag) (simp add: ser_announce_peer_def assms)
  then show ?thesis by (simp add: de_announce_peer_def) (simp add: ser_announce_peer_def de_required_Some)
qed

lemma de_ser_get:
  assumes "dict_get x ''seq'' = None"
  shows "de_get (ser_get a @ x) = Some a"
proof -
  have "de_optional ''seq'' de_i64 (ser_get a @ x) = Some (ga_seq a)"
    by (rule de_optional_option [of _ _ BInt]) (simp_all add: ser_get_def assms)
  then show ?thesis by (simp add: de_get_def) (simp add: ser_get_def de_required_Some)
qed

lemma de_ser_put:
  assumes "sized 32 (pua_key a)" "sized 64 (pua_signature a)" "lacks x [''k'', ''sig'', ''seq'', ''salt'', ''cas'']"
  shows "de_put (ser_put a @ x) = Some a"
proof -
  let ?d = "ser_put a @ x"
  have "de_optional ''k'' (de_byte_array 32) ?d = Some (pua_key a)" "de_optional ''sig'' (de_byte_array 64) ?d = Some (pua_signature a)"
    "de_optional ''salt'' de_byte_string ?d = Some (pua_salt a)"
    by (rule de_optional_option [of _ _ BBytes]; use assms in \<open>simp add: ser_put_def sized_def\<close>)+
  moreover have "de_optional ''seq'' de_i64 ?d = Some (pua_seq a)" "de_optional ''cas'' de_i64 ?d = Some (pua_cas a)"
    by (rule de_optional_option [of _ _ BInt]; use assms in \<open>simp add: ser_put_def\<close>)+
  ultimately show ?thesis by (simp add: de_put_def) (simp add: ser_put_def de_required_Some)
qed

lemma de_ser_response:
  assumes "sized 32 (ra_key a)" "sized 64 (ra_signature a)"
    "lacks x [''token'', ''nodes'', ''values'', ''v'', ''k'', ''sig'', ''seq'']"
  shows "de_response (ser_response a @ x) = Some a"
proof -
  let ?d = "ser_response a @ x"
  have "de_optional ''k'' (de_byte_array 32) ?d = Some (ra_key a)" "de_optional ''sig'' (de_byte_array 64) ?d = Some (ra_signature a)"
    "de_optional ''token'' de_byte_string ?d = Some (ra_token a)"
    by (rule de_optional_option [of _ _ BBytes]; use assms in \<open>simp add: ser_response_def sized_def\<close>)+
  moreover have "de_optional ''seq'' de_i64 ?d = Some (ra_seq a)"
    by (rule de_optional_option [of _ _ BInt]) (use assms in \<open>simp_all add: ser_response_def\<close>)
  moreover have "de_optional ''nodes'' de_compact_nodes ?d = Some (ra_nodes a)"
    by (rule de_optional_option [of _ _ ser_compact_nodes]) (use assms in \<open>simp_all add: ser_response_def\<close>)
  moreover have "de_optional ''values'' (de_list de_compact_address) ?d = Some (ra_values a)"
    by (rule de_optional_option [of _ _ "\<lambda>vs. BList (map ser_compact_address vs)"]) (use assms in \<open>simp_all add: ser_response_def\<close>)
  moreover have "de_optional ''v'' Some ?d = Some (ra_value a)"
    by (rule de_optional_option [of _ _ "\<lambda>v. v"]) (use assms in \<open>simp_all add: ser_response_def option.map_ident\<close>)
  ultimately show ?thesis by (simp add: de_response_def) (simp add: ser_response_def de_required_Some)
qed


lemma de_arguments_Some:
  assumes "dict_get d ''a'' = Some (BDict args)" "f args = Some a"
  shows "de_arguments f c d = Some (c a)"
  using assms by (simp add: de_arguments_def de_required_Some wire_map_deserialize_def)

text \<open>A query is read back from any envelope that has its method and its arguments, among other arguments.\<close>

definition query_arguments :: "wire_query \<Rightarrow> dict" where
  "query_arguments q = (case q of
      WirePing a \<Rightarrow> ser_ping a | WireFindNode a \<Rightarrow> ser_find_node a | WireGetPeers a \<Rightarrow> ser_get_peers a
    | WireAnnouncePeer a \<Rightarrow> ser_announce_peer a | WireGet a \<Rightarrow> ser_get a | WirePut a \<Rightarrow> ser_put a)"

definition query_method :: "wire_query \<Rightarrow> string" where
  "query_method q = (case q of
      WirePing _ \<Rightarrow> ''ping'' | WireFindNode _ \<Rightarrow> ''find_node'' | WireGetPeers _ \<Rightarrow> ''get_peers''
    | WireAnnouncePeer _ \<Rightarrow> ''announce_peer'' | WireGet _ \<Rightarrow> ''get'' | WirePut _ \<Rightarrow> ''put'')"

lemma ser_query_method: "ser_query q = ser_method (query_method q) (query_arguments q)"
  by (simp add: ser_query_def query_method_def query_arguments_def split: wire_query.split)

lemma de_ser_query:
  assumes "dict_get d ''q'' = Some (BBytes (ascii (query_method q)))" "dict_get d ''a'' = Some (BDict (query_arguments q @ x))"
    and "lacks x (argument_fields (WireQueryKind q ro))" "wire_message_wf m" "wm_kind m = WireQueryKind q ro"
  shows "de_query d = Some q"
proof -
  have q: "de_required ''q'' de_byte_string d = Some (ascii (query_method q))" using assms(1) by (simp add: de_required_Some)
  note a = de_arguments_Some [OF assms(2)]
  show ?thesis
  proof (cases q)
    case (WirePing b)
    show ?thesis using a [of de_ping] q by (simp add: de_query_def WirePing query_arguments_def query_method_def de_ser_ping)
  next
    case (WireFindNode b)
    show ?thesis using a [of de_find_node] q
      by (simp add: de_query_def WireFindNode query_arguments_def query_method_def de_ser_find_node)
  next
    case (WireGetPeers b)
    show ?thesis using a [of de_get_peers] q
      by (simp add: de_query_def WireGetPeers query_arguments_def query_method_def de_ser_get_peers)
  next
    case (WireAnnouncePeer b)
    have "de_announce_peer (ser_announce_peer b @ x) = Some b"
      using assms(3) by (intro de_ser_announce_peer) (simp add: WireAnnouncePeer argument_fields_def)
    then show ?thesis using a [of de_announce_peer] q
      by (simp add: de_query_def WireAnnouncePeer query_arguments_def query_method_def)
  next
    case (WireGet b)
    have "de_get (ser_get b @ x) = Some b"
      using assms(3) by (intro de_ser_get) (simp add: WireGet argument_fields_def)
    then show ?thesis using a [of de_get] q by (simp add: de_query_def WireGet query_arguments_def query_method_def)
  next
    case (WirePut b)
    have "de_put (ser_put b @ x) = Some b"
      using assms(3-5) by (intro de_ser_put) (simp_all add: WirePut argument_fields_def wire_message_wf_def)
    then show ?thesis using a [of de_put] q by (simp add: de_query_def WirePut query_arguments_def query_method_def)
  qed
qed

lemma de_ser_kind:
  assumes "wire_message_wf m" "lacks xa (argument_fields (wm_kind m))" "lacks xe (envelope_fields (wm_kind m))"
  shows "de_kind (add_arguments xa (wire_message_fields m) @ xe) = Some (wm_kind m)"
proof -
  let ?d = "add_arguments xa (wire_message_fields m) @ xe"
  have get: "dict_get ?d k = (case dict_get (wire_message_fields m) k of
      Some v \<Rightarrow> Some (case v of BDict args \<Rightarrow> BDict (args @ xa) | _ \<Rightarrow> v) | None \<Rightarrow> dict_get xe k)" for k
    by (simp add: dict_get_append split: option.split)
  have ip: "de_optional ''ip'' de_compact_address ?d = Some r"
    if "dict_get (wire_message_fields m) ''ip'' = map_option ser_compact_address r" "dict_get xe ''ip'' = None" for r
    by (rule de_optional_option [of _ _ ser_compact_address])
      (use that de_ser_compact_address in \<open>simp_all add: get ser_compact_address_def split: option.split\<close>)
  show ?thesis
  proof (cases "wm_kind m")
    case (WireQueryKind q ro)
    have "de_query ?d = Some q"
      by (rule de_ser_query [OF _ _ _ assms(1) WireQueryKind, of _ xa])
        (use assms(2) in \<open>simp_all add: dict_get_append WireQueryKind wire_message_fields_def ser_kind_def ser_query_method
          ser_method_def\<close>)
    moreover have "de_default False ''ro'' de_wire_bool ?d = Some ro"
      by (rule de_flag) (use assms(3) in \<open>simp add: dict_get_append WireQueryKind wire_message_fields_def ser_kind_def ser_query_method
        ser_method_def envelope_fields_def\<close>)
    ultimately show ?thesis
      by (simp add: de_kind_def WireQueryKind) (simp add: de_required_def dict_get_append WireQueryKind wire_message_fields_def ser_kind_def)
  next
    case (WireResponseKind a r)
    have "de_response (ser_response a @ xa) = Some a"
      by (rule de_ser_response) (use assms(1,2) in \<open>simp_all add: WireResponseKind wire_message_wf_def argument_fields_def\<close>)
    then have "de_required ''r'' (wire_map_deserialize de_response) ?d = Some a"
      by (simp add: de_required_def dict_get_append WireResponseKind wire_message_fields_def ser_kind_def wire_map_deserialize_def)
    moreover have "de_optional ''ip'' de_compact_address ?d = Some r"
      by (rule ip) (use assms(3) in \<open>simp_all add: WireResponseKind wire_message_fields_def ser_kind_def envelope_fields_def\<close>)
    ultimately show ?thesis
      by (simp add: de_kind_def WireResponseKind) (simp add: de_required_def dict_get_append WireResponseKind wire_message_fields_def ser_kind_def)
  next
    case (WireErrorKind e r)
    have "de_required ''e'' de_error ?d = Some e"
      by (simp add: de_required_def dict_get_append WireErrorKind wire_message_fields_def ser_kind_def)
        (simp add: ser_error_def de_error_def)
    moreover have "de_optional ''ip'' de_compact_address ?d = Some r"
      by (rule ip) (use assms(3) in \<open>simp_all add: WireErrorKind wire_message_fields_def ser_kind_def envelope_fields_def\<close>)
    ultimately show ?thesis
      by (simp add: de_kind_def WireErrorKind) (simp add: de_required_def dict_get_append WireErrorKind wire_message_fields_def ser_kind_def)
  qed
qed


definition envelope_names :: "string list" where
  "envelope_names = [''t'', ''v'', ''y'', ''q'', ''a'', ''ro'', ''r'', ''ip'', ''e'']"

lemma wire_message_keys:
  assumes "list_all (\<lambda>k. utf8 (ascii k)) envelope_names"
  shows "list_all (\<lambda>(k, _). utf8 k) (add_arguments x (wire_message_fields m))"
  using assms
  by (auto simp: add_arguments_def wire_message_fields_def ser_kind_def ser_query_method ser_method_def ser_field_def
    ser_optional_def ser_unless_false_def envelope_names_def list_all_iff split: wire_kind.splits option.splits)

lemma wire_message_extended:
  assumes "wire_message_wf m" "lacks xa (argument_fields (wm_kind m))" "lacks xe (envelope_fields (wm_kind m))"
    and "list_all (\<lambda>k. utf8 (ascii k)) envelope_names" "list_all (\<lambda>(k, _). utf8 k) xe"
  shows "wire_message_deserialize utf8 (extended_message xa xe m) = Some m"
proof -
  let ?d = "add_arguments xa (wire_message_fields m) @ xe"
  have none: "dict_get (ser_kind k) ''t'' = None" "dict_get (ser_kind k) ''v'' = None" for k
    by (simp_all add: ser_kind_def ser_query_method ser_method_def split: wire_kind.split)
  have "de_optional ''v'' de_byte_string ?d = Some (wm_version m)"
    by (rule de_optional_option [of _ _ BBytes])
      (use assms(3) none in \<open>simp_all add: dict_get_append wire_message_fields_def envelope_fields_def split: option.split\<close>)
  then show ?thesis using de_ser_kind [OF assms(1-3)] wire_message_keys [OF assms(4)] assms(5)
    by (simp add: wire_message_deserialize_def extended_message_def)
      (simp add: de_required_def dict_get_append wire_message_fields_def)
qed

lemma wire_message_plain:
  assumes "wire_message_wf m" "list_all (\<lambda>k. utf8 (ascii k)) envelope_names"
  shows "wire_message_deserialize utf8 (wire_message_serialize m) = Some m"
proof -
  have "add_arguments [] d = d" for d
    by (induction d) (auto simp: add_arguments_def split: bvalue.split)
  then show ?thesis using wire_message_extended [OF assms(1) _ _ assms(2), of "[]" "[]"]
    by (simp add: extended_message_def wire_message_serialize_def lacks_def list_all_iff)
qed

text \<open>C31: a message survives encoding and decoding, whatever its kind and its optional fields, and also when its envelope and its arguments
  carry any further fields that its kind does not read, such as the fields of another kind.\<close>

theorem wire_message_roundtrip:
  assumes "wire_message_wf m" "lacks extra_args (argument_fields (wm_kind m))" "lacks extra (envelope_fields (wm_kind m))"
    and "list_all (\<lambda>k. utf8 (ascii k)) envelope_names" "list_all (\<lambda>(k, _). utf8 k) extra"
  shows "wire_message_deserialize utf8 (extended_message extra_args extra m) = Some m \<and>
    wire_message_deserialize utf8 (wire_message_serialize m) = Some m"
  using wire_message_extended [OF assms] wire_message_plain [OF assms(1,4)] by simp

definition wit_put_message :: wire_message where
  "wit_put_message = \<lparr>wm_transaction_id = [1, 2], wm_version = None, wm_kind = WireQueryKind (WirePut
     \<lparr>pua_id = id_of (replicate 20 3), pua_token = [], pua_value = BList [BInt 5], pua_key = Some (replicate 32 1),
      pua_signature = Some (replicate 64 2), pua_seq = Some (- 1), pua_salt = None, pua_cas = None\<rparr>) True\<rparr>"

lemma wit_put_message_wf: "wire_message_wf wit_put_message"
  by (simp add: wire_message_wf_def wit_put_message_def sized_def)

theorem wire_message_roundtrip_witness:
  "wire_message_deserialize (list_all (\<lambda>b. b < 128))
     (extended_message [(ascii ''target'', BInt 7)] [(ascii ''ip'', BBytes []), (ascii ''r'', BList [])] wit_put_message) = Some wit_put_message"
proof -
  have "lacks [(ascii ''target'', BInt 7)] (argument_fields (wm_kind wit_put_message))"
    "lacks [(ascii ''ip'', BBytes []), (ascii ''r'', BList [])] (envelope_fields (wm_kind wit_put_message))"
    by (simp_all add: wit_put_message_def argument_fields_def envelope_fields_def dict_get_def)
  then show ?thesis
    by (rule wire_message_roundtrip [OF wit_put_message_wf, THEN conjunct1]) (simp_all add: envelope_names_def)
qed

lemma bind_eq_Some: "Option.bind x f = Some z \<longleftrightarrow> (\<exists>y. x = Some y \<and> f y = Some z)"
  by (cases x) simp_all

lemma de_optional_sized: "de_optional k (de_byte_array n) d = Some x \<Longrightarrow> sized n x"
  by (auto simp: de_optional_def sized_def de_byte_array_def visit_bytes_def byte_array_deserialize_def
    split: option.splits bvalue.splits if_splits)

lemma de_put_sized: "de_put d = Some a \<Longrightarrow> sized 32 (pua_key a) \<and> sized 64 (pua_signature a)"
  by (auto simp: de_put_def bind_eq_Some dest: de_optional_sized)

lemma de_response_sized: "de_response d = Some a \<Longrightarrow> sized 32 (ra_key a) \<and> sized 64 (ra_signature a)"
  by (auto simp: de_response_def bind_eq_Some dest: de_optional_sized)

lemma de_arguments_eq_Some:
  "de_arguments f c d = Some q \<longleftrightarrow> (\<exists>a args. dict_get d ''a'' = Some (BDict args) \<and> f args = Some a \<and> q = c a)"
  by (auto simp: de_arguments_def de_required_def wire_map_deserialize_def split: option.splits bvalue.splits)

lemma de_query_put: "de_query d = Some (WirePut a) \<Longrightarrow> \<exists>args. de_put args = Some a"
  by (auto simp: de_query_def bind_eq_Some de_arguments_eq_Some split: if_splits)

text \<open>C32: decoding is typed: whatever value decodes to a message has keys of 32 and signatures of 64 bytes, and the message is
  canonical: encoding it again, without what was ignored and with flags as zero and one, decodes to the same message.\<close>

theorem wire_message_typed:
  assumes "wire_message_deserialize utf8 v = Some m" "list_all (\<lambda>k. utf8 (ascii k)) envelope_names"
  shows "wire_message_wf m \<and> wire_message_deserialize utf8 (wire_message_serialize m) = Some m"
proof -
  obtain d where d: "de_kind d = Some (wm_kind m)" using assms(1)
    by (auto simp: wire_message_deserialize_def bind_eq_Some split: bvalue.splits if_splits)
  have wf: "wire_message_wf m"
  proof (cases "wm_kind m")
    case (WireQueryKind q ro)
    have "de_query d = Some q" using d unfolding WireQueryKind by (auto simp: de_kind_def bind_eq_Some split: if_splits)
    then show ?thesis using de_query_put de_put_sized
      by (auto simp: wire_message_wf_def WireQueryKind split: wire_query.splits)
  next
    case (WireResponseKind a r)
    have "de_required ''r'' (wire_map_deserialize de_response) d = Some a"
      using d unfolding WireResponseKind by (auto simp: de_kind_def bind_eq_Some split: if_splits)
    then show ?thesis using de_response_sized
      by (auto simp: wire_message_wf_def WireResponseKind de_required_def wire_map_deserialize_def split: option.splits bvalue.splits)
  qed (simp add: wire_message_wf_def)
  then show ?thesis using wire_message_plain [OF wf assms(2)] by simp
qed

theorem wire_message_typed_witness:
  "wire_message_wf wit_put_message \<and>
   wire_message_deserialize (list_all (\<lambda>b. b < 128)) (wire_message_serialize wit_put_message) = Some wit_put_message"
proof -
  have names: "list_all (\<lambda>k. list_all (\<lambda>b. b < 128) (ascii k)) envelope_names" by (simp add: envelope_names_def)
  show ?thesis using wire_message_typed [OF wire_message_plain [OF wit_put_message_wf names] names] by simp
qed

end
