(* ===== verification/Reactor.thy ===== *)
theory Reactor
  imports Node_Entry
begin

text \<open>
  The reactor of \<^verbatim>\<open>src/mainline-next/src/reactor\<close>: a thread that owns a UDP socket (\<^verbatim>\<open>worker.rs\<close>) and the cloneable handles
  that stop it (\<^verbatim>\<open>handle.rs\<close>). The threads interleave: a step is one atomic action of one thread, and \<open>reactor_run\<close>
  runs any sequence of them. \<open>request_shutdown\<close> is two steps, storing the flag and waking; upgrading the weak reference
  to the waker and using it is one step, since a worker that exits in between no longer polls and needs no wake-up. Binding, polling and waking are the operating system's (crates \<^verbatim>\<open>std\<close> and \<^verbatim>\<open>mio\<close>): what they return is
  part of the step. The theorems show that every call of \<open>shutdown\<close> gets the result of the worker, that no wake-up is
  lost, and that a requested shutdown completes.
\<close>

section \<open>Starting a reactor\<close>

datatype socket_address = SocketV4 sock_addr | SocketV6 bytes u16

datatype 'e io_error = OsError 'e | InvalidData string

fun ipv4_address :: "socket_address \<Rightarrow> 'e io_error + sock_addr" where
  "ipv4_address (SocketV4 address) = Inr address"
| "ipv4_address (SocketV6 _ _) = Inl (InvalidData ''IPv4 socket returned an IPv6 address'')"

text \<open>What the operating system answers to the calls that start a reactor.\<close>

record ('e, 's) reactor_os =
  os_bind :: "sock_addr \<Rightarrow> 'e + 's"
  os_local_addr :: "'s \<Rightarrow> 'e + socket_address"
  os_poll_new :: "'e + unit"
  os_register :: "'s \<Rightarrow> 'e + unit"
  os_waker_new :: "'e + unit"
  os_spawn :: "'e + unit"

text \<open>The result of the worker's thread, as joining it returns it.\<close>

datatype 'e worker_result = WorkerOk | WorkerErr "'e io_error" | WorkerPanic

text \<open>Where the worker is: at the loop condition, inside \<open>poll\<close>, or gone with its socket and its waker.\<close>

datatype 'e worker_phase = AtLoopHead | InPoll | Exited "'e worker_result"

record 'e worker =
  wk_phase :: "'e worker_phase"
  wk_socket_open :: bool
  wk_waker_alive :: bool
  wk_shutdown_requested :: bool
  wk_wake_pending :: bool

definition worker_new :: "('e, 's) reactor_os \<Rightarrow> 's \<Rightarrow> 'e io_error + 'e worker" where
  "worker_new os socket =
     map_err OsError
       (bindE (os_poll_new os) (\<lambda>_.
        bindE (os_register os socket) (\<lambda>_.
        bindE (os_waker_new os) (\<lambda>_.
        Inr \<lparr>wk_phase = AtLoopHead, wk_socket_open = True, wk_waker_alive = True, wk_shutdown_requested = False,
             wk_wake_pending = False\<rparr>))))"

datatype 'e shutdown_error = WorkerIo "'e io_error" | WorkerPanicked

definition shutdown_error_display :: "('e io_error \<Rightarrow> string) \<Rightarrow> 'e shutdown_error \<Rightarrow> string" where
  "shutdown_error_display show err =
     (case err of
        WorkerIo e \<Rightarrow> ''reactor worker failed: '' @ show e
      | WorkerPanicked \<Rightarrow> ''reactor worker panicked'')"

definition shutdown_error_source :: "'e shutdown_error \<Rightarrow> 'e io_error option" where
  "shutdown_error_source err = (case err of WorkerIo e \<Rightarrow> Some e | WorkerPanicked \<Rightarrow> None)"

datatype 'e join_state = Unjoined | Joined "'e shutdown_error + unit"

text \<open>A handle is \<open>Live\<close> until it is dropped or consumed by \<open>shutdown\<close>. A call of \<open>shutdown\<close> stores the flag, wakes the worker, locks the
  join state, takes it out, joins, puts the result back and answers; then its handle is dropped. The drop of
  the last handle stores the flag and wakes the worker once more (\<open>FinalDrop\<close>). Once released, a handle keeps what its
  \<open>shutdown\<close> returned, if it was called.\<close>

datatype 'e handle_phase =
    Live
  | ShutdownRequested
  | AwaitingLock
  | Joining "'e join_state"
  | Answered "'e shutdown_error + unit"
  | FinalDrop "('e shutdown_error + unit) option"
  | Released "('e shutdown_error + unit) option"

record 'e reactor =
  rc_local_addr :: sock_addr
  rc_worker :: "'e worker"
  rc_join :: "'e join_state"
  rc_join_lock :: "nat option"
  rc_handles :: "'e handle_phase list"

definition reactor_bind :: "('e, 's) reactor_os \<Rightarrow> sock_addr \<Rightarrow> 'e io_error + 'e reactor" where
  "reactor_bind os address =
     bindE (map_err OsError (os_bind os address)) (\<lambda>socket.
     bindE (map_err OsError (os_local_addr os socket)) (\<lambda>bound.
     bindE (ipv4_address bound) (\<lambda>local.
     bindE (worker_new os socket) (\<lambda>w.
     bindE (map_err OsError (os_spawn os)) (\<lambda>_.
     Inr \<lparr>rc_local_addr = local, rc_worker = w, rc_join = Unjoined, rc_join_lock = None, rc_handles = [Live]\<rparr>)))))"

section \<open>The worker\<close>

datatype 'e poll_result = PollReady bool | PollInterrupted | PollFailed 'e | PollPanicked

definition worker_exit :: "'e worker_result \<Rightarrow> 'e worker \<Rightarrow> 'e worker" where
  "worker_exit res w = w\<lparr>wk_phase := Exited res, wk_socket_open := False, wk_waker_alive := False\<rparr>"

text \<open>The condition of the loop in \<open>run\<close>, and the return of \<open>poll\<close>. A ready poll may deliver the wake event or only others.\<close>

definition worker_check :: "'e worker \<Rightarrow> 'e worker option" where
  "worker_check w =
     (if wk_phase w = AtLoopHead
      then Some (if wk_shutdown_requested w then worker_exit WorkerOk w else w\<lparr>wk_phase := InPoll\<rparr>)
      else None)"

definition worker_poll :: "'e poll_result \<Rightarrow> 'e worker \<Rightarrow> 'e worker option" where
  "worker_poll result w =
     (if wk_phase w = InPoll
      then Some (case result of
          PollReady delivers_wake \<Rightarrow>
            w\<lparr>wk_phase := AtLoopHead, wk_wake_pending := wk_wake_pending w \<and> \<not> delivers_wake\<rparr>
        | PollInterrupted \<Rightarrow> w\<lparr>wk_phase := AtLoopHead\<rparr>
        | PollFailed e \<Rightarrow> worker_exit (WorkerErr (OsError e)) w
        | PollPanicked \<Rightarrow> worker_exit WorkerPanic w)
      else None)"

text \<open>\<open>request_shutdown\<close> stores the flag, then wakes the worker if its waker is still there; a failing wake is ignored.\<close>

definition request_store :: "'e worker \<Rightarrow> 'e worker" where
  "request_store w = w\<lparr>wk_shutdown_requested := True\<rparr>"

definition request_wake :: "bool \<Rightarrow> 'e worker \<Rightarrow> 'e worker" where
  "request_wake delivered w = (if wk_waker_alive w \<and> delivered then w\<lparr>wk_wake_pending := True\<rparr> else w)"

section \<open>Joining\<close>

definition thread_join_result :: "'e worker_result \<Rightarrow> 'e shutdown_error + unit" where
  "thread_join_result res =
     (case res of
        WorkerOk \<Rightarrow> Inr ()
      | WorkerErr e \<Rightarrow> Inl (WorkerIo e)
      | WorkerPanic \<Rightarrow> Inl WorkerPanicked)"

text \<open>The body of \<open>JoinState::join\<close> after the state has been taken out: \<open>None\<close> while the thread that it joins is
  still running, and otherwise the result and the state that is put back.\<close>

definition join_state_join ::
  "'e worker_phase \<Rightarrow> 'e join_state \<Rightarrow> (('e shutdown_error + unit) \<times> 'e join_state) option" where
  "join_state_join phase state =
     (case state of
        Unjoined \<Rightarrow>
          (case phase of
             Exited res \<Rightarrow> Some (thread_join_result res, Joined (thread_join_result res))
           | _ \<Rightarrow> None)
      | Joined result \<Rightarrow> Some (result, Joined result))"

section \<open>Steps\<close>

datatype 'e reactor_action =
    CloneHandle nat
  | CallShutdown nat
  | Wake nat bool
  | LockJoin nat
  | FinishJoin nat
  | ReleaseHandle nat
  | WorkerCheck
  | WorkerPoll "'e poll_result"

text \<open>The handles that still count for the shared control; the last of them to go drops it.\<close>

definition holds_control :: "'e handle_phase \<Rightarrow> bool" where
  "holds_control h = (case h of Released _ \<Rightarrow> False | FinalDrop _ \<Rightarrow> False | _ \<Rightarrow> True)"

definition set_handle :: "nat \<Rightarrow> 'e handle_phase \<Rightarrow> 'e reactor \<Rightarrow> 'e reactor" where
  "set_handle i h r = r\<lparr>rc_handles := (rc_handles r)[i := h]\<rparr>"

definition drop_handle :: "nat \<Rightarrow> ('e shutdown_error + unit) option \<Rightarrow> 'e reactor \<Rightarrow> 'e reactor" where
  "drop_handle i res r =
     (if length (filter holds_control (rc_handles r)) = 1
      then set_handle i (FinalDrop res) (r\<lparr>rc_worker := request_store (rc_worker r)\<rparr>)
      else set_handle i (Released res) r)"

definition handle_step :: "'e reactor_action \<Rightarrow> nat \<Rightarrow> 'e reactor \<Rightarrow> 'e reactor option" where
  "handle_step act i r =
     (if length (rc_handles r) \<le> i then None
      else case (act, rc_handles r ! i) of
        (CloneHandle _, Live) \<Rightarrow> Some (r\<lparr>rc_handles := rc_handles r @ [Live]\<rparr>)
      | (CallShutdown _, Live) \<Rightarrow> Some (set_handle i ShutdownRequested (r\<lparr>rc_worker := request_store (rc_worker r)\<rparr>))
      | (Wake _ delivered, ShutdownRequested) \<Rightarrow>
          Some (set_handle i AwaitingLock (r\<lparr>rc_worker := request_wake delivered (rc_worker r)\<rparr>))
      | (Wake _ delivered, FinalDrop res) \<Rightarrow>
          Some (set_handle i (Released res) (r\<lparr>rc_worker := request_wake delivered (rc_worker r)\<rparr>))
      | (LockJoin _, AwaitingLock) \<Rightarrow>
          (if rc_join_lock r = None
           then Some (set_handle i (Joining (rc_join r)) (r\<lparr>rc_join := Joined (Inr ()), rc_join_lock := Some i\<rparr>))
           else None)
      | (FinishJoin _, Joining state) \<Rightarrow>
          (case join_state_join (wk_phase (rc_worker r)) state of
             Some (result, state') \<Rightarrow> Some (set_handle i (Answered result) (r\<lparr>rc_join := state', rc_join_lock := None\<rparr>))
           | None \<Rightarrow> None)
      | (ReleaseHandle _, Live) \<Rightarrow> Some (drop_handle i None r)
      | (ReleaseHandle _, Answered res) \<Rightarrow> Some (drop_handle i (Some res) r)
      | _ \<Rightarrow> None)"

definition reactor_step :: "'e reactor_action \<Rightarrow> 'e reactor \<Rightarrow> 'e reactor option" where
  "reactor_step act r =
     (case act of
        WorkerCheck \<Rightarrow> map_option (\<lambda>w. r\<lparr>rc_worker := w\<rparr>) (worker_check (rc_worker r))
      | WorkerPoll result \<Rightarrow> map_option (\<lambda>w. r\<lparr>rc_worker := w\<rparr>) (worker_poll result (rc_worker r))
      | CloneHandle i \<Rightarrow> handle_step act i r
      | CallShutdown i \<Rightarrow> handle_step act i r
      | Wake i _ \<Rightarrow> handle_step act i r
      | LockJoin i \<Rightarrow> handle_step act i r
      | FinishJoin i \<Rightarrow> handle_step act i r
      | ReleaseHandle i \<Rightarrow> handle_step act i r)"

fun reactor_run :: "'e reactor_action list \<Rightarrow> 'e reactor \<Rightarrow> 'e reactor option" where
  "reactor_run [] r = Some r"
| "reactor_run (act # acts) r = (case reactor_step act r of Some r' \<Rightarrow> reactor_run acts r' | None \<Rightarrow> None)"


section \<open>The invariant of the threads\<close>

definition handle_result :: "'e handle_phase \<Rightarrow> ('e shutdown_error + unit) option" where
  "handle_result h = (case h of Answered res \<Rightarrow> Some res | FinalDrop res \<Rightarrow> res | Released res \<Rightarrow> res | _ \<Rightarrow> None)"

definition is_result :: "'e worker \<Rightarrow> 'e shutdown_error + unit \<Rightarrow> bool" where
  "is_result w result \<longleftrightarrow> (case wk_phase w of Exited res \<Rightarrow> result = thread_join_result res | _ \<Rightarrow> False)"

definition join_ok :: "'e worker \<Rightarrow> 'e join_state \<Rightarrow> bool" where
  "join_ok w state = (case state of Unjoined \<Rightarrow> True | Joined result \<Rightarrow> is_result w result)"

definition worker_inv :: "'e worker \<Rightarrow> bool" where
  "worker_inv w \<longleftrightarrow> (case wk_phase w of
      Exited res \<Rightarrow> \<not> wk_socket_open w \<and> \<not> wk_waker_alive w \<and> (res = WorkerOk \<longrightarrow> wk_shutdown_requested w)
    | _ \<Rightarrow> wk_socket_open w \<and> wk_waker_alive w)"

definition join_inv :: "'e reactor \<Rightarrow> bool" where
  "join_inv r \<longleftrightarrow>
     (case rc_join_lock r of
        None \<Rightarrow> join_ok (rc_worker r) (rc_join r)
      | Some i \<Rightarrow> i < length (rc_handles r) \<and> (\<exists>st. rc_handles r ! i = Joining st)) \<and>
     (\<forall>i < length (rc_handles r). \<forall>st. rc_handles r ! i = Joining st \<longrightarrow> rc_join_lock r = Some i \<and> join_ok (rc_worker r) st)"

definition results_inv :: "'e reactor \<Rightarrow> bool" where
  "results_inv r \<longleftrightarrow> (\<forall>h \<in> set (rc_handles r). \<forall>res. handle_result h = Some res \<longrightarrow> is_result (rc_worker r) res)"

definition reactor_inv :: "'e reactor \<Rightarrow> bool" where
  "reactor_inv r \<longleftrightarrow> worker_inv (rc_worker r) \<and> join_inv r \<and> results_inv r"

lemma reactor_bind_inv: "reactor_bind os a = Inr r \<Longrightarrow> reactor_inv r"
  by (auto simp: reactor_bind_def worker_new_def bindE_def map_err_def reactor_inv_def worker_inv_def join_inv_def
    results_inv_def join_ok_def handle_result_def split: sum.splits)

text \<open>The flag and the pending wake-up do not matter for what has been joined.\<close>

lemma is_result_request [simp]:
  "is_result (request_store w) = is_result w" "is_result (request_wake d w) = is_result w"
  by (simp_all add: is_result_def request_store_def request_wake_def fun_eq_iff)

lemma join_ok_request [simp]: "join_ok (request_store w) = join_ok w" "join_ok (request_wake d w) = join_ok w"
  by (simp_all add: join_ok_def fun_eq_iff split: join_state.split)

lemma worker_inv_request [simp]: "worker_inv w \<Longrightarrow> worker_inv (request_store w)" "worker_inv w \<Longrightarrow> worker_inv (request_wake d w)"
  by (auto simp: worker_inv_def request_store_def request_wake_def split: worker_phase.splits)

text \<open>A step of a handle changes that handle, perhaps appends a clone, and does at most one thing to the shared state.\<close>

lemma handle_step_cases [consumes 1, case_names clone call wake final lock join release]:
  assumes "handle_step act i r = Some r'"
  obtains
    "i < length (rc_handles r)" "rc_handles r ! i = Live" "r' = r\<lparr>rc_handles := rc_handles r @ [Live]\<rparr>"
  | "i < length (rc_handles r)" "rc_handles r ! i = Live"
    "r' = set_handle i ShutdownRequested (r\<lparr>rc_worker := request_store (rc_worker r)\<rparr>)"
  | d where "i < length (rc_handles r)" "rc_handles r ! i = ShutdownRequested"
    "r' = set_handle i AwaitingLock (r\<lparr>rc_worker := request_wake d (rc_worker r)\<rparr>)"
  | d res where "i < length (rc_handles r)" "rc_handles r ! i = FinalDrop res"
    "r' = set_handle i (Released res) (r\<lparr>rc_worker := request_wake d (rc_worker r)\<rparr>)"
  | "i < length (rc_handles r)" "rc_handles r ! i = AwaitingLock" "rc_join_lock r = None"
    "r' = set_handle i (Joining (rc_join r)) (r\<lparr>rc_join := Joined (Inr ()), rc_join_lock := Some i\<rparr>)"
  | st res st' where "i < length (rc_handles r)" "rc_handles r ! i = Joining st"
    "join_state_join (wk_phase (rc_worker r)) st = Some (res, st')"
    "r' = set_handle i (Answered res) (r\<lparr>rc_join := st', rc_join_lock := None\<rparr>)"
  | "i < length (rc_handles r)" "rc_handles r ! i = Live \<or> (\<exists>res. rc_handles r ! i = Answered res)"
    "r' = drop_handle i (handle_result (rc_handles r ! i)) r"
  using assms unfolding handle_step_def
  by (auto simp: handle_result_def not_le split: if_splits reactor_action.splits handle_phase.splits option.splits)


lemma join_inv_set:
  assumes "join_inv r" "rc_handles r ! i = h0" "i < length (rc_handles r)" "\<And>st. h0 \<noteq> Joining st" "\<And>st. h \<noteq> Joining st"
  shows "join_inv (set_handle i h r)"
proof (cases "rc_join_lock r")
  case None
  then show ?thesis using assms by (auto simp: join_inv_def set_handle_def nth_list_update)
next
  case (Some j)
  then have "j \<noteq> i" using assms(1,2,4) by (auto simp: join_inv_def)
  then show ?thesis using assms Some by (auto simp: join_inv_def set_handle_def nth_list_update)
qed

lemma join_inv_worker:
  assumes "\<And>st. join_ok (rc_worker r) st \<Longrightarrow> join_ok w st"
  shows "join_inv r \<Longrightarrow> join_inv (r\<lparr>rc_worker := w\<rparr>)"
  using assms by (auto simp: join_inv_def split: option.splits)

lemma results_inv_worker:
  assumes "\<And>x. is_result (rc_worker r) x \<Longrightarrow> is_result w x"
  shows "results_inv r \<Longrightarrow> results_inv (r\<lparr>rc_worker := w\<rparr>)"
  using assms by (auto simp: results_inv_def)

lemma results_inv_set:
  assumes "results_inv r" "\<And>res. handle_result h = Some res \<Longrightarrow> is_result (rc_worker r) res"
  shows "results_inv (set_handle i h r)"
  using assms by (auto simp: results_inv_def set_handle_def dest!: set_update_subset_insert [THEN subsetD])

lemma drop_handle_inv:
  assumes "reactor_inv r" "i < length (rc_handles r)" "rc_handles r ! i = Live \<or> (\<exists>res. rc_handles r ! i = Answered res)"
  shows "reactor_inv (drop_handle i (handle_result (rc_handles r ! i)) r)"
proof -
  let ?h = "rc_handles r ! i"
  have inv: "worker_inv (rc_worker r)" "join_inv r" "results_inv r" using assms(1) by (simp_all add: reactor_inv_def)
  have h: "\<And>st. ?h \<noteq> Joining st" using assms(3) by auto
  have res: "is_result (rc_worker r) x" if "handle_result ?h = Some x" for x
    using inv(3) that nth_mem [OF assms(2)] by (auto simp: results_inv_def)
  let ?r = "r\<lparr>rc_worker := request_store (rc_worker r)\<rparr>"
  have r: "join_inv ?r" "results_inv ?r" using inv by (simp_all add: join_inv_def results_inv_def cong: option.case_cong)
  have hr: "handle_result (FinalDrop y) = y" "handle_result (Released y) = y" for y :: "('a shutdown_error + unit) option"
    by (simp_all add: handle_result_def)
  have "join_inv (drop_handle i (handle_result ?h) r)"
    using join_inv_set [OF r(1), of i ?h] join_inv_set [OF inv(2), of i ?h] assms(2) h by (simp add: drop_handle_def)
  moreover have "results_inv (drop_handle i (handle_result ?h) r)"
    unfolding drop_handle_def by (auto intro!: results_inv_set r(2) inv(3) simp: hr res)
  moreover have "worker_inv (rc_worker (drop_handle i (handle_result ?h) r))"
    using inv(1) by (simp add: drop_handle_def set_handle_def)
  ultimately show ?thesis by (simp add: reactor_inv_def)
qed


lemma reactor_inv_set:
  assumes "reactor_inv r" "rc_handles r ! i = h0" "i < length (rc_handles r)" "\<And>st. h0 \<noteq> Joining st" "\<And>st. h \<noteq> Joining st"
    "\<And>res. handle_result h = Some res \<Longrightarrow> is_result (rc_worker r) res"
  shows "reactor_inv (set_handle i h r)"
  using assms join_inv_set [of r i h0 h] results_inv_set [of r h i] by (simp add: reactor_inv_def set_handle_def)

lemma handle_step_inv:
  assumes "reactor_inv r" "handle_step act i r = Some r'"
  shows "reactor_inv r'"
proof -
  have inv: "worker_inv (rc_worker r)" "join_inv r" "results_inv r" using assms(1) by (simp_all add: reactor_inv_def)
  have req: "reactor_inv (r\<lparr>rc_worker := request_store (rc_worker r)\<rparr>)"
    "reactor_inv (r\<lparr>rc_worker := request_wake d (rc_worker r)\<rparr>)" for d
    unfolding reactor_inv_def by (simp_all add: inv results_inv_worker join_inv_worker)
  show ?thesis using assms(2)
  proof (cases rule: handle_step_cases)
    case clone
    then show ?thesis using inv
      by (auto simp: reactor_inv_def join_inv_def results_inv_def handle_result_def nth_append split: option.splits)
  next
    case call
    show ?thesis unfolding call(3) by (rule reactor_inv_set [OF req(1)]) (use call in \<open>auto simp: handle_result_def\<close>)
  next
    case (wake d)
    show ?thesis unfolding wake(3) by (rule reactor_inv_set [OF req(2)]) (use wake in \<open>auto simp: handle_result_def\<close>)
  next
    case (final d res)
    have "is_result (rc_worker r) x" if "res = Some x" for x
      using inv(3) nth_mem [OF final(1)] final(2) that by (force simp: results_inv_def handle_result_def)
    then show ?thesis unfolding final(3)
      by (intro reactor_inv_set [OF req(2)]) (use final in \<open>auto simp: handle_result_def\<close>)
  next
    case lock
    then show ?thesis using inv
      by (auto simp: reactor_inv_def join_inv_def results_inv_def set_handle_def handle_result_def nth_list_update
        dest!: set_update_subset_insert [THEN subsetD])
  next
    case (join st res st')
    then have "is_result (rc_worker r) res" "join_ok (rc_worker r) st'"
      using inv(2) by (auto simp: join_inv_def join_ok_def is_result_def join_state_join_def
        split: join_state.splits worker_phase.splits)
    moreover have "rc_handles r ! j \<noteq> Joining st2" if "j < length (rc_handles r)" "j \<noteq> i" for j st2
      using inv(2) join(1,2) that unfolding join_inv_def by (metis option.inject)
    then have "(rc_handles r)[i := Answered res] ! j \<noteq> Joining st2" if "j < length (rc_handles r)" for j st2
      using that join(1) by (cases "j = i") simp_all
    ultimately have "join_inv r'" unfolding join(4) join_inv_def by (simp add: set_handle_def)
    moreover have "results_inv r'" unfolding join(4)
      by (rule results_inv_set) (use inv(3) \<open>is_result (rc_worker r) res\<close> in \<open>auto simp: results_inv_def handle_result_def\<close>)
    ultimately show ?thesis using inv(1) by (simp add: reactor_inv_def join(4) set_handle_def)
  next
    case release
    then show ?thesis using drop_handle_inv [OF assms(1)] by blast
  qed
qed

lemma worker_step_inv:
  assumes "reactor_inv r" "worker_check (rc_worker r) = Some w \<or> worker_poll result (rc_worker r) = Some w"
  shows "reactor_inv (r\<lparr>rc_worker := w\<rparr>)"
proof -
  have nr: "\<not> is_result (rc_worker r) x" for x
    using assms(2) by (auto simp: worker_check_def worker_poll_def is_result_def split: if_splits)
  then have "join_ok (rc_worker r) st \<Longrightarrow> join_ok w st" for st by (simp add: join_ok_def split: join_state.splits)
  then have "join_inv (r\<lparr>rc_worker := w\<rparr>)" using assms(1) by (intro join_inv_worker) (simp_all add: reactor_inv_def)
  moreover have "results_inv (r\<lparr>rc_worker := w\<rparr>)" using assms(1) nr by (auto simp: reactor_inv_def results_inv_def)
  moreover have "worker_inv w" using assms
    by (auto simp: reactor_inv_def worker_inv_def worker_check_def worker_poll_def worker_exit_def
      split: if_splits poll_result.splits)
  ultimately show ?thesis by (simp add: reactor_inv_def)
qed

lemma reactor_step_inv: "reactor_inv r \<Longrightarrow> reactor_step act r = Some r' \<Longrightarrow> reactor_inv r'"
  by (cases act) (auto simp: reactor_step_def intro: handle_step_inv worker_step_inv)

lemma reactor_run_inv: "reactor_run acts r = Some r' \<Longrightarrow> reactor_inv r \<Longrightarrow> reactor_inv r'"
  by (induction acts arbitrary: r) (auto split: option.splits intro: reactor_step_inv)


text \<open>C19: every call of \<open>shutdown\<close> that has returned, from any handle and in any interleaving, returned the result of the one worker, and
  by then the worker was gone and its socket closed. Whoever joins the worker caches its result for the others.\<close>

theorem shutdown_returns_worker_result:
  assumes "reactor_bind os address = Inr r0" "reactor_run acts r0 = Some r"
    and "h \<in> set (rc_handles r)" "handle_result h = Some result"
  shows "\<exists>res. wk_phase (rc_worker r) = Exited res \<and> result = thread_join_result res \<and> \<not> wk_socket_open (rc_worker r)"
proof -
  have "reactor_inv r" using reactor_run_inv [OF assms(2)] reactor_bind_inv [OF assms(1)] by blast
  then have "is_result (rc_worker r) result" "worker_inv (rc_worker r)"
    using assms(3,4) by (auto simp: reactor_inv_def results_inv_def)
  then show ?thesis by (auto simp: is_result_def worker_inv_def split: worker_phase.splits)
qed

definition wit_os :: "(nat, unit) reactor_os" where
  "wit_os = \<lparr>os_bind = (\<lambda>a. Inr ()), os_local_addr = (\<lambda>_. Inr (SocketV4 (sock_addr_new 1 2))), os_poll_new = Inr (),
     os_register = (\<lambda>_. Inr ()), os_waker_new = Inr (), os_spawn = Inr ()\<rparr>"

definition wit_reactor :: "nat reactor" where
  "wit_reactor = \<lparr>rc_local_addr = sock_addr_new 1 2,
     rc_worker = \<lparr>wk_phase = AtLoopHead, wk_socket_open = True, wk_waker_alive = True, wk_shutdown_requested = False,
       wk_wake_pending = False\<rparr>, rc_join = Unjoined, rc_join_lock = None, rc_handles = [Live]\<rparr>"

lemma wit_reactor_bind: "reactor_bind wit_os (sock_addr_new 1 0) = Inr wit_reactor"
  by (simp add: reactor_bind_def wit_os_def worker_new_def wit_reactor_def)

text \<open>Two handles shut down concurrently a worker whose poll fails.\<close>

definition wit_actions :: "nat reactor_action list" where
  "wit_actions = [CloneHandle 0, WorkerCheck, CallShutdown 0, CallShutdown 1, Wake 1 True, LockJoin 1, Wake 0 True,
     WorkerPoll (PollFailed 7), FinishJoin 1, LockJoin 0, ReleaseHandle 1, FinishJoin 0]"

lemmas step_defs = reactor_step_def handle_step_def worker_check_def worker_poll_def worker_exit_def request_store_def
  request_wake_def set_handle_def drop_handle_def holds_control_def join_state_join_def thread_join_result_def

lemma wit_run:
  "\<exists>r. reactor_run wit_actions wit_reactor = Some r \<and> rc_handles r =
     [Answered (Inl (WorkerIo (OsError 7))), Released (Some (Inl (WorkerIo (OsError 7))))]"
  by (simp add: wit_actions_def wit_reactor_def step_defs)

theorem shutdown_returns_worker_result_witness:
  "\<exists>r. reactor_run wit_actions wit_reactor = Some r \<and> wk_phase (rc_worker r) = Exited (WorkerErr (OsError 7)) \<and>
     \<not> wk_socket_open (rc_worker r)"
proof -
  obtain r where r: "reactor_run wit_actions wit_reactor = Some r"
    "rc_handles r = [Answered (Inl (WorkerIo (OsError 7))), Released (Some (Inl (WorkerIo (OsError 7))))]"
    using wit_run by blast
  have "\<exists>res. wk_phase (rc_worker r) = Exited res \<and> Inl (WorkerIo (OsError 7)) = thread_join_result res \<and>
      \<not> wk_socket_open (rc_worker r)"
    by (rule shutdown_returns_worker_result [OF wit_reactor_bind r(1), of "Answered (Inl (WorkerIo (OsError 7)))"])
      (simp_all add: r(2) handle_result_def)
  then obtain res where "wk_phase (rc_worker r) = Exited res" "Inl (WorkerIo (OsError 7)) = thread_join_result res"
    "\<not> wk_socket_open (rc_worker r)" by blast
  then show ?thesis using r(1) by (cases res) (auto simp: thread_join_result_def)
qed


section \<open>No wake-up is lost\<close>

definition waking :: "'e handle_phase \<Rightarrow> bool" where
  "waking h = (case h of ShutdownRequested \<Rightarrow> True | FinalDrop _ \<Rightarrow> True | _ \<Rightarrow> False)"

definition delivered :: "'e reactor_action \<Rightarrow> bool" where
  "delivered act = (case act of Wake _ d \<Rightarrow> d | _ \<Rightarrow> True)"

definition wake_inv :: "'e reactor \<Rightarrow> bool" where
  "wake_inv r \<longleftrightarrow> wk_phase (rc_worker r) = InPoll \<and> wk_shutdown_requested (rc_worker r) \<longrightarrow>
     wk_wake_pending (rc_worker r) \<or> (\<exists>h \<in> set (rc_handles r). waking h)"

lemma waking_set:
  assumes "h \<in> set hs" "waking h" "\<not> waking (hs ! i)"
  shows "\<exists>h \<in> set (hs[i := h']). waking h"
proof -
  obtain j where j: "j < length hs" "hs ! j = h" using assms(1) by (auto simp: in_set_conv_nth)
  then have "j \<noteq> i" using assms(2,3) by auto
  then have "hs[i := h'] ! j = h" using j by simp
  then show ?thesis using j(1) assms(2) by (metis length_list_update nth_mem)
qed

lemma wake_inv_keeps:
  assumes "wake_inv r" "\<not> waking (rc_handles r ! i)"
  shows "wake_inv (set_handle i h r)"
  using assms waking_set [of _ "rc_handles r" i h] by (auto simp: wake_inv_def set_handle_def)

lemma handle_step_wake_inv:
  assumes "reactor_inv r" "wake_inv r" "handle_step act i r = Some r'" "delivered act"
  shows "wake_inv r'"
proof -
  have pending: "wk_phase w \<noteq> InPoll \<or> wk_wake_pending (request_wake True w)" if "worker_inv w" for w :: "'a worker"
    using that by (auto simp: worker_inv_def request_wake_def)
  have woken: "wake_inv (set_handle i h (r\<lparr>rc_worker := request_wake True (rc_worker r)\<rparr>))" for h
    using pending [of "rc_worker r"] assms(1) by (auto simp: reactor_inv_def wake_inv_def set_handle_def request_wake_def)
  have new: "wake_inv (set_handle i h (r\<lparr>rc_worker := request_store (rc_worker r)\<rparr>))" if "waking h" "i < length (rc_handles r)" for h
    using that set_update_memI [of i "rc_handles r" h] by (auto simp: wake_inv_def set_handle_def)
  have woke: "wake_inv r'" if "waking (rc_handles r ! i)" "i < length (rc_handles r)"
  proof -
    have "\<exists>h. r' = set_handle i h (r\<lparr>rc_worker := request_wake True (rc_worker r)\<rparr>)"
      using assms(3,4) that
      by (auto simp: handle_step_def waking_def delivered_def split: reactor_action.splits handle_phase.splits)
    then show ?thesis using woken by blast
  qed
  show ?thesis using assms(3)
  proof (cases rule: handle_step_cases)
    case clone
    then show ?thesis using assms(2) by (auto simp: wake_inv_def)
  next
    case call
    then show ?thesis using new by (simp add: waking_def)
  next
    case (wake d)
    then show ?thesis using woke by (simp add: waking_def)
  next
    case (final d res)
    then show ?thesis using woke by (simp add: waking_def)
  next
    case lock
    have "wake_inv (r\<lparr>rc_join := Joined (Inr ()), rc_join_lock := Some i\<rparr>)" using assms(2) by (simp add: wake_inv_def)
    then show ?thesis using lock by (simp add: wake_inv_keeps waking_def)
  next
    case (join st res st')
    have "wake_inv (r\<lparr>rc_join := st', rc_join_lock := None\<rparr>)" using assms(2) by (simp add: wake_inv_def)
    then show ?thesis using join by (simp add: wake_inv_keeps waking_def)
  next
    case release
    then have "\<not> waking (rc_handles r ! i)" by (auto simp: waking_def)
    then show ?thesis using release(1,3) assms(2) new by (simp add: drop_handle_def wake_inv_keeps waking_def)
  qed
qed

lemma reactor_step_wake_inv:
  assumes "reactor_inv r" "wake_inv r" "reactor_step act r = Some r'" "delivered act"
  shows "wake_inv r'"
  using assms handle_step_wake_inv [OF assms(1,2)]
  by (cases act) (auto simp: reactor_step_def wake_inv_def worker_check_def worker_poll_def worker_exit_def
    split: if_splits poll_result.splits)

lemma reactor_run_wake_inv:
  "reactor_run acts r = Some r' \<Longrightarrow> reactor_inv r \<Longrightarrow> wake_inv r \<Longrightarrow> \<forall>act \<in> set acts. delivered act \<Longrightarrow> wake_inv r'"
  by (induction acts arbitrary: r) (auto split: option.splits intro: reactor_step_inv reactor_step_wake_inv)

text \<open>C20: no wake-up is lost. While waking succeeds, a worker that waits in \<open>poll\<close> although a shutdown is requested has a wake-up
  pending, which makes \<open>poll\<close> return at once, or a handle is just about to send one; the fallback timeout is
  never what ends the wait.\<close>

theorem no_wake_up_lost:
  assumes "reactor_bind os address = Inr r0" "reactor_run acts r0 = Some r" "\<forall>act \<in> set acts. delivered act"
    and "wk_phase (rc_worker r) = InPoll" "wk_shutdown_requested (rc_worker r)"
  shows "wk_wake_pending (rc_worker r) \<or> (\<exists>h \<in> set (rc_handles r). waking h)"
proof -
  have "wake_inv r0" using assms(1)
    by (auto simp: wake_inv_def reactor_bind_def worker_new_def bindE_def map_err_def split: sum.splits)
  then have "wake_inv r" using reactor_run_wake_inv [OF assms(2) reactor_bind_inv [OF assms(1)] _ assms(3)] by blast
  then show ?thesis using assms(4,5) by (simp add: wake_inv_def)
qed

theorem no_wake_up_lost_witness:
  "\<exists>r. reactor_run [WorkerCheck, CallShutdown 0, Wake 0 True] wit_reactor = Some r \<and> wk_wake_pending (rc_worker r)"
proof -
  obtain r where r: "reactor_run [WorkerCheck, CallShutdown 0, Wake 0 True] wit_reactor = Some r" "wk_phase (rc_worker r) = InPoll"
    "wk_shutdown_requested (rc_worker r)" "rc_handles r = [AwaitingLock]"
    by (simp add: wit_reactor_def step_defs)
  have "wk_wake_pending (rc_worker r) \<or> (\<exists>h \<in> set (rc_handles r). waking h)"
    by (rule no_wake_up_lost [OF wit_reactor_bind r(1)]) (simp_all add: r delivered_def)
  then show ?thesis using r by (simp add: waking_def)
qed


section \<open>A requested shutdown completes\<close>

text \<open>How many more actions the worker and a handle can make once the flag is set; a clone counts as a new handle.\<close>

definition worker_weight :: "'e worker \<Rightarrow> nat" where
  "worker_weight w = (case wk_phase w of InPoll \<Rightarrow> 2 | AtLoopHead \<Rightarrow> 1 | Exited _ \<Rightarrow> 0)"

definition handle_weight :: "'e handle_phase \<Rightarrow> nat" where
  "handle_weight h = (case h of
      Live \<Rightarrow> 6 | ShutdownRequested \<Rightarrow> 5 | AwaitingLock \<Rightarrow> 4 | Joining _ \<Rightarrow> 3 | Answered _ \<Rightarrow> 2 | FinalDrop _ \<Rightarrow> 1 | Released _ \<Rightarrow> 0)"

definition shutdown_measure :: "'e reactor \<Rightarrow> nat" where
  "shutdown_measure r = worker_weight (rc_worker r) + sum_list (map handle_weight (rc_handles r))"

definition clones :: "'e reactor_action \<Rightarrow> bool" where
  "clones act = (case act of CloneHandle _ \<Rightarrow> True | _ \<Rightarrow> False)"

lemma worker_weight_request [simp]:
  "worker_weight (request_store w) = worker_weight w" "worker_weight (request_wake d w) = worker_weight w"
  by (simp_all add: worker_weight_def request_store_def request_wake_def)

lemma measure_set:
  assumes "i < length (rc_handles r)" "handle_weight h < handle_weight (rc_handles r ! i)"
  shows "shutdown_measure (set_handle i h r) < shutdown_measure r"
proof -
  have "sum_list (map handle_weight ((rc_handles r)[i := h])) + handle_weight (rc_handles r ! i) =
      sum_list (map handle_weight (rc_handles r)) + handle_weight h"
    using assms(1) by (simp add: map_update sum_list_update member_le_sum_list trans_le_add1)
  then show ?thesis using assms(2) by (simp add: shutdown_measure_def set_handle_def)
qed

lemma handle_step_measure:
  assumes "handle_step act i r = Some r'" "\<not> clones act"
  shows "shutdown_measure r' < shutdown_measure r"
proof -
  have less: "shutdown_measure (set_handle i h r2) < shutdown_measure r"
    if "i < length (rc_handles r)" "handle_weight h < handle_weight (rc_handles r ! i)" "rc_handles r2 = rc_handles r"
      "worker_weight (rc_worker r2) = worker_weight (rc_worker r)" for r2 h
    using measure_set [of i r2 h] that by (simp add: shutdown_measure_def)
  have i: "i < length (rc_handles r)" using assms(1) by (auto simp: handle_step_def split: if_splits)
  show ?thesis using assms i unfolding handle_step_def
    by (auto simp: clones_def handle_weight_def drop_handle_def split: reactor_action.splits handle_phase.splits if_splits
      option.splits intro!: less)
qed

lemma handle_step_requested:
  "handle_step act i r = Some r' \<Longrightarrow> wk_shutdown_requested (rc_worker r) \<Longrightarrow> wk_shutdown_requested (rc_worker r')"
  by (cases rule: handle_step_cases)
    (auto simp: set_handle_def drop_handle_def request_store_def request_wake_def elim: handle_step_cases)

lemma reactor_step_measure:
  assumes "reactor_step act r = Some r'" "\<not> clones act" "wk_shutdown_requested (rc_worker r)"
  shows "shutdown_measure r' < shutdown_measure r \<and> wk_shutdown_requested (rc_worker r')"
  using assms handle_step_measure handle_step_requested
  by (cases act) (auto simp: reactor_step_def worker_check_def worker_poll_def worker_exit_def shutdown_measure_def worker_weight_def
    split: if_splits poll_result.splits)

lemma reactor_run_bounded:
  assumes "reactor_run acts r = Some r'" "\<forall>act \<in> set acts. \<not> clones act" "wk_shutdown_requested (rc_worker r)"
  shows "length acts \<le> shutdown_measure r"
  using assms
proof (induction acts arbitrary: r)
  case (Cons act acts)
  obtain r1 where r1: "reactor_step act r = Some r1" "reactor_run acts r1 = Some r'"
    using Cons.prems(1) by (auto split: option.splits)
  have "shutdown_measure r1 < shutdown_measure r \<and> wk_shutdown_requested (rc_worker r1)"
    using reactor_step_measure [OF r1(1)] Cons.prems(2,3) by simp
  then show ?case using Cons.IH [OF r1(2)] Cons.prems(2) by simp
qed simp

text \<open>Actions that the program's user starts; all others are the threads' own next steps.\<close>

definition user_action :: "'e reactor_action \<Rightarrow> 'e reactor \<Rightarrow> bool" where
  "user_action act r = (case act of
      CloneHandle _ \<Rightarrow> True
    | CallShutdown _ \<Rightarrow> True
    | ReleaseHandle i \<Rightarrow> rc_handles r ! i = Live
    | _ \<Rightarrow> False)"

lemma stuck_worker_exited:
  assumes "\<And>act. \<not> user_action act r \<Longrightarrow> reactor_step act r = None"
  shows "\<exists>res. wk_phase (rc_worker r) = Exited res"
  using assms [of WorkerCheck] assms [of "WorkerPoll PollInterrupted"]
  by (cases "wk_phase (rc_worker r)") (auto simp: user_action_def reactor_step_def worker_check_def worker_poll_def)

lemma stuck_handles_done:
  assumes "reactor_inv r" "\<And>act. \<not> user_action act r \<Longrightarrow> reactor_step act r = None" "h \<in> set (rc_handles r)"
  shows "h = Live \<or> (\<exists>res. h = Released res)"
proof -
  obtain i where i: "i < length (rc_handles r)" "rc_handles r ! i = h" using assms(3) by (auto simp: in_set_conv_nth)
  obtain res where ex: "wk_phase (rc_worker r) = Exited res" using stuck_worker_exited [OF assms(2)] by blast
  have no_join: "rc_handles r ! j \<noteq> Joining st" if "j < length (rc_handles r)" for j st
    using assms(2) [of "FinishJoin j"] that ex
    by (auto simp: user_action_def reactor_step_def handle_step_def join_state_join_def split: join_state.splits)
  then have "rc_join_lock r = None" using assms(1)
    by (auto simp: reactor_inv_def join_inv_def split: option.splits)
  then show ?thesis
    using i no_join [OF i(1)] assms(2) [of "Wake i True"] assms(2) [of "LockJoin i"] assms(2) [of "ReleaseHandle i"]
    by (cases h) (auto simp: user_action_def reactor_step_def handle_step_def)
qed

text \<open>C21: a requested shutdown completes. From any state with the flag set, at most \<open>shutdown_measure\<close> more actions
  happen before somebody clones a handle, whatever \<open>poll\<close> answers; and when no thread has a next step of its own, the worker has exited
  and every handle is released or was never asked to shut down. No caller waits for a lock for ever.\<close>

theorem shutdown_completes:
  assumes "reactor_bind os address = Inr r0" "reactor_run acts r0 = Some r" "wk_shutdown_requested (rc_worker r)"
  shows "(\<forall>acts' r'. reactor_run acts' r = Some r' \<and> (\<forall>act \<in> set acts'. \<not> clones act) \<longrightarrow> length acts' \<le> shutdown_measure r) \<and>
    ((\<forall>act. \<not> user_action act r \<longrightarrow> reactor_step act r = None) \<longrightarrow>
       (\<exists>res. wk_phase (rc_worker r) = Exited res) \<and>
       (\<forall>h \<in> set (rc_handles r). h = Live \<or> (\<exists>res. h = Released res)))"
proof -
  have "reactor_inv r" using reactor_run_inv [OF assms(2)] reactor_bind_inv [OF assms(1)] by blast
  then show ?thesis
    using reactor_run_bounded [OF _ _ assms(3)] stuck_worker_exited [of r] stuck_handles_done [of r] by metis
qed

theorem shutdown_completes_witness:
  "\<exists>r. reactor_run [CloneHandle 0, WorkerCheck, CallShutdown 0] wit_reactor = Some r \<and>
     (\<forall>acts' r'. reactor_run acts' r = Some r' \<and> (\<forall>act \<in> set acts'. \<not> clones act) \<longrightarrow> length acts' \<le> 13)"
proof -
  obtain r where r: "reactor_run [CloneHandle 0, WorkerCheck, CallShutdown 0] wit_reactor = Some r"
    "wk_shutdown_requested (rc_worker r)" "shutdown_measure r = 13"
    by (simp add: wit_reactor_def step_defs shutdown_measure_def worker_weight_def handle_weight_def)
  show ?thesis using shutdown_completes [OF wit_reactor_bind r(1,2)] r by auto
qed

section \<open>How long the socket stays bound\<close>

definition quiet :: "'e reactor_action \<Rightarrow> bool" where
  "quiet act = (case act of
      CallShutdown _ \<Rightarrow> False
    | WorkerPoll (PollFailed _) \<Rightarrow> False
    | WorkerPoll PollPanicked \<Rightarrow> False
    | _ \<Rightarrow> True)"

definition held :: "'e reactor \<Rightarrow> bool" where
  "held r \<longleftrightarrow> (\<forall>h \<in> set (rc_handles r). h = Live \<or> h = Released None) \<and>
     wk_socket_open (rc_worker r) \<and> \<not> wk_shutdown_requested (rc_worker r)"

lemma only_one_filtered:
  assumes "length (filter P xs) = 1" "i < length xs" "P (xs ! i)" "\<not> P y" "h \<in> set (xs[i := y])"
  shows "\<not> P h"
proof -
  have "length (filter P (take i xs @ xs ! i # drop (Suc i) xs)) = 1" using assms(1,2) by (simp add: id_take_nth_drop [symmetric])
  then have "filter P (take i xs) = []" "filter P (drop (Suc i) xs) = []" using assms(3) by simp_all
  then show ?thesis using assms(2,4,5) by (auto simp: upd_conv_take_nth_drop filter_empty_conv)
qed

lemma handle_step_held:
  assumes "held r" "handle_step act i r = Some r'" "quiet act"
  shows "held r' \<or> (\<forall>h \<in> set (rc_handles r'). \<not> holds_control h)"
proof -
  have i: "i < length (rc_handles r)" using assms(2) by (auto simp: handle_step_def split: if_splits)
  then have h: "rc_handles r ! i = Live \<or> rc_handles r ! i = Released None" using assms(1) by (auto simp: held_def)
  then have "r' = r\<lparr>rc_handles := rc_handles r @ [Live]\<rparr> \<or> rc_handles r ! i = Live \<and> r' = drop_handle i None r"
    using assms(2,3) i by (auto simp: handle_step_def quiet_def split: reactor_action.splits)
  then show ?thesis
  proof (elim disjE conjE)
    assume live: "rc_handles r ! i = Live" and r': "r' = drop_handle i None r"
    show ?thesis
    proof (cases "length (filter holds_control (rc_handles r)) = 1")
      case True
      then have "\<not> holds_control h" if "h \<in> set (rc_handles r')" for h
        using only_one_filtered [of holds_control "rc_handles r" i "FinalDrop None" h] i live that
        by (simp add: r' drop_handle_def set_handle_def holds_control_def)
      then show ?thesis by blast
    next
      case False
      then show ?thesis using assms(1)
        by (auto simp: r' drop_handle_def set_handle_def held_def dest!: set_update_subset_insert [THEN subsetD])
    qed
  qed (use assms(1) in \<open>auto simp: held_def\<close>)
qed

lemma handle_step_uncontrolled:
  assumes "\<forall>h \<in> set (rc_handles r). \<not> holds_control h" "handle_step act i r = Some r'"
  shows "\<forall>h \<in> set (rc_handles r'). \<not> holds_control h"
proof -
  have i: "i < length (rc_handles r)" using assms(2) by (auto simp: handle_step_def split: if_splits)
  then have "\<not> holds_control (rc_handles r ! i)" using assms(1) by simp
  then have "\<exists>res w. r' = set_handle i (Released res) (r\<lparr>rc_worker := w\<rparr>)"
    using assms(2) i by (auto simp: handle_step_def holds_control_def split: handle_phase.splits reactor_action.splits)
  then show ?thesis using assms(1)
    by (auto simp: set_handle_def holds_control_def dest!: set_update_subset_insert [THEN subsetD])
qed

lemma reactor_step_held:
  assumes "held r \<or> (\<forall>h \<in> set (rc_handles r). \<not> holds_control h)" "reactor_step act r = Some r'" "quiet act"
  shows "held r' \<or> (\<forall>h \<in> set (rc_handles r'). \<not> holds_control h)"
proof (cases "act = WorkerCheck \<or> (\<exists>result. act = WorkerPoll result)")
  case True
  obtain w where w: "r' = r\<lparr>rc_worker := w\<rparr>" "worker_check (rc_worker r) = Some w \<or>
      (\<exists>result. worker_poll result (rc_worker r) = Some w \<and> act = WorkerPoll result)"
    using True assms(2) by (auto simp: reactor_step_def)
  have keeps: "held r \<Longrightarrow> wk_socket_open w \<and> \<not> wk_shutdown_requested w"
    using w(2) assms(3) unfolding held_def
    by (elim disjE exE) (auto simp: worker_check_def worker_poll_def quiet_def split: if_splits poll_result.splits)
  from assms(1) show ?thesis
  proof
    assume "held r"
    then show ?thesis using keeps by (simp add: w(1) held_def)
  qed (simp add: w(1))
next
  case False
  then obtain i where "handle_step act i r = Some r'" using assms(2) by (cases act) (auto simp: reactor_step_def)
  then show ?thesis using assms(1,3) handle_step_held handle_step_uncontrolled by blast
qed

lemma reactor_run_held:
  assumes "reactor_run acts r = Some r'" "\<forall>act \<in> set acts. quiet act" "held r \<or> (\<forall>h \<in> set (rc_handles r). \<not> holds_control h)"
  shows "held r' \<or> (\<forall>h \<in> set (rc_handles r'). \<not> holds_control h)"
  using assms
proof (induction acts arbitrary: r)
  case (Cons act acts)
  then obtain r1 where "reactor_step act r = Some r1" "reactor_run acts r1 = Some r'" by (auto split: option.splits)
  then show ?case using Cons.IH [of r1] Cons.prems(2,3) reactor_step_held [of r act r1] by simp
qed simp

text \<open>Dropping handles does not stop the reactor while one is left: unless a handle is shut down or polling fails, the
  socket stays bound and no shutdown is requested as long as there is a live handle, whatever is cloned and dropped.\<close>

theorem socket_bound_while_held:
  assumes "reactor_bind os address = Inr r0" "reactor_run acts r0 = Some r" "\<forall>act \<in> set acts. quiet act"
    and "Live \<in> set (rc_handles r)"
  shows "wk_socket_open (rc_worker r) \<and> \<not> wk_shutdown_requested (rc_worker r)"
proof -
  have "held r0" using assms(1)
    by (auto simp: held_def reactor_bind_def worker_new_def bindE_def map_err_def split: sum.splits)
  then have "held r \<or> (\<forall>h \<in> set (rc_handles r). \<not> holds_control h)" using reactor_run_held [OF assms(2,3)] by blast
  then show ?thesis using assms(4) by (auto simp: held_def holds_control_def)
qed

theorem socket_bound_while_held_witness:
  "\<exists>r. reactor_run [CloneHandle 0, ReleaseHandle 0, WorkerCheck, WorkerPoll (PollReady False)] wit_reactor = Some r \<and>
     wk_socket_open (rc_worker r)"
proof -
  obtain r where r: "reactor_run [CloneHandle 0, ReleaseHandle 0, WorkerCheck, WorkerPoll (PollReady False)] wit_reactor = Some r"
    "rc_handles r = [Released None, Live]"
    by (simp add: wit_reactor_def step_defs)
  then show ?thesis using socket_bound_while_held [OF wit_reactor_bind r(1)] by (auto simp: quiet_def)
qed

end
