(* ===== verification/Spec2Isabelle.thy ===== *)
theory Spec2Isabelle
  imports Exchange Lookup Server_Spec Testnet Next_Messages Reactor
begin

text \<open>
  Verification of the \<^verbatim>\<open>mainline\<close> crate (\<^verbatim>\<open>src/src\<close>), a node of the BitTorrent Mainline DHT, and of the wire layer
  and the reactor of its rewrite (\<^verbatim>\<open>src/mainline-next\<close>).

  \<^bold>\<open>The program.\<close> A node (\<^verbatim>\<open>rpc.rs\<close>) owns a routing table of other nodes, a UDP socket that numbers its requests and matches
  answers to them, a server that answers requests from its stores, the iterative queries that walk
  towards a target, the put queries that store a value at the nodes such a walk found, and a cache of
  finished walks. One \<open>tick\<close> polls the puts, advances the walks, files what is done, does the periodic
  maintenance and handles one incoming message. An actor thread (\<^verbatim>\<open>dht.rs\<close>) owns the node, takes one message
  of its callers per tick and hands them what the tick reports.

  \<^bold>\<open>Theories and sources.\<close> Each theory models one part; a Rust struct is a record, an enum a
  datatype, a method a definition of the same name, with the prefix of its type where the name is shared.

  \<^item> \<open>Mainline_Prelude\<close>: words and big-endian bytes, clock, random supply, results, list facts.
  \<^item> \<open>Ident\<close> (\<^verbatim>\<open>common/id.rs\<close>): ids, the XOR metric, hexadecimal text, BEP 42. The distance is the bit length of the XOR, the
    text form parses back.
  \<^item> \<open>Node_Entry\<close> (\<^verbatim>\<open>common/node.rs\<close>): node entries, their age, and the rule \<open>already_exists\<close> that limits nodes per address. The locale
    \<open>ip_guarded\<close> states the contract of containers that follow the rule and proves the limit from it; it is interpreted on the
    candidate list and on the routing table.
  \<^item> \<open>Float64\<close>: IEEE 754 arithmetic on rationals for the size estimates. \<open>Binary_Search\<close>: the standard library's binary search.
  \<^item> \<open>Closest_Nodes\<close> (\<^verbatim>\<open>rpc/closest_nodes.rs\<close>): the candidate list, always strictly sorted (secure first, then by distance); the
    insertion by binary search equals linear sorted insertion.
  \<^item> \<open>Routing_Table\<close> (\<^verbatim>\<open>common/routing_table.rs\<close>): k-buckets, the node iterator with its termination, \<open>closest\<close>. The invariant over all insertions and
    removals, what an insertion can drop, and that \<open>closest\<close> refines sorting the table and taking twenty nodes.
  \<^item> \<open>Items\<close> (\<^verbatim>\<open>common/immutable.rs\<close>, \<^verbatim>\<open>common/mutable.rs\<close>): hashing, the signed text and its injectivity, acceptance, order of items.
  \<^item> \<open>Messages\<close>, \<open>Message_Codec\<close> (\<^verbatim>\<open>common/messages.rs\<close>, \<^verbatim>\<open>common/messages/internal.rs\<close>): every message, its serialised form and both
    conversions, with the round trip and exactly what it loses.
  \<^item> \<open>Lru\<close>: the contract of the \<open>lru\<close> crate as the locale \<open>lru_cache\<close>, interpreted on association lists. \<open>Tokens\<close>
    (\<^verbatim>\<open>rpc/server/tokens.rs\<close>), \<open>Peers\<close> (\<^verbatim>\<open>rpc/server/peers.rs\<close>), \<open>Server\<close> (\<^verbatim>\<open>rpc/server.rs\<close>): every request and its answer; only
    what verifies is stored and served, puts need a valid token, sequence numbers never decrease. \<open>Server_Spec\<close>: the abstract item
    service, two maps with a specification of get and put, and the refinement of it by the server. \<open>Announce\<close>: the announced peers of the
    server, their bounds, and that an acknowledged announcement is served. The locale \<open>peer_caches\<close> combines the contracts of the two
    caches of \<open>Peers\<close>, one nested in the other.
  \<^item> \<open>Krpc_Socket\<close> (\<^verbatim>\<open>rpc/socket.rs\<close>, \<^verbatim>\<open>rpc/socket/inflight_requests.rs\<close>): an answer is accepted at most once, in time and
    from the address asked; transaction ids do not repeat for \<open>2 ^ 32\<close> requests.
  \<^item> \<open>Iterative_Query\<close> (\<^verbatim>\<open>rpc/iterative_query.rs\<close>), \<open>Put_Query\<close> (\<^verbatim>\<open>rpc/put_query.rs\<close>): what a tick visits, that queries and puts end once
    their requests have timed out, the ranking of errors, the vote on the public address.
  \<^item> \<open>Rpc\<close>, \<open>Rpc_Invariant\<close>, \<open>Rpc_Properties\<close> (\<^verbatim>\<open>rpc.rs\<close>, \<^verbatim>\<open>rpc/config.rs\<close>, \<^verbatim>\<open>rpc/info.rs\<close>): the handlers of the node and their composition, the invariant over
    every sequence of operations (\<open>rpc_reachable\<close>), and what follows: only verified values are reported, puts of one node do not
    overwrite each other silently, and the statistics of the cache follow a ledger (\<open>ledger\<close>) of queries filed and dropped: the sum of subnets is exact,
    the estimates are sums with rounding, and the count is a bound from above.
  \<^item> \<open>Lookup\<close> (\<^verbatim>\<open>rpc/iterative_query.rs\<close> as \<^verbatim>\<open>rpc.rs\<close> drives it): the whole run of one query as an inductive relation of ticks and heard answers.
    It ends in time, whatever is answered; among honest nodes it finds the closest ones, which head the list handed to a put; and servers are honest.
  \<^item> \<open>Dht_Actor\<close> (\<^verbatim>\<open>dht.rs\<close>): builder, actor loop, requests and results of the interface; no caller is forgotten.
  \<^item> \<open>Async_Dht\<close> (\<^verbatim>\<open>async_dht.rs\<close>, \<^verbatim>\<open>dht.rs\<close>): the asynchronous interface and the rest of the blocking one; a simulation (\<open>async_rel\<close>) shows
    that both interfaces see the same.
  \<^item> \<open>Delivery\<close> (\<^verbatim>\<open>dht.rs\<close> with \<^verbatim>\<open>rpc.rs\<close>): what the callers of the actor are sent: every value that their query collects, what closes their channel when it
    ends, the result of a put, the reply to a question.
  \<^item> \<open>Exchange\<close>: two nodes together, over actor, node, query, socket, codec and server: a stored value or mutable item is found, announced
    peers are found, and what is acknowledged is stored. The network is the delivery of a datagram from the outbox of one to the other.
  \<^item> \<open>Testnet\<close> (\<^verbatim>\<open>dht.rs\<close>): starting nodes and local networks; what their routing tables hold after seeding.
  \<^item> \<open>Next_Wire\<close> (\<^verbatim>\<open>mainline-next/src\<close>): BEP 42, distances and compact encodings of the rewrite, equal to the main crate's.
    \<open>Next_Messages\<close> (\<^verbatim>\<open>mainline-next/src/wire\<close>): its messages as dictionaries, with the round trip among unknown fields.
  \<^item> \<open>Reactor\<close> (\<^verbatim>\<open>mainline-next/src/reactor\<close>): the worker thread and its handles as interleaved steps; the result of a shutdown, lost
    wake-ups, termination under every schedule (by the measure \<open>shutdown_measure\<close>).

  \<^bold>\<open>Modelling choices.\<close> State is passed explicitly. Each handler takes the clock reading \<open>now\<close> (one per
  handler; a tick has a second one for the datagram); elapsed time saturates at zero. Randomness is a stream of bytes that is consumed
  from the front. A panic is \<open>None\<close>, a \<open>Result\<close> is a sum with the error on the left. Hash maps whose
  iteration order can be observed are association lists; theorems hold for every order of the list. Counters that
  can overflow are words, which wrap as in a release build; \<open>usize\<close> counters are natural numbers, with the
  subtraction written out where it could wrap (\<open>usize_sub\<close>), and the invariant of the node shows that it never
  does. The socket's output is an outbox of messages, its input an argument. No definition uses fuel: loops
  are structural recursion, folds, or functions with a termination proof.

  \<^bold>\<open>Parameters.\<close> Code outside the repository is an argument: the Castagnoli checksum, SHA-1 and Ed25519 (record \<open>crypto\<close>), the
  bencode codec (record \<open>bencode\<close>), the LRU caches (record \<open>lru_ops\<close>), \<open>powf\<close>, binding a socket and resolving names,
  the operating system under the reactor (record \<open>reactor_os\<close> and the results of \<open>poll\<close>), the text check of the codec of the rewrite. What is assumed
  of them is a named hypothesis (\<open>bencode_inverts\<close>, \<open>signs_correctly\<close>, \<open>lru_cache\<close>, \<open>env_ok\<close>), each with a
  concrete instance in the witnesses.

  \<^bold>\<open>Not modelled.\<close> Logging; the threads and channels under the actor, of which only the order of messages and the log of sent values are
  kept, and the end of that thread when its callers are gone; the byte syntax of bencode, with duplicate keys and the range of its integers, which is the
  codec's; the panic of subtracting a timeout from an instant that the clock of the system cannot represent; what the socket of the reactor receives, which its code discards; overflow of \<open>usize\<close> additions, which count objects in
  memory; \<open>Testnet::leak\<close>, which only keeps memory alive; the crate roots, which declare modules; the example programs, which print
  what the interface returns; the simulation, a statistical experiment outside the library; benchmarks and tests.
\<close>

end
